(* ===== verification/Prelude.thy ===== *)
theory Prelude
  imports Main "HOL-Library.State_Monad" "HOL-Library.AList"
begin

text \<open>
  Shared vocabulary of the development: Go's error values, a generic notion of reachable
  states with its invariant rule, and lemmas on association lists.

  A Go function that returns a value and an \<open>error\<close> is a function into a sum, with
  \<^term>\<open>Inl\<close> for the error; a function that returns an \<open>error\<close> only is a function
  into an option, with \<^term>\<open>None\<close> for \<open>nil\<close>.
\<close>

section \<open>Error values\<close>

text \<open>
  A Go error: its text, and whether \<open>os.IsNotExist\<close> holds of it (wrapping with
  \<open>%w\<close> loses that, because \<open>os.IsNotExist\<close> does not unwrap).
\<close>

datatype gerr = Err (is_not_exist: bool) (err_msg: string)

type_synonym 'a result = "gerr + 'a"

definition errors_New :: "string \<Rightarrow> gerr" where
  "errors_New m = Err False m"

definition wrap_err :: "string \<Rightarrow> gerr \<Rightarrow> gerr" where
  "wrap_err m e = Err False (m @ '': '' @ err_msg e)"

lemma not_exist_new [simp]: "\<not> is_not_exist (errors_New m)"
  by (simp add: errors_New_def)

lemma not_exist_wrap [simp]: "\<not> is_not_exist (wrap_err m e)"
  by (simp add: wrap_err_def)

section \<open>Reachable states\<close>

text \<open>
  Every stateful component is a start state and a step relation. The invariant
  rule is proved once here.
\<close>

locale step_system =
  fixes start :: "'s \<Rightarrow> bool"
    and step :: "'s \<Rightarrow> 's \<Rightarrow> bool"
    and inv :: "'s \<Rightarrow> bool"
  assumes inv_start: "start s \<Longrightarrow> inv s"
    and inv_step: "inv s \<Longrightarrow> step s t \<Longrightarrow> inv t"
begin

lemma inv_reachable: "start s \<Longrightarrow> step\<^sup>*\<^sup>* s t \<Longrightarrow> inv t"
  by (rotate_tac 1, induction rule: rtranclp_induct) (auto intro: inv_start inv_step)

lemma inv_steps: "inv s \<Longrightarrow> step\<^sup>*\<^sup>* s t \<Longrightarrow> inv t"
  by (rotate_tac 1, induction rule: rtranclp_induct) (auto intro: inv_step)

end

section \<open>Events\<close>

text \<open>
  A component whose turns are chosen from outside is a partial function on events: an
  event that is not possible in a state has no successor there. A run is a list of events;
  the step relation of a restriction allows the events that satisfy it.
\<close>

fun run_events :: "('e \<Rightarrow> 's \<Rightarrow> 's option) \<Rightarrow> 'e list \<Rightarrow> 's \<Rightarrow> 's option" where
  "run_events step [] s = Some s"
| "run_events step (e # es) s = (case step e s of None \<Rightarrow> None | Some t \<Rightarrow> run_events step es t)"

definition event_rel :: "('e \<Rightarrow> 's \<Rightarrow> 's option) \<Rightarrow> ('e \<Rightarrow> 's \<Rightarrow> bool) \<Rightarrow> 's \<Rightarrow> 's \<Rightarrow> bool" where
  "event_rel step ok s t \<longleftrightarrow> (\<exists>e. ok e s \<and> step e s = Some t)"

lemma run_events_append:
  "run_events step (es @ fs) s = (case run_events step es s of None \<Rightarrow> None | Some t \<Rightarrow> run_events step fs t)"
  by (induction es arbitrary: s) (auto split: option.split)

lemma run_reaches:
  "list_all ok es \<Longrightarrow> run_events step es s = Some t \<Longrightarrow> (event_rel step (\<lambda>e _. ok e))\<^sup>*\<^sup>* s t"
proof (induction es arbitrary: s)
  case (Cons e es)
  then obtain u where u: "step e s = Some u" "run_events step es u = Some t" by (auto split: option.splits)
  then have "event_rel step (\<lambda>e _. ok e) s u" using Cons.prems(1) by (auto simp: event_rel_def)
  with Cons.IH [OF _ u(2)] Cons.prems(1) show ?case by (auto intro: converse_rtranclp_into_rtranclp)
qed simp

section \<open>Association lists\<close>

text \<open>
  Go maps whose contents the code ranges over are association lists with distinct
  keys, so that the loops evaluate; the order of the list is the order in which
  \<open>range\<close> happens to visit the map.
\<close>

abbreviation wf_alist :: "('k \<times> 'v) list \<Rightarrow> bool" where
  "wf_alist m \<equiv> distinct (map fst m)"

lemma map_of_update [simp]: "map_of (AList.update k v m) = (map_of m)(k \<mapsto> v)"
  by (simp add: update_conv')

lemma map_of_delete [simp]: "map_of (AList.delete k m) = (map_of m)(k := None)"
  by (simp add: delete_conv')

lemma wf_update: "wf_alist m \<Longrightarrow> wf_alist (AList.update k v m)"
  by (rule distinct_update)

lemma wf_delete: "wf_alist m \<Longrightarrow> wf_alist (AList.delete k m)"
  by (rule distinct_delete)

lemma set_alist_map_of: "wf_alist m \<Longrightarrow> (k, v) \<in> set m \<longleftrightarrow> map_of m k = Some v"
  by auto

lemma map_of_eq_None: "map_of m k = None \<longleftrightarrow> k \<notin> fst ` set m"
  by (rule map_of_eq_None_iff)

lemma map_eq_combine:
  assumes "map f xs = map f ys" "map g xs = map g ys"
    and "\<And>x y. f x = f y \<Longrightarrow> g x = g y \<Longrightarrow> h x = h y"
  shows "map h xs = map h ys"
proof -
  have "length xs = length ys" using assms(1) by (rule map_eq_imp_length_eq)
  moreover have "h (xs ! i) = h (ys ! i)" if "i < length xs" for i
    using assms(3) [of "xs ! i" "ys ! i"] arg_cong [OF assms(1), of "\<lambda>l. l ! i"]
      arg_cong [OF assms(2), of "\<lambda>l. l ! i"] that calculation by simp
  ultimately show ?thesis by (simp add: list_eq_iff_nth_eq)
qed

end
