(* ===== verification/Float64.thy ===== *)
theory Float64
  imports Prelude Complex_Main "HOL-Library.Log_Nat"
begin

text \<open>
  Go's \<open>float64\<close>: IEEE 754 binary64 with rounding to nearest, ties to even, the
  arithmetic an amd64 build performs one operation at a time (the language lets a
  compiler fuse a multiplication and an addition; the amd64 default does not).

  A finite value is the rational number it denotes, so the two zeros are one value
  here: the code compares floats, and divides only by floats that are not zero, so
  nothing it computes tells them apart. Rounding is executable, and the section on
  rounding proves what the components use: it is monotone, and exact on every number
  with a 53-bit significand.
\<close>

section \<open>Rounding to a 53-bit significand\<close>

text \<open>The exponent of the leading bit of \<open>q > 0\<close>: \<open>2 powi ilog2 q \<le> q < 2 powi (ilog2 q + 1)\<close>.\<close>

definition ilog2 :: "rat \<Rightarrow> int" where
  "ilog2 q = (if 1 \<le> q then bitlen \<lfloor>q\<rfloor> - 1 else - bitlen (\<lceil>1 / q\<rceil> - 1))"

definition ulp_exp :: "rat \<Rightarrow> int" where
  "ulp_exp q = max (ilog2 q - 52) (-1074)"

text \<open>Round to the nearest integer, ties to the even one.\<close>

definition round_half_even :: "rat \<Rightarrow> int" where
  "round_half_even x =
     (let f = \<lfloor>x\<rfloor>; r = x - of_int f
      in if r < 1 / 2 then f else if 1 / 2 < r then f + 1
         else if even f then f else f + 1)"

text \<open>The nearest number with a 53-bit significand, before the overflow check.\<close>

definition rnd_pos :: "rat \<Rightarrow> rat" where
  "rnd_pos q = of_int (round_half_even (q / 2 powi ulp_exp q)) * 2 powi ulp_exp q"

definition rnd :: "rat \<Rightarrow> rat" where
  "rnd q = (if q = 0 then 0 else if 0 < q then rnd_pos q else - rnd_pos (- q))"

lemma rhe_int [simp]: "round_half_even (of_int m) = m"
  by (simp add: round_half_even_def)

lemma rhe_mono: "x \<le> y \<Longrightarrow> round_half_even x \<le> round_half_even y"
proof -
  assume le: "x \<le> y"
  show ?thesis
  proof (cases "\<lfloor>x\<rfloor> = \<lfloor>y\<rfloor>")
    case True
    with le show ?thesis by (auto simp: round_half_even_def Let_def)
  next
    case False
    with floor_mono [OF le] have "\<lfloor>x\<rfloor> + 1 \<le> \<lfloor>y\<rfloor>" by simp
    then show ?thesis by (auto simp: round_half_even_def Let_def)
  qed
qed

lemma rhe_le_int: "x \<le> of_int m \<Longrightarrow> round_half_even x \<le> m"
  using rhe_mono [of x "of_int m"] by simp

lemma rhe_ge_int: "of_int m \<le> x \<Longrightarrow> m \<le> round_half_even x"
  using rhe_mono [of "of_int m" x] by simp

lemma powi_of_int: "0 \<le> k \<Longrightarrow> (2::rat) powi k = of_int (2 ^ nat k)"
  by (simp add: power_int_def)

lemma powi_mono: "k \<le> l \<Longrightarrow> (2::rat) powi k \<le> 2 powi l"
  by (rule power_int_increasing) auto

lemma powi_less_iff [simp]: "(2::rat) powi k < 2 powi l \<longleftrightarrow> k < l"
  by (meson less_le_not_le linorder_not_le one_less_numeral_iff power_int_strict_increasing powi_mono semiring_norm(76))

lemma powi_pos [simp]: "0 < (2::rat) powi k"
  by simp

lemma powi_split: "(2::rat) powi (k + l) = 2 powi k * 2 powi l"
  by (simp add: power_int_add)

text \<open>A quotient of two powers of two is an integer when the exponents are in order.\<close>

lemma powi_quot_int: "l \<le> k \<Longrightarrow> \<exists>m. (2::rat) powi k / 2 powi l = of_int m \<and> 0 < m"
  using powi_of_int [of "k - l"]
  by (intro exI [of _ "2 ^ nat (k - l)"]) (simp add: power_int_diff del: of_int_power)

lemma bitlen_pos_bounds:
  assumes "0 < n"
  shows "(2::rat) powi (bitlen n - 1) \<le> of_int n" and "of_int n < (2::rat) powi bitlen n"
proof -
  have b: "2 ^ nat (bitlen n - 1) \<le> n \<and> n < 2 ^ nat (bitlen n)"
    using bitlen_bounds [OF assms] .
  have p: "0 < bitlen n"
    using assms bitlen_nonneg [of n] bitlen_eq_zero_iff [of n] by linarith
  from b have "of_int (2 ^ nat (bitlen n - 1)) \<le> (of_int n :: rat)" by (simp only: of_int_le_iff)
  then show "(2::rat) powi (bitlen n - 1) \<le> of_int n"
    using p powi_of_int [of "bitlen n - 1"] by simp
  from b have "(of_int n :: rat) < of_int (2 ^ nat (bitlen n))" by (simp only: of_int_less_iff)
  then show "of_int n < (2::rat) powi bitlen n"
    using p powi_of_int [of "bitlen n"] by simp
qed

lemma ilog2_ge1:
  assumes "1 \<le> q"
  shows "2 powi ilog2 q \<le> q" and "q < 2 powi (ilog2 q + 1)"
proof -
  let ?n = "\<lfloor>q\<rfloor>"
  have n: "0 < ?n" using assms by simp
  have e: "ilog2 q = bitlen ?n - 1" using assms by (simp add: ilog2_def)
  have "of_int ?n \<le> q" by simp
  with bitlen_pos_bounds(1) [OF n] show "2 powi ilog2 q \<le> q" unfolding e by linarith
  have "?n + 1 \<le> 2 ^ nat (bitlen ?n)" using bitlen_bounds [OF n] by linarith
  then have "of_int (?n + 1) \<le> (2::rat) powi bitlen ?n"
    unfolding powi_of_int [OF bitlen_nonneg] by (simp only: of_int_le_iff)
  moreover have "q < of_int (?n + 1)" using floor_correct [of q] by simp
  ultimately show "q < 2 powi (ilog2 q + 1)" unfolding e by simp
qed

lemma ilog2_lt1:
  assumes "0 < q" and "q < 1"
  shows "2 powi ilog2 q \<le> q" and "q < 2 powi (ilog2 q + 1)"
proof -
  let ?c = "\<lceil>1 / q\<rceil>" and ?m = "bitlen (\<lceil>1 / q\<rceil> - 1)"
  have q1: "1 < 1 / q" using assms by simp
  then have c: "0 < ?c - 1" by (simp add: less_ceiling_iff)
  have e: "ilog2 q = - ?m" using assms by (simp add: ilog2_def)
  have "?c \<le> 2 ^ nat ?m" using bitlen_bounds [OF c] by linarith
  then have "of_int ?c \<le> (2::rat) powi ?m"
    unfolding powi_of_int [OF bitlen_nonneg] by (simp only: of_int_le_iff)
  moreover have "1 / q \<le> of_int ?c" by simp
  ultimately have "1 / q \<le> 2 powi ?m" by linarith
  then show "2 powi ilog2 q \<le> q"
    unfolding e using assms by (simp add: power_int_minus field_simps)
  have "(2::rat) powi (?m - 1) \<le> of_int (?c - 1)" using bitlen_pos_bounds(1) [OF c] .
  also have "of_int (?c - 1) < 1 / q" using ceiling_correct [of "1 / q"] by simp
  finally have "(2::rat) powi (?m - 1) < 1 / q" .
  then have "q < inverse (2 powi (?m - 1))"
    using assms by (simp add: field_simps)
  then show "q < 2 powi (ilog2 q + 1)"
    unfolding e using power_int_minus [of "2::rat" "?m - 1"] by (simp add: algebra_simps)
qed

lemma ilog2_bounds:
  assumes "0 < q"
  shows "2 powi ilog2 q \<le> q" and "q < 2 powi (ilog2 q + 1)"
  using assms ilog2_ge1 [of q] ilog2_lt1 [of q] by (cases "1 \<le> q"; simp)+

lemma ilog2_mono: "0 < x \<Longrightarrow> x \<le> y \<Longrightarrow> ilog2 x \<le> ilog2 y"
proof -
  assume "0 < x" "x \<le> y"
  then have "(2::rat) powi ilog2 x < 2 powi (ilog2 y + 1)"
    using ilog2_bounds(1) [of x] ilog2_bounds(2) [of y] by linarith
  then show ?thesis by simp
qed

lemma ulp_exp_mono: "0 < x \<Longrightarrow> x \<le> y \<Longrightarrow> ulp_exp x \<le> ulp_exp y"
  using ilog2_mono by (force simp: ulp_exp_def)

text \<open>
  Rounding a number at or below (above) a power of two that the coarser grid contains
  does not cross it, which carries monotonicity over the steps between binades.
\<close>

lemma rnd_pos_le_powi:
  assumes "0 < x" "x \<le> 2 powi k" "ulp_exp x \<le> k"
  shows "rnd_pos x \<le> 2 powi k"
proof -
  obtain m where m: "(2::rat) powi k / 2 powi ulp_exp x = of_int m"
    using powi_quot_int [OF assms(3)] by blast
  have "x / 2 powi ulp_exp x \<le> of_int m"
    using assms(2) by (simp add: m [symmetric] divide_right_mono)
  then have "of_int (round_half_even (x / 2 powi ulp_exp x)) \<le> (of_int m :: rat)"
    using rhe_le_int of_int_le_iff by blast
  then show ?thesis by (simp add: rnd_pos_def m [symmetric] pos_le_divide_eq)
qed

lemma rnd_pos_ge_powi:
  assumes "0 < x" "2 powi k \<le> x" "ulp_exp x \<le> k"
  shows "2 powi k \<le> rnd_pos x"
proof -
  obtain m where m: "(2::rat) powi k / 2 powi ulp_exp x = of_int m"
    using powi_quot_int [OF assms(3)] by blast
  have "of_int m \<le> x / 2 powi ulp_exp x"
    using assms(2) by (simp add: m [symmetric] divide_right_mono)
  then have "of_int m \<le> (of_int (round_half_even (x / 2 powi ulp_exp x)) :: rat)"
    using rhe_ge_int of_int_le_iff by blast
  then show ?thesis by (simp add: rnd_pos_def m [symmetric] pos_divide_le_eq)
qed

lemma rnd_pos_mono:
  assumes "0 < x" and "x \<le> y"
  shows "rnd_pos x \<le> rnd_pos y"
proof (cases "ulp_exp x = ulp_exp y")
  case True
  have "round_half_even (x / 2 powi ulp_exp y) \<le> round_half_even (y / 2 powi ulp_exp y)"
    using assms by (intro rhe_mono divide_right_mono) auto
  then show ?thesis by (simp add: rnd_pos_def True)
next
  case False
  then have lt: "ulp_exp x < ulp_exp y" using ulp_exp_mono [OF assms] by simp
  then have e: "ulp_exp y = ilog2 y - 52" and il: "ilog2 x + 1 \<le> ilog2 y"
    by (auto simp: ulp_exp_def split: if_splits)
  have "x \<le> 2 powi ilog2 y"
    using ilog2_bounds(2) [OF assms(1)] powi_mono [OF il] by linarith
  then have "rnd_pos x \<le> 2 powi ilog2 y"
    using assms(1) lt e by (intro rnd_pos_le_powi) auto
  also have "\<dots> \<le> rnd_pos y"
    using assms e ilog2_bounds(1) [of y] by (intro rnd_pos_ge_powi) auto
  finally show ?thesis .
qed

lemma rnd_pos_nonneg: "0 < x \<Longrightarrow> 0 \<le> rnd_pos x"
  by (simp add: rnd_pos_def rhe_ge_int [of 0, simplified])

lemma rnd_zero [simp]: "rnd 0 = 0"
  by (simp add: rnd_def)

lemma rnd_minus: "rnd (- q) = - rnd q"
  by (simp add: rnd_def)

lemma rnd_mono: "x \<le> y \<Longrightarrow> rnd x \<le> rnd y"
  using rnd_pos_mono [of x y] rnd_pos_mono [of "- y" "- x"]
    rnd_pos_nonneg [of y] rnd_pos_nonneg [of "- x"]
  by (auto simp: rnd_def)

text \<open>The numbers a finite \<open>float64\<close> denotes, up to the overflow threshold.\<close>

definition repr53 :: "rat \<Rightarrow> bool" where
  "repr53 r \<longleftrightarrow> (\<exists>m e. r = of_int m * 2 powi e \<and> \<bar>m\<bar> < 2 ^ 53 \<and> -1074 \<le> e)"

lemma repr53_int: "\<bar>m\<bar> < 2 ^ 53 \<Longrightarrow> repr53 (of_int m)"
  unfolding repr53_def by (rule exI [of _ m], rule exI [of _ 0]) simp

lemma repr53_minus: "repr53 r \<Longrightarrow> repr53 (- r)"
proof -
  assume "repr53 r"
  then obtain m e where "r = of_int m * 2 powi e" "\<bar>m\<bar> < 2 ^ 53" "-1074 \<le> e"
    by (auto simp: repr53_def)
  then show ?thesis
    unfolding repr53_def by (intro exI [of _ "- m"] exI [of _ e]) simp
qed

lemma rnd_pos_repr:
  assumes "0 < r" and "repr53 r"
  shows "rnd_pos r = r"
proof -
  obtain m e where r: "r = of_int m * 2 powi e" and m: "\<bar>m\<bar> < 2 ^ 53" and e: "-1074 \<le> e"
    using assms(2) by (auto simp: repr53_def)
  have "of_int m < (of_int (2 ^ 53) :: rat)" using m by (simp only: of_int_less_iff)
  then have "r < 2 powi (53 + e)"
    unfolding r powi_split using powi_of_int [of 53] by (intro mult_strict_right_mono) auto
  then have "(2::rat) powi ilog2 r < 2 powi (53 + e)"
    using ilog2_bounds(1) [OF assms(1)] by linarith
  then have "ulp_exp r \<le> e" using e by (auto simp: ulp_exp_def)
  define u :: rat where "u = 2 powi ulp_exp r"
  have u: "0 < u" by (simp add: u_def)
  from powi_quot_int [OF \<open>ulp_exp r \<le> e\<close>] obtain k where "2 powi e / u = of_int k"
    by (auto simp: u_def)
  then have k: "2 powi e = of_int k * u" using u by (simp add: field_simps)
  have "r / u = of_int (m * k)"
    using u by (simp add: r k)
  then have "round_half_even (r / u) = m * k" by (simp only: rhe_int)
  then have "rnd_pos r = of_int m * (of_int k * u)" by (simp add: rnd_pos_def u_def)
  then show ?thesis by (simp add: r k)
qed

lemma rnd_repr: "repr53 r \<Longrightarrow> rnd r = r"
  using rnd_pos_repr [of r] rnd_pos_repr [of "- r"] by (auto simp: rnd_def repr53_minus)

lemma rnd_int: "\<bar>m\<bar> < 2 ^ 53 \<Longrightarrow> rnd (of_int m) = of_int m"
  by (rule rnd_repr [OF repr53_int])

lemma rnd_le_int: "x \<le> of_int m \<Longrightarrow> \<bar>m\<bar> < 2 ^ 53 \<Longrightarrow> rnd x \<le> of_int m"
  using rnd_mono [of x "of_int m"] rnd_int [of m] by simp

lemma rnd_ge_int: "of_int m \<le> x \<Longrightarrow> \<bar>m\<bar> < 2 ^ 53 \<Longrightarrow> of_int m \<le> rnd x"
  using rnd_mono [of "of_int m" x] rnd_int [of m] by simp

section \<open>Values and operations\<close>

datatype f64 = FNaN | FInf bool | Fin rat

text \<open>\<^term>\<open>FInf True\<close> is the negative infinity. Rounding overflows to an infinity.\<close>

definition f64_round :: "rat \<Rightarrow> f64" where
  "f64_round q = (let r = rnd q in if 2 ^ 1024 \<le> \<bar>r\<bar> then FInf (r < 0) else Fin r)"

definition f64_of_int :: "int \<Rightarrow> f64" where
  "f64_of_int n = f64_round (of_int n)"

fun f64_add :: "f64 \<Rightarrow> f64 \<Rightarrow> f64" where
  "f64_add (Fin a) (Fin b) = f64_round (a + b)"
| "f64_add (FInf s) (Fin _) = FInf s"
| "f64_add (Fin _) (FInf s) = FInf s"
| "f64_add (FInf s) (FInf t) = (if s = t then FInf s else FNaN)"
| "f64_add _ _ = FNaN"

fun f64_mul :: "f64 \<Rightarrow> f64 \<Rightarrow> f64" where
  "f64_mul (Fin a) (Fin b) = f64_round (a * b)"
| "f64_mul (FInf s) (Fin b) = (if b = 0 then FNaN else FInf (s \<noteq> (b < 0)))"
| "f64_mul (Fin a) (FInf s) = (if a = 0 then FNaN else FInf (s \<noteq> (a < 0)))"
| "f64_mul (FInf s) (FInf t) = FInf (s \<noteq> t)"
| "f64_mul _ _ = FNaN"

text \<open>Division; a zero divisor counts as the positive zero.\<close>

fun f64_div :: "f64 \<Rightarrow> f64 \<Rightarrow> f64" where
  "f64_div (Fin a) (Fin b) =
     (if b = 0 then if a = 0 then FNaN else FInf (a < 0) else f64_round (a / b))"
| "f64_div (FInf s) (Fin b) = FInf (s \<noteq> (b < 0))"
| "f64_div (Fin _) (FInf _) = Fin 0"
| "f64_div (FInf _) (FInf _) = FNaN"
| "f64_div _ _ = FNaN"

text \<open>Go's comparisons: false on NaN, except \<open>!=\<close>.\<close>

fun f64_lt :: "f64 \<Rightarrow> f64 \<Rightarrow> bool" where
  "f64_lt (Fin a) (Fin b) = (a < b)"
| "f64_lt (FInf s) (Fin _) = s"
| "f64_lt (Fin _) (FInf t) = (\<not> t)"
| "f64_lt (FInf s) (FInf t) = (s \<and> \<not> t)"
| "f64_lt _ _ = False"

abbreviation f64_gt :: "f64 \<Rightarrow> f64 \<Rightarrow> bool" where
  "f64_gt a b \<equiv> f64_lt b a"

definition f64_eq :: "f64 \<Rightarrow> f64 \<Rightarrow> bool" where
  "f64_eq a b \<longleftrightarrow> a = b \<and> a \<noteq> FNaN"

text \<open>\<open>math.Round\<close>: to the nearest integer, halves away from zero. Exact.\<close>

fun math_Round :: "f64 \<Rightarrow> f64" where
  "math_Round (Fin q) = Fin (of_int (if 0 \<le> q then \<lfloor>q + 1 / 2\<rfloor> else - \<lfloor>- q + 1 / 2\<rfloor>))"
| "math_Round x = x"

fun math_Min :: "f64 \<Rightarrow> f64 \<Rightarrow> f64" where
  "math_Min (FInf True) _ = FInf True"
| "math_Min _ (FInf True) = FInf True"
| "math_Min FNaN _ = FNaN"
| "math_Min _ FNaN = FNaN"
| "math_Min x y = (if f64_lt x y then x else y)"

text \<open>\<open>math.Pow(10, p)\<close>; a power of ten up to \<open>10 ^ 22\<close> is a \<open>float64\<close>.\<close>

definition math_Pow10 :: "int \<Rightarrow> f64" where
  "math_Pow10 p = f64_round (10 powi p)"

definition is_finite :: "f64 \<Rightarrow> bool" where
  "is_finite x \<longleftrightarrow> (case x of Fin _ \<Rightarrow> True | _ \<Rightarrow> False)"

text \<open>
  The library order on \<^typ>\<open>f64\<close> puts NaN below the negative infinity; away from
  NaN it is Go's order.
\<close>

fun f64_le :: "f64 \<Rightarrow> f64 \<Rightarrow> bool" where
  "f64_le FNaN _ = True"
| "f64_le _ FNaN = False"
| "f64_le (FInf s) (FInf t) = (s \<or> \<not> t)"
| "f64_le (FInf s) (Fin _) = s"
| "f64_le (Fin _) (FInf t) = (\<not> t)"
| "f64_le (Fin a) (Fin b) = (a \<le> b)"

instantiation f64 :: linorder
begin

definition less_eq_f64 :: "f64 \<Rightarrow> f64 \<Rightarrow> bool" where
  "x \<le> y \<longleftrightarrow> f64_le x y"

definition less_f64 :: "f64 \<Rightarrow> f64 \<Rightarrow> bool" where
  "(x::f64) < y \<longleftrightarrow> x \<le> y \<and> \<not> y \<le> x"

instance
proof
  fix x y z :: f64
  show "x \<le> x" by (cases x) (auto simp: less_eq_f64_def)
  show "x \<le> y \<Longrightarrow> y \<le> z \<Longrightarrow> x \<le> z"
    by (cases x; cases y; cases z) (auto simp: less_eq_f64_def)
  show "x \<le> y \<Longrightarrow> y \<le> x \<Longrightarrow> x = y" by (cases x; cases y) (auto simp: less_eq_f64_def)
  show "x \<le> y \<or> y \<le> x" by (cases x; cases y) (auto simp: less_eq_f64_def)
qed (simp add: less_f64_def)

end

lemma Fin_le_iff [simp]: "Fin a \<le> Fin b \<longleftrightarrow> a \<le> b"
  by (simp add: less_eq_f64_def)

lemma Fin_less_iff [simp]: "Fin a < Fin b \<longleftrightarrow> a < b"
  by (auto simp: less_f64_def)

lemma f64_lt_iff: "a \<noteq> FNaN \<Longrightarrow> f64_lt a b \<longleftrightarrow> a < b"
  by (cases a; cases b) (auto simp: less_f64_def less_eq_f64_def)

lemma f64_round_mono: "x \<le> y \<Longrightarrow> f64_round x \<le> f64_round y"
  using rnd_mono [of x y] by (auto simp: f64_round_def Let_def less_eq_f64_def)

lemma f64_round_fin: "\<bar>rnd q\<bar> < 2 ^ 1024 \<Longrightarrow> f64_round q = Fin (rnd q)"
  by (auto simp: f64_round_def Let_def)

lemma f64_round_eval: "rnd q = r \<Longrightarrow> \<bar>r\<bar> < 2 ^ 1024 \<Longrightarrow> f64_round q = Fin r"
  using f64_round_fin by blast

lemma pow2_1024: "(2::rat) ^ 53 < 2 ^ 1024"
  by (rule power_strict_increasing) auto

lemma f64_round_int [simp]: "\<bar>m\<bar> < 2 ^ 53 \<Longrightarrow> f64_round (of_int m) = Fin (of_int m)"
proof -
  assume m: "\<bar>m\<bar> < 2 ^ 53"
  then have "\<bar>of_int m :: rat\<bar> < 2 ^ 53" by (metis of_int_abs of_int_less_iff of_int_numeral of_int_power)
  then show ?thesis using pow2_1024 m by (simp add: f64_round_fin rnd_int)
qed

lemma f64_round_int_bounds:
  "of_int a \<le> q \<Longrightarrow> \<bar>a\<bar> < 2 ^ 53 \<Longrightarrow> Fin (of_int a) \<le> f64_round q"
  "q \<le> of_int b \<Longrightarrow> \<bar>b\<bar> < 2 ^ 53 \<Longrightarrow> f64_round q \<le> Fin (of_int b)"
  using f64_round_mono [of "of_int a" q] f64_round_mono [of q "of_int b"] by simp_all

text \<open>Between two finite values lie only finite values.\<close>

lemma f64_between:
  assumes "Fin a \<le> x" and "x \<le> Fin b"
  obtains q where "x = Fin q" "a \<le> q" "q \<le> b"
  using assms by (cases x) (auto simp: less_eq_f64_def)

text \<open>The operations are monotone on non-negative finite values.\<close>

lemma f64_add_mono:
  assumes "Fin 0 \<le> a" "a \<le> a'" "a' \<le> Fin u" "Fin 0 \<le> b" "b \<le> b'" "b' \<le> Fin v"
  shows "f64_add a b \<le> f64_add a' b'"
proof -
  obtain x' where x': "a' = Fin x'" using assms f64_between [of 0 a' u] by (meson order_trans)
  obtain x where x: "a = Fin x" "x \<le> x'" using assms(1,2) x' f64_between [of 0 a x'] by auto
  obtain y' where y': "b' = Fin y'" using assms f64_between [of 0 b' v] by (meson order_trans)
  obtain y where y: "b = Fin y" "y \<le> y'" using assms(4,5) y' f64_between [of 0 b y'] by auto
  show ?thesis using x y x' y' by (auto intro: f64_round_mono)
qed

lemma f64_mul_mono:
  assumes "Fin 0 \<le> a" "a \<le> a'" "a' \<le> Fin u" "Fin 0 \<le> b" "b \<le> b'" "b' \<le> Fin v"
  shows "f64_mul a b \<le> f64_mul a' b'"
proof -
  obtain x' where x': "a' = Fin x'" using assms f64_between [of 0 a' u] by (meson order_trans)
  obtain x where x: "a = Fin x" "0 \<le> x" "x \<le> x'" using assms(1,2) x' f64_between [of 0 a x'] by auto
  obtain y' where y': "b' = Fin y'" using assms f64_between [of 0 b' v] by (meson order_trans)
  obtain y where y: "b = Fin y" "0 \<le> y" "y \<le> y'" using assms(4,5) y' f64_between [of 0 b y'] by auto
  show ?thesis using x y x' y' by (auto intro!: f64_round_mono mult_mono)
qed

lemma f64_div_mono:
  assumes "Fin 0 \<le> a" "a \<le> a'" "a' \<le> Fin u" "Fin 1 \<le> b'" "b' \<le> b" "b \<le> Fin v"
  shows "f64_div a b \<le> f64_div a' b'"
proof -
  obtain x' where x': "a' = Fin x'" using assms f64_between [of 0 a' u] by (meson order_trans)
  obtain x where x: "a = Fin x" "0 \<le> x" "x \<le> x'" using assms(1,2) x' f64_between [of 0 a x'] by auto
  obtain y where y: "b = Fin y" using assms f64_between [of 1 b v] by (meson order_trans)
  obtain y' where y': "b' = Fin y'" "1 \<le> y'" "y' \<le> y" using assms(4,5) y f64_between [of 1 b' y] by auto
  show ?thesis using x y x' y' by (auto intro!: f64_round_mono frac_le)
qed

lemma f64_of_int_mono: "m \<le> n \<Longrightarrow> f64_of_int m \<le> f64_of_int n"
  by (simp add: f64_of_int_def f64_round_mono)

lemma f64_of_int_pos: "1 \<le> n \<Longrightarrow> Fin 1 \<le> f64_of_int n"
  using f64_of_int_mono [of 1 n] f64_round_int [of 1] by (simp add: f64_of_int_def)

lemma rnd_pow2: "0 \<le> k \<Longrightarrow> rnd (2 powi k) = 2 powi k"
  by (rule rnd_repr) (simp add: repr53_def, intro exI [of _ 1] exI [of _ k], simp)

lemma f64_of_int64_bound: "n < 2 ^ 63 \<Longrightarrow> f64_of_int n \<le> Fin (2 ^ 63)"
proof -
  assume "n < 2 ^ 63"
  then have "f64_of_int n \<le> f64_of_int (2 ^ 63)" by (intro f64_of_int_mono) simp
  also have "f64_of_int (2 ^ 63) = f64_round (2 powi 63)" by (simp add: f64_of_int_def)
  also have "\<dots> = Fin (2 ^ 63)"
    using rnd_pow2 [of 63] by (subst f64_round_fin) auto
  finally show ?thesis .
qed

lemma math_Round_mono:
  assumes "Fin 0 \<le> a" "a \<le> b" "b \<le> Fin v"
  shows "math_Round a \<le> math_Round b" and "Fin 0 \<le> math_Round a"
proof -
  obtain y where y: "b = Fin y" using assms f64_between [of 0 b v] by (meson order_trans)
  obtain x where x: "a = Fin x" "0 \<le> x" "x \<le> y" using assms(1,2) y f64_between [of 0 a y] by auto
  show "math_Round a \<le> math_Round b" using x y by (simp add: floor_mono)
  show "Fin 0 \<le> math_Round a" using x by simp
qed

lemma rhe_near:
  assumes "of_int m - 1 / 2 < x" and "x < of_int m + 1 / 2"
  shows "round_half_even x = m"
proof (cases "of_int m \<le> x")
  case True
  then have "\<lfloor>x\<rfloor> = m" using assms by (intro floor_unique) auto
  moreover from assms have "x - of_int m < 1 / 2" by linarith
  ultimately show ?thesis by (simp add: round_half_even_def)
next
  case False
  then have "\<lfloor>x\<rfloor> = m - 1" using assms by (intro floor_unique) auto
  moreover from assms have "1 / 2 < x - of_int (m - 1)" by simp
  ultimately show ?thesis by (simp add: round_half_even_def)
qed

text \<open>Evaluation in the kernel: the significand and the exponent certify a rounding.\<close>

lemma rnd_eval:
  assumes lo: "2 powi (e + 52) \<le> q" and hi: "q < 2 powi (e + 53)" and e: "-1074 \<le> e"
    and m: "of_int m - 1 / 2 < q / 2 powi e" "q / 2 powi e < of_int m + 1 / 2"
  shows "rnd q = of_int m * 2 powi e"
proof -
  have q: "0 < q" using lo by (rule less_le_trans [OF powi_pos])
  have "(2::rat) powi ilog2 q < 2 powi (e + 53)" "(2::rat) powi (e + 52) < 2 powi (ilog2 q + 1)"
    using ilog2_bounds [OF q] lo hi by linarith+
  then have "ulp_exp q = e" using e by (simp add: ulp_exp_def)
  moreover have "round_half_even (q / 2 powi e) = m" using m by (rule rhe_near)
  ultimately show ?thesis using q by (simp add: rnd_def rnd_pos_def)
qed

section \<open>Magnitudes\<close>

text \<open>Values bounded by a power of two: the operations keep them finite.\<close>

definition fbound :: "nat \<Rightarrow> f64 \<Rightarrow> bool" where
  "fbound k x \<longleftrightarrow> (\<exists>q. x = Fin q \<and> \<bar>q\<bar> \<le> 2 ^ k)"

lemma fbound_finite: "fbound k x \<Longrightarrow> is_finite x"
  by (auto simp: fbound_def is_finite_def)

lemma fbound_mono: "fbound j x \<Longrightarrow> j \<le> k \<Longrightarrow> fbound k x"
proof -
  assume "fbound j x" "j \<le> k"
  then obtain q where q: "x = Fin q" "\<bar>q\<bar> \<le> 2 ^ j" by (auto simp: fbound_def)
  have "(2::rat) ^ j \<le> 2 ^ k" using \<open>j \<le> k\<close> by (rule power_increasing) simp
  with q(2) have "\<bar>q\<bar> \<le> 2 ^ k" by (rule order_trans)
  with q(1) show ?thesis by (simp add: fbound_def)
qed

lemma rnd_abs_bound: "\<bar>q\<bar> \<le> 2 ^ k \<Longrightarrow> \<bar>rnd q\<bar> \<le> 2 ^ k"
  using rnd_mono [of q "2 ^ k"] rnd_mono [of "- (2 ^ k)" q] rnd_pow2 [of "int k"]
  by (auto simp: rnd_minus abs_le_iff)

lemma fbound_round: "\<bar>q\<bar> \<le> 2 ^ k \<Longrightarrow> k < 1024 \<Longrightarrow> fbound k (f64_round q)"
proof -
  assume q: "\<bar>q\<bar> \<le> 2 ^ k" and k: "k < 1024"
  have "(2::rat) ^ k < 2 ^ 1024" using k by (intro power_strict_increasing) auto
  with rnd_abs_bound [OF q] have "\<bar>rnd q\<bar> < 2 ^ 1024" by linarith
  then show ?thesis using rnd_abs_bound [OF q] by (simp add: fbound_def f64_round_fin)
qed

lemma fbound_mul: "fbound j x \<Longrightarrow> fbound k y \<Longrightarrow> j + k < 1024 \<Longrightarrow> fbound (j + k) (f64_mul x y)"
  by (auto simp: fbound_def [of j] fbound_def [of k] abs_mult power_add intro!: fbound_round mult_mono)

lemma fbound_div: "fbound j x \<Longrightarrow> 1 \<le> b \<Longrightarrow> j < 1024 \<Longrightarrow> fbound j (f64_div x (Fin b))"
proof -
  assume x: "fbound j x" and b: "1 \<le> b" and j: "j < 1024"
  then obtain q where q: "x = Fin q" "\<bar>q\<bar> \<le> 2 ^ j" by (auto simp: fbound_def)
  have "\<bar>q / b\<bar> \<le> 2 ^ j / 1" using b q unfolding abs_divide by (intro frac_le) auto
  then show ?thesis using b j q by (auto intro!: fbound_round)
qed

lemma fbound_Round: "fbound k x \<Longrightarrow> fbound k (math_Round x)"
proof -
  have le: "\<lfloor>q + 1 / 2\<rfloor> \<le> 2 ^ k" if "q \<le> 2 ^ k" for q :: rat
  proof -
    have "q + 1 / 2 < of_int (2 ^ k + 1)" using that by simp
    then have "\<lfloor>q + 1 / 2\<rfloor> < 2 ^ k + 1" by (simp only: floor_less_iff)
    then show ?thesis by simp
  qed
  assume "fbound k x"
  then obtain q where q: "x = Fin q" "\<bar>q\<bar> \<le> 2 ^ k" by (auto simp: fbound_def)
  have p: "\<bar>of_int \<lfloor>\<bar>q\<bar> + 1 / 2\<rfloor>\<bar> \<le> (of_int (2 ^ k) :: rat)"
    using le [of "\<bar>q\<bar>"] q(2) by (simp only: of_int_abs [symmetric] of_int_le_iff) simp
  show ?thesis
  proof (cases "0 \<le> q")
    case True
    then show ?thesis using p q by (simp add: fbound_def)
  next
    case False
    then show ?thesis using p q by (simp add: fbound_def)
  qed
qed

lemma fbound_of_int: "\<bar>n\<bar> \<le> 2 ^ 63 \<Longrightarrow> fbound 63 (f64_of_int n)"
proof -
  assume "\<bar>n\<bar> \<le> 2 ^ 63"
  then have "of_int \<bar>n\<bar> \<le> (of_int (2 ^ 63) :: rat)" by (simp only: of_int_le_iff)
  then show ?thesis unfolding f64_of_int_def by (intro fbound_round) simp_all
qed

lemma fbound_Min: "fbound k x \<Longrightarrow> fbound k y \<Longrightarrow> fbound k (math_Min x y)"
  by (auto simp: fbound_def)

lemma f64_round_overflow: "2 ^ 1024 \<le> q \<Longrightarrow> f64_round q = FInf False"
proof -
  assume "2 ^ 1024 \<le> q"
  from rnd_mono [OF this] have "2 ^ 1024 \<le> rnd q" using rnd_pow2 [of 1024] by simp
  moreover have "(0::rat) < 2 ^ 1024" by (rule zero_less_power) simp
  ultimately have "0 < rnd q" "2 ^ 1024 \<le> \<bar>rnd q\<bar>" by linarith+
  then show ?thesis by (simp add: f64_round_def Let_def)
qed

end
