(* ===== verification/Go_Strings.thy ===== *)
theory Go_Strings
  imports Prelude "HOL-Library.Char_ord"
begin

text \<open>
  The parts of \<open>strings\<close>, \<open>strconv\<close>, \<open>fmt\<close> and \<open>path/filepath\<close> that the services use.
  A Go string is its list of bytes, a \<^typ>\<open>string\<close>.
\<close>

section \<open>Prefixes and white space\<close>

definition HasPrefix :: "string \<Rightarrow> string \<Rightarrow> bool" where
  "HasPrefix s p \<longleftrightarrow> take (length p) s = p"

definition TrimPrefix :: "string \<Rightarrow> string \<Rightarrow> string" where
  "TrimPrefix s p = (if HasPrefix s p then drop (length p) s else s)"

lemma TrimPrefix_append [simp]: "TrimPrefix (p @ s) p = s"
  by (simp add: TrimPrefix_def HasPrefix_def)

text \<open>
  \<open>unicode.IsSpace\<close> as byte sequences: the six ASCII spaces and the UTF-8 encodings of
  the other white space characters.
\<close>

definition space_seqs :: "string list" where
  "space_seqs = map (map char_of)
     [[9], [10], [11], [12], [13], [32], [194, 133], [194, 160], [225, 154, 128 :: nat],
      [226, 128, 128], [226, 128, 129], [226, 128, 130], [226, 128, 131], [226, 128, 132],
      [226, 128, 133], [226, 128, 134], [226, 128, 135], [226, 128, 136], [226, 128, 137],
      [226, 128, 138], [226, 128, 168], [226, 128, 169], [226, 128, 175], [226, 129, 159],
      [227, 128, 128]]"

definition space_head :: "string list \<Rightarrow> string \<Rightarrow> string option" where
  "space_head seqs s = find (\<lambda>w. HasPrefix s w) seqs"

lemma space_head_SomeD:
  "space_head seqs s = Some w \<Longrightarrow> w \<in> set seqs \<and> HasPrefix s w"
  by (auto simp: space_head_def find_Some_iff)

text \<open>Strip white space from the front, a sequence at a time.\<close>

function trim_with :: "string list \<Rightarrow> string \<Rightarrow> string" where
  "trim_with seqs s =
     (case space_head seqs s of
        None \<Rightarrow> s
      | Some w \<Rightarrow> if w = [] \<or> s = [] then s else trim_with seqs (drop (length w) s))"
  by pat_completeness auto
termination
  by (relation "measure (length \<circ> snd)") auto

declare trim_with.simps [simp del]

definition TrimSpace :: "string \<Rightarrow> string" where
  "TrimSpace s = rev (trim_with (map rev space_seqs) (rev (trim_with space_seqs s)))"

text \<open>A string that begins and ends with visible ASCII characters has nothing to trim.\<close>

abbreviation visible :: "char \<Rightarrow> bool" where
  "visible c \<equiv> 33 \<le> (of_char c :: nat) \<and> (of_char c :: nat) < 128"

lemma space_seqs_not_visible:
  "w \<in> set space_seqs \<Longrightarrow> w \<noteq> [] \<and> \<not> visible (hd w) \<and> \<not> visible (last w)"
  by (auto simp: space_seqs_def)

lemma trim_with_id:
  assumes "s \<noteq> []" "\<And>w. w \<in> set seqs \<Longrightarrow> w \<noteq> [] \<and> hd w \<noteq> hd s"
  shows "trim_with seqs s = s"
proof -
  have "\<not> HasPrefix s w" if "w \<in> set seqs" for w
    using assms(2) [OF that] assms(1) by (cases w; cases s) (auto simp: HasPrefix_def)
  then have "space_head seqs s = None" by (auto simp: space_head_def find_None_iff)
  then show ?thesis by (subst trim_with.simps) simp
qed

lemma TrimSpace_visible:
  assumes "s \<noteq> []" "visible (hd s)" "visible (last s)"
  shows "TrimSpace s = s"
proof -
  have f: "trim_with space_seqs s = s"
    using assms space_seqs_not_visible by (intro trim_with_id) metis+
  have "trim_with (map rev space_seqs) (rev s) = rev s"
  proof (rule trim_with_id)
    show "rev s \<noteq> []" using assms(1) by simp
    fix w' assume "w' \<in> set (map rev space_seqs)"
    then obtain w where "w \<in> set space_seqs" "w' = rev w" by auto
    then show "w' \<noteq> [] \<and> hd w' \<noteq> hd (rev s)"
      using assms space_seqs_not_visible [of w] by (metis hd_rev rev_is_Nil_conv)
  qed
  with f show ?thesis by (simp add: TrimSpace_def)
qed

lemma trim_with_empty [simp]: "trim_with seqs [] = []"
  by (subst trim_with.simps) (auto split: option.split)

lemma TrimSpace_empty [simp]: "TrimSpace '''' = ''''"
  by (simp add: TrimSpace_def)

section \<open>Splitting and joining\<close>

fun split_on :: "char \<Rightarrow> string \<Rightarrow> string list" where
  "split_on c [] = [[]]"
| "split_on c (x # xs) =
     (if x = c then [] # split_on c xs
      else case split_on c xs of [] \<Rightarrow> [[x]] | y # ys \<Rightarrow> (x # y) # ys)"

fun join_with :: "string \<Rightarrow> string list \<Rightarrow> string" where
  "join_with sep [] = []"
| "join_with sep [x] = x"
| "join_with sep (x # xs) = x @ sep @ join_with sep xs"

lemma split_on_ne [simp]: "split_on c s \<noteq> []"
  by (induction s) (auto split: list.splits)

lemma length_split_on: "length (split_on c s) = Suc (count_list s c)"
  by (induction s) (auto split: list.splits)

lemma split_on_none: "c \<notin> set s \<Longrightarrow> split_on c s = [s]"
  by (induction s) auto

lemma split_on_append: "c \<notin> set s \<Longrightarrow> split_on c (s @ c # t) = s # split_on c t"
  by (induction s) auto

lemma join_split: "join_with [c] (split_on c s) = s"
proof (induction s)
  case (Cons x s)
  obtain y ys where "split_on c s = y # ys" by (cases "split_on c s") auto
  with Cons show ?case by (cases ys) auto
qed simp

section \<open>Numbers\<close>

definition digit_char :: "nat \<Rightarrow> char" where
  "digit_char d = ''0123456789abcdef'' ! d"

definition digit_val :: "char \<Rightarrow> nat option" where
  "digit_val c = (if c \<in> set ''0123456789'' then Some (of_char c - 48) else None)"

text \<open>The digits of a number, most significant first.\<close>

fun nat_digits :: "nat \<Rightarrow> nat \<Rightarrow> nat list" where
  "nat_digits b n = (if b \<le> 1 \<or> n < b then [n] else nat_digits b (n div b) @ [n mod b])"

declare nat_digits.simps [simp del]

text \<open>\<open>strconv.Itoa\<close>, \<open>strconv.FormatInt(n, 10)\<close> and the verb \<open>%d\<close>.\<close>

definition Itoa :: "int \<Rightarrow> string" where
  "Itoa n = (if n < 0 then ''-'' else '''') @ map digit_char (nat_digits 10 (nat \<bar>n\<bar>))"

text \<open>The verbs \<open>%02x\<close>, \<open>%08x\<close>, \<open>%04d\<close>, \<open>%02d\<close> on a non-negative number.\<close>

definition pad_zero :: "nat \<Rightarrow> string \<Rightarrow> string" where
  "pad_zero w s = replicate (w - length s) CHR ''0'' @ s"

definition fmt_hex :: "nat \<Rightarrow> nat \<Rightarrow> string" where
  "fmt_hex w n = pad_zero w (map digit_char (nat_digits 16 n))"

definition fmt_dec :: "nat \<Rightarrow> nat \<Rightarrow> string" where
  "fmt_dec w n = pad_zero w (map digit_char (nat_digits 10 n))"

text \<open>Reading decimal digits: the value of the longest prefix of digits, and the rest.\<close>

fun read_digits :: "nat \<Rightarrow> string \<Rightarrow> nat \<times> string" where
  "read_digits acc [] = (acc, [])"
| "read_digits acc (c # s) =
     (case digit_val c of None \<Rightarrow> (acc, c # s) | Some d \<Rightarrow> read_digits (10 * acc + d) s)"

lemma nat_digits_less: "1 < b \<Longrightarrow> d \<in> set (nat_digits b n) \<Longrightarrow> d < b"
proof (induction b n rule: nat_digits.induct)
  case (1 b n)
  then show ?case by (subst (asm) nat_digits.simps) (auto split: if_splits)
qed

lemma nat_digits_ne [simp]: "nat_digits b n \<noteq> []"
  by (subst nat_digits.simps) simp

lemma digit_val_char [simp]: "d < 10 \<Longrightarrow> digit_val (digit_char d) = Some d"
proof -
  assume "d < 10"
  then have "d \<in> {0, 1, 2, 3, 4, 5, 6, 7, 8, 9}" by auto
  then show ?thesis by (auto simp: digit_char_def digit_val_def)
qed

lemma digit_char_inj: "d < 16 \<Longrightarrow> e < 16 \<Longrightarrow> digit_char d = digit_char e \<Longrightarrow> d = e"
proof -
  assume "d < 16" "e < 16" "digit_char d = digit_char e"
  moreover have "distinct ''0123456789abcdef''" by simp
  ultimately show ?thesis
    unfolding digit_char_def by (subst (asm) nth_eq_iff_index_eq) auto
qed

definition digits_val :: "nat \<Rightarrow> nat list \<Rightarrow> nat" where
  "digits_val acc ds = foldl (\<lambda>a d. 10 * a + d) acc ds"

lemma digits_val_nat_digits: "digits_val 0 (nat_digits 10 n) = n"
proof (induction n rule: less_induct)
  case (less n)
  then show ?case by (subst nat_digits.simps) (auto simp: digits_val_def)
qed

lemma read_digits_chars:
  "\<forall>d \<in> set ds. d < 10 \<Longrightarrow> t = [] \<or> digit_val (hd t) = None \<Longrightarrow>
   read_digits acc (map digit_char ds @ t) = (digits_val acc ds, t)"
proof (induction ds arbitrary: acc)
  case Nil
  then show ?case by (cases t) (auto simp: digits_val_def)
next
  case (Cons d ds)
  then show ?case by (simp add: digits_val_def)
qed

lemma read_digits_Itoa:
  "t = [] \<or> digit_val (hd t) = None \<Longrightarrow>
   read_digits 0 (map digit_char (nat_digits 10 n) @ t) = (n, t)"
  using read_digits_chars [of "nat_digits 10 n" t 0] nat_digits_less [of 10 _ n]
  by (simp add: digits_val_nat_digits)

text \<open>\<open>strconv.Atoi\<close> on a 64-bit platform: an optional sign, then digits, within \<open>int64\<close>.\<close>

definition Atoi :: "string \<Rightarrow> int option" where
  "Atoi s =
     (let neg = HasPrefix s ''-'';
          ds = (if neg \<or> HasPrefix s ''+'' then tl s else s);
          v = (if neg then - int (fst (read_digits 0 ds)) else int (fst (read_digits 0 ds)))
      in if ds \<noteq> [] \<and> snd (read_digits 0 ds) = [] \<and> - (2 ^ 63) \<le> v \<and> v < 2 ^ 63
         then Some v else None)"

lemma digit_not_sign: "d < 10 \<Longrightarrow> digit_char d \<noteq> CHR ''-'' \<and> digit_char d \<noteq> CHR ''+''"
  using digit_val_char [of d] by (auto simp: digit_val_def)

lemma Atoi_Itoa: "Atoi (Itoa (int n)) = (if n < 2 ^ 63 then Some (int n) else None)"
proof -
  let ?ds = "map digit_char (nat_digits 10 n)"
  obtain d ds where e: "nat_digits 10 n = d # ds" by (cases "nat_digits 10 n") auto
  have "d < 10" using nat_digits_less [of 10 d n] e by simp
  then have "\<not> HasPrefix ?ds ''-''" "\<not> HasPrefix ?ds ''+''"
    using digit_not_sign by (auto simp: HasPrefix_def e)
  moreover have "int n < 2 ^ 63 \<longleftrightarrow> n < 2 ^ 63" by (metis of_nat_less_iff of_nat_numeral of_nat_power)
  ultimately show ?thesis
    using read_digits_Itoa [of "[]" n] by (simp add: Atoi_def Itoa_def Let_def)
qed

lemma Atoi_Itoa_nat: "n < 2 ^ 63 \<Longrightarrow> Atoi (Itoa (int n)) = Some (int n)"
  by (simp add: Atoi_Itoa)

end
