(* ===== verification/Go_Json.thy ===== *)
theory Go_Json
  imports Float64 Go_Strings
begin

text \<open>
  \<open>encoding/json\<close> as the telemetry ingester uses it: the grammar of RFC 8259, the
  unquoting of strings and the decoding of an object into a struct. A string is a list of
  bytes, as in Go. \<open>json.Unmarshal\<close> first checks the whole input, so a parser that
  builds a tree and a decoder that walks it are the same function.
\<close>

section \<open>Values\<close>

text \<open>A number keeps its literal, because Go decodes it by the type of the target.\<close>

datatype jval = VNull | VBool bool | VNum string | VStr string
  | VArr "jval list" | VObj "(string \<times> jval) list"

definition is_ws :: "char \<Rightarrow> bool" where
  "is_ws c \<longleftrightarrow> c = CHR '' '' \<or> c = CHR 0x09 \<or> c = CHR 0x0A \<or> c = CHR 0x0D"

definition skip_ws :: "string \<Rightarrow> string" where
  "skip_ws s = dropWhile is_ws s"

section \<open>UTF-8\<close>

text \<open>A code point as UTF-8 bytes, the surrogates and beyond as U+FFFD.\<close>

definition utf8_enc :: "nat \<Rightarrow> string" where
  "utf8_enc c = map char_of
     (if c < 128 then [c]
      else if c < 2048 then [192 + c div 64, 128 + c mod 64]
      else if 55296 \<le> c \<and> c < 57344 \<or> 1114112 \<le> c then [239, 191, 189]
      else if c < 65536 then [224 + c div 4096, 128 + c div 64 mod 64, 128 + c mod 64]
      else [240 + c div 262144, 128 + c div 4096 mod 64, 128 + c div 64 mod 64, 128 + c mod 64])"

abbreviation replacement :: string where
  "replacement \<equiv> utf8_enc 65533"

text \<open>The length of the valid multi-byte sequence at the head of a list of bytes.\<close>

fun utf8_len :: "nat list \<Rightarrow> nat option" where
  "utf8_len (a # b # bs) =
     (let cont = (\<lambda>x. 128 \<le> x \<and> x < (192 :: nat))
      in if 194 \<le> a \<and> a < 224 then (if cont b then Some 2 else None)
         else if 224 \<le> a \<and> a < 240 then
           (case bs of
              c # _ \<Rightarrow> if cont b \<and> cont c \<and> (a = 224 \<longrightarrow> 160 \<le> b) \<and> (a = 237 \<longrightarrow> b < 160)
                       then Some 3 else None
            | [] \<Rightarrow> None)
         else if 240 \<le> a \<and> a < 245 then
           (case bs of
              c # d # _ \<Rightarrow> if cont b \<and> cont c \<and> cont d \<and> (a = 240 \<longrightarrow> 144 \<le> b) \<and> (a = 244 \<longrightarrow> b < 144)
                           then Some 4 else None
            | _ \<Rightarrow> None)
         else None)"
| "utf8_len _ = None"

section \<open>Strings\<close>

definition hex_val :: "char \<Rightarrow> nat option" where
  "hex_val c =
     (let n = of_char c
      in if 48 \<le> n \<and> n < 58 then Some (n - 48)
         else if 97 \<le> n \<and> n < 103 then Some (n - 87)
         else if 65 \<le> n \<and> n < 71 then Some (n - 55) else None)"

fun hex4 :: "string \<Rightarrow> (nat \<times> string) option" where
  "hex4 (a # b # c # d # s) =
     (case (hex_val a, hex_val b, hex_val c, hex_val d) of
        (Some w, Some x, Some y, Some z) \<Rightarrow> Some (4096 * w + 256 * x + 16 * y + z, s)
      | _ \<Rightarrow> None)"
| "hex4 _ = None"

definition esc_val :: "char \<Rightarrow> char option" where
  "esc_val c = map_of
     [(CHR 0x22, CHR 0x22), (CHR 0x5C, CHR 0x5C), (CHR ''/'', CHR ''/''), (CHR ''b'', CHR 0x08),
      (CHR ''f'', CHR 0x0C), (CHR ''n'', CHR 0x0A), (CHR ''r'', CHR 0x0D), (CHR ''t'', CHR 0x09)] c"

text \<open>
  The rest of a string literal after its opening quote: the unquoted bytes and what
  follows the closing quote. Control characters are refused; bytes that are not UTF-8
  and lone surrogates become U+FFFD. The fuel is the length of the input.
\<close>

fun parse_str :: "nat \<Rightarrow> string \<Rightarrow> (string \<times> string) option" where
  "parse_str 0 _ = None"
| "parse_str _ [] = None"
| "parse_str (Suc n) (c # s) =
     (let emit = (\<lambda>out rest. map_option (\<lambda>(t, r). (out @ t, r)) (parse_str n rest))
      in if c = CHR 0x22 then Some ([], s)
         else if (of_char c :: nat) < 32 then None
         else if c = CHR 0x5C then
           (case s of
              [] \<Rightarrow> None
            | e # s1 \<Rightarrow>
                if e \<noteq> CHR ''u'' then
                  (case esc_val e of None \<Rightarrow> None | Some x \<Rightarrow> emit [x] s1)
                else (case hex4 s1 of
                    None \<Rightarrow> None
                  | Some (u, s2) \<Rightarrow>
                      (case (if take 2 s2 = [CHR 0x5C, CHR ''u''] then hex4 (drop 2 s2) else None) of
                         Some (v, s3) \<Rightarrow>
                           if 55296 \<le> u \<and> u < 56320 \<and> 56320 \<le> v \<and> v < 57344
                           then emit (utf8_enc (65536 + (u - 55296) * 1024 + (v - 56320))) s3
                           else emit (utf8_enc u) s2
                       | None \<Rightarrow> emit (utf8_enc u) s2)))
         else if (of_char c :: nat) < 128 then emit [c] s
         else (case utf8_len (map of_char (take 4 (c # s))) of
                 Some k \<Rightarrow> emit (take k (c # s)) (drop (k - 1) s)
               | None \<Rightarrow> emit replacement s))"

section \<open>Numbers\<close>

definition is_digit :: "char \<Rightarrow> bool" where
  "is_digit c \<longleftrightarrow> digit_val c \<noteq> None"

text \<open>The longest number literal at the head of the input, and the rest.\<close>

definition lex_int :: "string \<Rightarrow> (string \<times> string) option" where
  "lex_int s =
     (case s of
        [] \<Rightarrow> None
      | c # r \<Rightarrow> if c = CHR ''0'' then Some ([c], r)
                else if is_digit c then Some (takeWhile is_digit s, dropWhile is_digit s) else None)"

definition lex_frac :: "string \<Rightarrow> (string \<times> string) option" where
  "lex_frac s =
     (case s of
        c # r \<Rightarrow> if c = CHR ''.'' then
            (if takeWhile is_digit r = [] then None
             else Some (c # takeWhile is_digit r, dropWhile is_digit r))
          else Some ([], s)
      | [] \<Rightarrow> Some ([], s))"

definition lex_exp :: "string \<Rightarrow> (string \<times> string) option" where
  "lex_exp s =
     (case s of
        c # r \<Rightarrow> if c = CHR ''e'' \<or> c = CHR ''E'' then
            (let sg = (if HasPrefix r ''-'' \<or> HasPrefix r ''+'' then take 1 r else []);
                 ds = drop (length sg) r
             in if takeWhile is_digit ds = [] then None
                else Some (c # sg @ takeWhile is_digit ds, dropWhile is_digit ds))
          else Some ([], s)
      | [] \<Rightarrow> Some ([], s))"

definition lex_num :: "string \<Rightarrow> (string \<times> string) option" where
  "lex_num s =
     (let sg = (if HasPrefix s ''-'' then ''-'' else '''')
      in case lex_int (drop (length sg) s) of
           None \<Rightarrow> None
         | Some (i, s1) \<Rightarrow>
             (case lex_frac s1 of
                None \<Rightarrow> None
              | Some (f, s2) \<Rightarrow>
                  (case lex_exp s2 of
                     None \<Rightarrow> None
                   | Some (e, s3) \<Rightarrow> Some (sg @ i @ f @ e, s3))))"

text \<open>\<open>strconv.ParseInt(s, 10, 64)\<close> on a number literal: a fraction or exponent is an error.\<close>

definition ParseInt :: "string \<Rightarrow> int option" where
  "ParseInt s = Atoi s"

text \<open>The value of a number literal, and \<open>strconv.ParseFloat(s, 64)\<close>.\<close>

definition num_value :: "string \<Rightarrow> rat" where
  "num_value s =
     (let sg = (if HasPrefix s ''-'' then - 1 else 1);
          s0 = (if HasPrefix s ''-'' then tl s else s);
          (i, s1) = read_digits 0 s0;
          frac = (if HasPrefix s1 ''.'' then takeWhile is_digit (tl s1) else []);
          s2 = (if HasPrefix s1 ''.'' then dropWhile is_digit (tl s1) else s1);
          e = (if s2 = [] then 0 else
                let r = tl s2; ds = (if HasPrefix r ''-'' \<or> HasPrefix r ''+'' then tl r else r)
                in (if HasPrefix r ''-'' then - 1 else 1) * int (fst (read_digits 0 ds)))
      in sg * (of_nat i + of_nat (fst (read_digits 0 frac)) / 10 ^ length frac) * (10 powi e))"

definition ParseFloat :: "string \<Rightarrow> f64 option" where
  "ParseFloat s = (case f64_round (num_value s) of Fin q \<Rightarrow> Some (Fin q) | _ \<Rightarrow> None)"

section \<open>The parser\<close>

text \<open>
  Nesting beyond 10000 is an error. The fuel bounds the recursion; every second call
  consumes a byte, so that twice the length of the input is enough (\<open>parse_fuel\<close>).
\<close>

fun parse_lit :: "string \<Rightarrow> jval \<Rightarrow> string \<Rightarrow> (jval \<times> string) option" where
  "parse_lit w v s = (if HasPrefix s w then Some (v, drop (length w) s) else None)"

fun parse_value :: "nat \<Rightarrow> nat \<Rightarrow> string \<Rightarrow> (jval \<times> string) option"
  and parse_elems :: "nat \<Rightarrow> nat \<Rightarrow> string \<Rightarrow> (jval list \<times> string) option"
  and parse_members :: "nat \<Rightarrow> nat \<Rightarrow> string \<Rightarrow> ((string \<times> jval) list \<times> string) option" where
  "parse_value 0 d s = None"
| "parse_value (Suc n) d s =
     (case skip_ws s of
        [] \<Rightarrow> None
      | c # r \<Rightarrow>
          if c = CHR ''{'' then
            (if d = 0 then None
             else if HasPrefix (skip_ws r) ''}'' then Some (VObj [], tl (skip_ws r))
             else map_option (\<lambda>(m, t). (VObj m, t)) (parse_members n (d - 1) r))
          else if c = CHR ''['' then
            (if d = 0 then None
             else if HasPrefix (skip_ws r) '']'' then Some (VArr [], tl (skip_ws r))
             else map_option (\<lambda>(m, t). (VArr m, t)) (parse_elems n (d - 1) r))
          else if c = CHR 0x22 then map_option (\<lambda>(m, t). (VStr m, t)) (parse_str (length r) r)
          else if c = CHR ''t'' then parse_lit ''true'' (VBool True) (c # r)
          else if c = CHR ''f'' then parse_lit ''false'' (VBool False) (c # r)
          else if c = CHR ''n'' then parse_lit ''null'' VNull (c # r)
          else map_option (\<lambda>(m, t). (VNum m, t)) (lex_num (c # r)))"
| "parse_elems 0 d s = None"
| "parse_elems (Suc n) d s =
     (case parse_value n d s of
        None \<Rightarrow> None
      | Some (v, t) \<Rightarrow>
          (case skip_ws t of
             [] \<Rightarrow> None
           | c # r \<Rightarrow>
               if c = CHR '','' then map_option (\<lambda>(vs, u). (v # vs, u)) (parse_elems n d r)
               else if c = CHR '']'' then Some ([v], r) else None))"
| "parse_members 0 d s = None"
| "parse_members (Suc n) d s =
     (case skip_ws s of
        [] \<Rightarrow> None
      | q # s0 \<Rightarrow>
          if q \<noteq> CHR 0x22 then None
          else case parse_str (length s0) s0 of
            None \<Rightarrow> None
          | Some (k, s1) \<Rightarrow>
              (case skip_ws s1 of
                 [] \<Rightarrow> None
               | c # s2 \<Rightarrow>
                   if c \<noteq> CHR '':'' then None
                   else case parse_value n d s2 of
                     None \<Rightarrow> None
                   | Some (v, t) \<Rightarrow>
                       (case skip_ws t of
                          [] \<Rightarrow> None
                        | c # r \<Rightarrow>
                            if c = CHR '','' then
                              map_option (\<lambda>(vs, u). ((k, v) # vs, u)) (parse_members n d r)
                            else if c = CHR ''}'' then Some ([(k, v)], r) else None)))"

text \<open>A whole document: one value and nothing but white space after it.\<close>

definition json_parse :: "string \<Rightarrow> jval option" where
  "json_parse s =
     (case parse_value (2 * length s + 2) 10000 s of
        Some (v, r) \<Rightarrow> if skip_ws r = [] then Some v else None
      | None \<Rightarrow> None)"

section \<open>Decoding into a struct\<close>

text \<open>
  Field names match up to Unicode case folding; besides the ASCII letters only the long
  s (U+017F) and the Kelvin sign (U+212A) fold to ASCII.
\<close>

fun fold_key :: "string \<Rightarrow> string" where
  "fold_key s =
     (case s of
        [] \<Rightarrow> []
      | c # r \<Rightarrow>
          if take 2 s = map char_of [197, 191 :: nat] then CHR ''S'' # fold_key (drop 2 s)
          else if take 3 s = map char_of [226, 132, 170 :: nat] then CHR ''K'' # fold_key (drop 3 s)
          else (if 97 \<le> (of_char c :: nat) \<and> (of_char c :: nat) < 123
                then char_of (of_char c - 32 :: nat) else c) # fold_key r)"

declare fold_key.simps [simp del]

text \<open>
  The decoder of a field gives the new value of the struct, or an error when the value
  has the wrong type; \<open>null\<close> changes nothing. An exact match of the name wins over a
  folded one; unknown names are skipped. Decoding goes on after an error, the first one
  is reported at the end.
\<close>

type_synonym 's field_decoder = "jval \<Rightarrow> 's \<Rightarrow> 's result"

definition type_error :: gerr where
  "type_error = errors_New ''json: cannot unmarshal value into Go struct field''"

definition str_field :: "(string \<Rightarrow> 's \<Rightarrow> 's) \<Rightarrow> 's field_decoder" where
  "str_field upd v s = (case v of VNull \<Rightarrow> Inr s | VStr x \<Rightarrow> Inr (upd x s) | _ \<Rightarrow> Inl type_error)"

definition int_field :: "(int \<Rightarrow> 's \<Rightarrow> 's) \<Rightarrow> 's field_decoder" where
  "int_field upd v s =
     (case v of
        VNull \<Rightarrow> Inr s
      | VNum x \<Rightarrow> (case ParseInt x of None \<Rightarrow> Inl type_error | Some n \<Rightarrow> Inr (upd n s))
      | _ \<Rightarrow> Inl type_error)"

definition float_field :: "(f64 \<Rightarrow> 's \<Rightarrow> 's) \<Rightarrow> 's field_decoder" where
  "float_field upd v s =
     (case v of
        VNull \<Rightarrow> Inr s
      | VNum x \<Rightarrow> (case ParseFloat x of None \<Rightarrow> Inl type_error | Some q \<Rightarrow> Inr (upd q s))
      | _ \<Rightarrow> Inl type_error)"

definition find_field :: "(string \<times> 's field_decoder) list \<Rightarrow> string \<Rightarrow> 's field_decoder option" where
  "find_field fs k =
     (case map_of fs k of
        Some f \<Rightarrow> Some f
      | None \<Rightarrow> map_option snd (find (\<lambda>(name, _). fold_key name = fold_key k) fs))"

fun decode_members ::
  "(string \<times> 's field_decoder) list \<Rightarrow> (string \<times> jval) list \<Rightarrow> 's \<times> gerr option \<Rightarrow> 's \<times> gerr option" where
  "decode_members fs [] acc = acc"
| "decode_members fs ((k, v) # kvs) (s, e) =
     (case find_field fs k of
        None \<Rightarrow> decode_members fs kvs (s, e)
      | Some f \<Rightarrow>
          (case f v s of
             Inr s' \<Rightarrow> decode_members fs kvs (s', e)
           | Inl er \<Rightarrow> decode_members fs kvs (s, if e = None then Some er else e)))"

definition json_Unmarshal :: "(string \<times> 's field_decoder) list \<Rightarrow> string \<Rightarrow> 's \<Rightarrow> 's result" where
  "json_Unmarshal fs raw zero =
     (case json_parse raw of
        None \<Rightarrow> Inl (errors_New ''invalid character'')
      | Some VNull \<Rightarrow> Inr zero
      | Some (VObj kvs) \<Rightarrow>
          (case decode_members fs kvs (zero, None) of (s, None) \<Rightarrow> Inr s | (_, Some e) \<Rightarrow> Inl e)
      | Some _ \<Rightarrow> Inl type_error)"

section \<open>The fuel is enough\<close>

lemma length_skip_ws: "length (skip_ws s) \<le> length s"
  unfolding skip_ws_def by (rule length_dropWhile_le)

lemma hex4_len: "hex4 s = Some (u, r) \<Longrightarrow> length r < length s"
  by (cases s rule: hex4.cases) (auto split: option.splits)

lemma hex4_drop_len: "hex4 (drop k s) = Some (u, r) \<Longrightarrow> length r < length s"
  using hex4_len [of "drop k s" u r] by simp

lemma parse_str_len: "parse_str n s = Some (t, r) \<Longrightarrow> length r < length s"
proof (induction n arbitrary: s t r)
  case (Suc n)
  obtain c s' where s: "s = c # s'" using Suc.prems by (cases s) auto
  show ?case using Suc.prems unfolding s
    by (auto simp: Let_def s dest!: Suc.IH hex4_len hex4_drop_len
        split: if_splits list.splits option.splits prod.splits)
qed simp

lemma lex_num_len: "lex_num s = Some (t, r) \<Longrightarrow> length r < length s"
proof -
  have i: "length r < length s" if "lex_int s = Some (t, r)" for s t r
    using that by (auto simp: lex_int_def length_dropWhile_le less_Suc_eq_le split: list.splits if_splits)
  have f: "length r \<le> length s" if "lex_frac s = Some (t, r)" for s t r
    using that by (auto simp: lex_frac_def le_SucI length_dropWhile_le split: list.splits if_splits)
  have e: "length r \<le> length s" if "lex_exp s = Some (t, r)" for s t r
  proof -
    have d: "length (dropWhile is_digit (drop k u)) \<le> Suc (length u)" for k u
      by (rule le_trans [OF length_dropWhile_le]) simp
    note d [of 0, simplified]
    then show ?thesis using that by (auto simp: lex_exp_def Let_def d split: list.splits if_splits)
  qed
  assume "lex_num s = Some (t, r)"
  then show ?thesis
    by (auto simp: lex_num_def Let_def dest!: i f e split: option.splits if_splits prod.splits)
qed

lemma parse_lit_len: "parse_lit w v s = Some (x, r) \<Longrightarrow> w \<noteq> [] \<Longrightarrow> s \<noteq> [] \<Longrightarrow> length r < length s"
  by (auto split: if_splits)

lemma skip_ws_cons_len: "skip_ws s = c # r \<Longrightarrow> length r < length s"
  using length_skip_ws [of s] by simp

lemma tl_skip_len: "skip_ws s = c # r \<Longrightarrow> length (tl (skip_ws r)) < length s"
  using length_skip_ws [of s] length_skip_ws [of r] by simp

lemma parse_len:
  "parse_value n d s = Some (v, r) \<Longrightarrow> length r < length s"
  "parse_elems n d s = Some (vs, r) \<Longrightarrow> length r < length s"
  "parse_members n d s = Some (ms, r) \<Longrightarrow> length r < length s"
proof (induction n d s and n d s and n d s arbitrary: v r and vs r and ms r
    rule: parse_value_parse_elems_parse_members.induct)
  case (2 n d s)
  obtain c t where c: "skip_ws s = c # t" using 2(3) by (cases "skip_ws s") auto
  show ?case
    using 2(3) 2(1,2)[OF c] skip_ws_cons_len [OF c] tl_skip_len [OF c] c
    by (auto dest!: parse_str_len lex_num_len split: if_splits)
next
  case (4 n d s)
  then show ?case
    by (fastforce dest!: skip_ws_cons_len split: option.splits list.splits if_splits prod.splits)
next
  case (6 n d s)
  then show ?case
    by (fastforce dest!: skip_ws_cons_len parse_str_len split: option.splits list.splits if_splits prod.splits)
qed auto

lemma parse_fuel:
  "2 * length s < n \<Longrightarrow> 2 * length s < m \<Longrightarrow> parse_value n d s = parse_value m d s"
  "2 * length s + 1 < n \<Longrightarrow> 2 * length s + 1 < m \<Longrightarrow> parse_elems n d s = parse_elems m d s"
  "2 * length s < n \<Longrightarrow> 2 * length s < m \<Longrightarrow> parse_members n d s = parse_members m d s"
proof (induction n arbitrary: s m d)
  case (Suc n)
  {
    case 1
    obtain k where m: "m = Suc k" using 1 by (cases m) auto
    have "parse_elems n (d - 1) r = parse_elems k (d - 1) r"
      "parse_members n (d - 1) r = parse_members k (d - 1) r" if "skip_ws s = c # r" for c r
      using skip_ws_cons_len [OF that] 1 by (auto simp: m intro: Suc.IH)
    then show ?case by (cases "skip_ws s") (simp_all add: m)
  next
    case 2
    obtain k where m: "m = Suc k" using 2 by (cases m) auto
    have v: "parse_value n d s = parse_value k d s" using 2 by (auto simp: m intro: Suc.IH)
    have "parse_elems n d r = parse_elems k d r"
      if "parse_value k d s = Some (v, t)" "skip_ws t = c # r" for v t c r
      using skip_ws_cons_len [OF that(2)] parse_len(1) [OF that(1)] 2 by (auto simp: m intro: Suc.IH)
    note e = this
    show ?case
    proof (cases "parse_value k d s")
      case (Some vt)
      obtain v t where vt: "vt = (v, t)" by (cases vt)
      show ?thesis using e [of v t] Some vt by (cases "skip_ws t") (simp_all add: m v)
    qed (simp add: m v)
  next
    case 3
    obtain k where m: "m = Suc k" using 3 by (cases m) auto
    have l: "length s2 < length s" if "skip_ws s = q # s0" "parse_str (length s0) s0 = Some (key, s1)"
      "skip_ws s1 = c # s2" for q s0 key s1 c s2
      using skip_ws_cons_len [OF that(1)] parse_str_len [OF that(2)] skip_ws_cons_len [OF that(3)] by simp
    have v: "parse_value n d s2 = parse_value k d s2" if "length s2 < length s" for s2
      using 3 that by (auto simp: m intro: Suc.IH)
    have e: "parse_members n d r = parse_members k d r"
      if "length s2 < length s" "parse_value k d s2 = Some (v, t)" "skip_ws t = c # r" for s2 v t c r
      using skip_ws_cons_len [OF that(3)] parse_len(1) [OF that(2)] that(1) 3 by (auto simp: m intro: Suc.IH)
    show ?case
    proof (cases "skip_ws s")
      case (Cons q s0)
      show ?thesis
      proof (cases "parse_str (length s0) s0")
        case (Some kt)
        obtain key s1 where kt: "kt = (key, s1)" by (cases kt)
        show ?thesis
        proof (cases "skip_ws s1")
          case (Cons c s2)
          have len: "length s2 < length s" using l [of q s0 key s1 c s2] Cons Some kt \<open>skip_ws s = q # s0\<close> by simp
          note v [OF len, simp]
          show ?thesis
          proof (cases "parse_value k d s2")
            case (Some vt)
            obtain v t where vt: "vt = (v, t)" by (cases vt)
            show ?thesis using e [OF len, of v t] Some vt \<open>parse_str (length s0) s0 = Some kt\<close> kt Cons \<open>skip_ws s = q # s0\<close>
              by (cases "skip_ws t") (simp_all add: m)
          qed (simp add: m \<open>skip_ws s = q # s0\<close> Some kt Cons)
        qed (simp add: m \<open>skip_ws s = q # s0\<close> Some kt)
      qed (simp add: m Cons)
    qed (simp add: m)
  }
qed simp_all

section \<open>Printing and reading back\<close>

text \<open>
  The compact form that encoders write: a string in quotes, with the short escapes and
  \<open>\u00xx\<close> for the other control characters, everything else as it is (this is how
  \<open>serde_json\<close> writes strings).
\<close>

definition esc_char :: "char \<Rightarrow> string" where
  "esc_char c =
     (case map_of [(CHR 0x22, CHR 0x22), (CHR 0x5C, CHR 0x5C), (CHR 0x08, CHR ''b''), (CHR 0x0C, CHR ''f''),
         (CHR 0x0A, CHR ''n''), (CHR 0x0D, CHR ''r''), (CHR 0x09, CHR ''t'')] c of
        Some e \<Rightarrow> [CHR 0x5C, e]
      | None \<Rightarrow>
        if (of_char c :: nat) < 32
        then CHR 0x5C # ''u00'' @ [digit_char (of_char c div 16), digit_char (of_char c mod 16)]
        else [c])"

definition esc_str :: "string \<Rightarrow> string" where
  "esc_str s = concat (map esc_char s)"

definition json_quote :: "string \<Rightarrow> string" where
  "json_quote s = CHR 0x22 # esc_str s @ [CHR 0x22]"

fun print_value :: "jval \<Rightarrow> string" where
  "print_value VNull = ''null''"
| "print_value (VBool b) = (if b then ''true'' else ''false'')"
| "print_value (VNum s) = s"
| "print_value (VStr s) = json_quote s"
| "print_value (VArr vs) = ''['' @ join_with '','' (map print_value vs) @ '']''"
| "print_value (VObj kvs) =
     ''{'' @ join_with '','' (map (\<lambda>kv. json_quote (fst kv) @ CHR '':'' # print_value (snd kv)) kvs) @ ''}''"

text \<open>The byte strings that are UTF-8.\<close>

inductive utf8 :: "string \<Rightarrow> bool" where
  "utf8 []"
| "(of_char c :: nat) < 128 \<Longrightarrow> utf8 s \<Longrightarrow> utf8 (c # s)"
| "utf8_len (map of_char w) = Some (length w) \<Longrightarrow> utf8 s \<Longrightarrow> utf8 (w @ s)"

definition plain_str :: "string \<Rightarrow> bool" where
  "plain_str s \<longleftrightarrow>
     (\<forall>c \<in> set s. 32 \<le> (of_char c :: nat) \<and> (of_char c :: nat) < 128 \<and> c \<noteq> CHR 0x22 \<and> c \<noteq> CHR 0x5C)"

lemma plain_utf8: "plain_str s \<Longrightarrow> utf8 s"
  by (induction s) (auto simp: plain_str_def intro: utf8.intros)

text \<open>The values whose strings are UTF-8, whose numbers are literals of the grammar, nested at most \<open>d\<close> deep.\<close>

fun printable :: "nat \<Rightarrow> jval \<Rightarrow> bool" where
  "printable d VNull = True"
| "printable d (VBool b) = True"
| "printable d (VNum s) = (lex_num s = Some (s, []))"
| "printable d (VStr s) = utf8 s"
| "printable d (VArr vs) = (0 < d \<and> list_all (printable (d - 1)) vs)"
| "printable d (VObj kvs) = (0 < d \<and> list_all (\<lambda>kv. utf8 (fst kv) \<and> printable (d - 1) (snd kv)) kvs)"


definition ends_value :: "string \<Rightarrow> bool" where
  "ends_value r \<longleftrightarrow> r = [] \<or> hd r \<in> {CHR '','', CHR '']'', CHR ''}''}"

lemma ends_value_simps [simp]: "ends_value []" "ends_value (CHR '','' # r)" "ends_value (CHR '']'' # r)"
  "ends_value (CHR ''}'' # r)"
  by (simp_all add: ends_value_def)

lemma ends_not_digit: "ends_value r \<Longrightarrow> r = [] \<or> \<not> is_digit (hd r)"
  by (auto simp: ends_value_def is_digit_def digit_val_def)

lemma takeWhile_ends:
  assumes "r = [] \<or> \<not> P (hd r)"
  shows "takeWhile P (s @ r) = takeWhile P s" "dropWhile P (s @ r) = dropWhile P s @ r"
proof -
  have "takeWhile P r = []" "dropWhile P r = r" using assms by (cases r; simp)+
  then show "takeWhile P (s @ r) = takeWhile P s" "dropWhile P (s @ r) = dropWhile P s @ r"
    by (induction s) auto
qed

lemma lex_num_ends:
  assumes "lex_num s = Some (t, u)" "ends_value r"
  shows "lex_num (s @ r) = Some (t, u @ r)"
proof -
  note tw = takeWhile_ends [of r is_digit, OF ends_not_digit [OF assms(2)]]
  have i: "lex_int (s @ r) = Some (t, u @ r)" if "lex_int s = Some (t, u)" for s t u
    using that tw [of s] by (auto simp: lex_int_def split: list.splits if_splits)
  have f: "lex_frac (s @ r) = Some (t, u @ r)" if "lex_frac s = Some (t, u)" for s t u
    using that assms(2) by (auto simp: lex_frac_def tw ends_value_def split: list.splits if_splits)
  have e: "lex_exp (s @ r) = Some (t, u @ r)" if "lex_exp s = Some (t, u)" for s t u
  proof (cases s)
    case Nil
    then show ?thesis using that assms(2) by (cases r) (auto simp: lex_exp_def ends_value_def)
  next
    case (Cons c s')
    have "HasPrefix (s' @ r) [x] = HasPrefix s' [x]" if "x = CHR ''-'' \<or> x = CHR ''+''" for x
      using assms(2) that by (cases s'; cases r) (auto simp: HasPrefix_def ends_value_def)
    moreover have "takeWhile is_digit (drop 1 s' @ r) = takeWhile is_digit (drop 1 s')" by (rule tw)
    ultimately show ?thesis using that Cons
      by (cases s') (auto simp: lex_exp_def Let_def tw split: if_splits)
  qed
  have sg: "HasPrefix (s @ r) ''-'' = HasPrefix s ''-''"
    using assms by (cases s; cases r) (auto simp: HasPrefix_def ends_value_def lex_num_def lex_int_def)
  let ?sg = "if HasPrefix s ''-'' then ''-'' else ''''"
  have d: "drop (length ?sg) (s @ r) = drop (length ?sg) s @ r"
    by (cases s) (simp_all add: HasPrefix_def)
  obtain a s1 b s2 c where "lex_int (drop (length ?sg) s) = Some (a, s1)" "lex_frac s1 = Some (b, s2)"
    "lex_exp s2 = Some (c, u)" "t = ?sg @ a @ b @ c"
    using assms(1) unfolding lex_num_def Let_def by (auto simp only: split: option.splits prod.splits)
  then show ?thesis
    unfolding lex_num_def Let_def sg d by (simp only: i f e option.case prod.case)
qed

lemma skip_ws_cons [simp]: "skip_ws (c # s) = (if is_ws c then skip_ws s else c # s)"
  by (simp add: skip_ws_def)

text \<open>Strings: what is escaped is unescaped, what is not passes through.\<close>

declare json_quote_def [simp]

lemma esc_str_simps [simp]: "esc_str [] = []" "esc_str (c # s) = esc_char c @ esc_str s"
  "esc_str (s @ t) = esc_str s @ esc_str t"
  by (simp_all add: esc_str_def)

lemma utf8_enc_ascii: "c < 128 \<Longrightarrow> utf8_enc c = [char_of c]"
  by (simp add: utf8_enc_def)

lemma hex_val_digit: "n < 16 \<Longrightarrow> hex_val (digit_char n) = Some n"
proof -
  assume "n < 16"
  then have "n \<in> set [0..<16]" by simp
  moreover have "\<forall>n \<in> set [0..<16]. hex_val (digit_char n) = Some n" by code_simp
  ultimately show ?thesis by blast
qed

lemma hex4_control:
  assumes "(of_char c :: nat) < 32"
  shows "hex4 (CHR ''0'' # CHR ''0'' # digit_char (of_char c div 16) # digit_char (of_char c mod 16) # s)
    = Some (of_char c, s)"
proof -
  have "hex_val (digit_char (of_char c div 16)) = Some (of_char c div 16)" using assms by (intro hex_val_digit) simp
  moreover have "hex_val (digit_char (of_char c mod 16)) = Some (of_char c mod 16)" by (intro hex_val_digit) simp
  moreover have "hex_val CHR ''0'' = Some 0" by (simp add: hex_val_def)
  ultimately show ?thesis by simp
qed

text \<open>One character of an escaped string, read by the parser.\<close>

lemma parse_esc_char:
  assumes "(of_char c :: nat) < 128"
  shows "parse_str (Suc n) (esc_char c @ s) = map_option (\<lambda>(t, r). (c # t, r)) (parse_str n s)"
proof (cases "c \<in> {CHR 0x22, CHR 0x5C, CHR 0x08, CHR 0x0C, CHR 0x0A, CHR 0x0D, CHR 0x09}")
  case True
  then show ?thesis by (elim insertE emptyE) (simp_all add: esc_char_def esc_val_def)
next
  case no: False
  show ?thesis
  proof (cases "(of_char c :: nat) < 32")
    case True
    have e: "esc_char c @ s = CHR 0x5C # CHR ''u'' # CHR ''0'' # CHR ''0'' #
        digit_char (of_char c div 16) # digit_char (of_char c mod 16) # s"
      using no True by (simp add: esc_char_def)
    have u: "utf8_enc (of_char c) = [c]" using assms by (simp add: utf8_enc_ascii)
    have "\<not> 55296 \<le> (of_char c :: nat)" using True by simp
    then show ?thesis unfolding e parse_str.simps Let_def
      by (simp add: u hex4_control [OF True] del: hex4.simps split: option.split)
  next
    case False
    then show ?thesis using no assms by (simp add: esc_char_def Let_def)
  qed
qed

lemma utf8_len_eqs:
  "194 \<le> a \<Longrightarrow> a < 224 \<Longrightarrow> utf8_len (a # b # bs) = (if 128 \<le> b \<and> b < 192 then Some 2 else None)"
  "224 \<le> a \<Longrightarrow> a < 240 \<Longrightarrow> utf8_len (a # b # bs) =
     (case bs of [] \<Rightarrow> None | c # _ \<Rightarrow>
        if (128 \<le> b \<and> b < 192) \<and> (128 \<le> c \<and> c < 192) \<and> (a = 224 \<longrightarrow> 160 \<le> b) \<and> (a = 237 \<longrightarrow> b < 160)
        then Some 3 else None)"
  "240 \<le> a \<Longrightarrow> a < 245 \<Longrightarrow> utf8_len (a # b # bs) =
     (case bs of c # d # _ \<Rightarrow>
        if (128 \<le> b \<and> b < 192) \<and> (128 \<le> c \<and> c < 192) \<and> (128 \<le> d \<and> d < 192) \<and>
           (a = 240 \<longrightarrow> 144 \<le> b) \<and> (a = 244 \<longrightarrow> b < 144)
        then Some 4 else None | _ \<Rightarrow> None)"
  "a < 194 \<Longrightarrow> utf8_len (a # b # bs) = None"
  "245 \<le> a \<Longrightarrow> utf8_len (a # b # bs) = None"
  unfolding utf8_len.simps Let_def
  by (simp_all cong: list.case_cong)

lemma utf8_len_some:
  assumes "utf8_len w = Some k"
  obtains a b bs where "w = a # b # bs" "194 \<le> a" "a < 224" "128 \<le> b" "k = 2"
  | a b c bs where "w = a # b # c # bs" "224 \<le> a" "a < 240" "128 \<le> b" "128 \<le> c" "k = 3"
  | a b c d bs where "w = a # b # c # d # bs" "240 \<le> a" "a < 245" "128 \<le> b" "128 \<le> c" "128 \<le> d" "k = 4"
proof (cases w rule: utf8_len.cases)
  case (1 a b bs)
  consider "194 \<le> a" "a < 224" | "224 \<le> a" "a < 240" | "240 \<le> a" "a < 245" | "a < 194 \<or> 245 \<le> a" by linarith
  then show ?thesis
  proof cases
    case 1
    from assms that(1) [OF \<open>w = _\<close> 1] show ?thesis
      unfolding \<open>w = _\<close> utf8_len_eqs(1) [OF 1] by (simp split: if_splits)
  next
    case 2
    from assms show ?thesis unfolding \<open>w = _\<close> utf8_len_eqs(2) [OF 2]
      using that(2) [of a b _ "tl bs", OF _ 2] \<open>w = _\<close> by (cases bs) (simp_all split: if_splits)
  next
    case 3
    from assms obtain c d ds where bs: "bs = c # d # ds" unfolding \<open>w = _\<close> utf8_len_eqs(3) [OF 3]
      by (cases bs; cases "tl bs") auto
    from assms show ?thesis unfolding \<open>w = _\<close> utf8_len_eqs(3) [OF 3] bs
      using that(3) [of a b c d ds, OF _ 3] \<open>w = _\<close> bs by (simp split: if_splits)
  next
    case 4
    from 4 assms show ?thesis unfolding \<open>w = _\<close>
      by (elim disjE) (simp_all only: utf8_len_eqs(4,5) option.distinct)
  qed
qed (use assms in simp_all)

lemma utf8_len_append:
  assumes "utf8_len w = Some (length w)"
  shows "utf8_len (w @ t) = Some (length w)" "2 \<le> length w" "length w \<le> 4" "\<forall>b \<in> set w. 128 \<le> b"
proof -
  have "utf8_len (w @ t) = Some (length w) \<and> 2 \<le> length w \<and> length w \<le> 4 \<and> (\<forall>b \<in> set w. 128 \<le> b)"
    using assms
  proof (cases rule: utf8_len_some)
    case (1 a b bs)
    with assms show ?thesis by (auto simp: utf8_len_eqs(1) simp del: utf8_len.simps)
  next
    case (2 a b c bs)
    with assms show ?thesis by (auto simp: utf8_len_eqs(2) simp del: utf8_len.simps)
  next
    case (3 a b c d bs)
    with assms show ?thesis by (auto simp: utf8_len_eqs(3) simp del: utf8_len.simps)
  qed
  then show "utf8_len (w @ t) = Some (length w)" "2 \<le> length w" "length w \<le> 4" "\<forall>b \<in> set w. 128 \<le> b" by simp_all
qed

lemma esc_high: "128 \<le> (of_char c :: nat) \<Longrightarrow> esc_char c = [c]"
proof -
  assume c: "128 \<le> (of_char c :: nat)"
  then have "c \<noteq> CHR 0x22" "c \<noteq> CHR 0x5C" "c \<noteq> CHR 0x08" "c \<noteq> CHR 0x0C" "c \<noteq> CHR 0x0A" "c \<noteq> CHR 0x0D"
    "c \<noteq> CHR 0x09" by auto
  with c show ?thesis by (simp add: esc_char_def)
qed

lemma parse_str_high:
  assumes "128 \<le> (of_char c :: nat)" "utf8_len (map of_char (take 4 (c # s))) = Some k"
  shows "parse_str (Suc n) (c # s) =
    map_option (\<lambda>(t, r). (take k (c # s) @ t, r)) (parse_str n (drop (k - 1) s))"
proof -
  have n: "\<not> c = CHR 0x22" "\<not> (of_char c :: nat) < 32" "\<not> c = CHR 0x5C" "\<not> (of_char c :: nat) < 128"
    using assms(1) by auto
  show ?thesis unfolding parse_str.simps Let_def n [THEN if_not_P] assms(2) option.case by (rule refl)
qed

lemma parse_str_quoted:
  "utf8 s \<Longrightarrow> length (esc_str s) < n \<Longrightarrow> parse_str n (esc_str s @ CHR 0x22 # r) = Some (s, r)"
proof (induction s arbitrary: n rule: utf8.induct)
  case 1
  then show ?case by (cases n) simp_all
next
  case (2 c s)
  from 2 obtain k where n: "n = Suc k" by (cases n) auto
  have "esc_char c \<noteq> []" by (simp add: esc_char_def split: option.split)
  then obtain a t where "esc_char c = a # t" by (cases "esc_char c") auto
  then have "length (esc_str s) < k" using 2 n by simp
  with 2 show ?case by (simp add: n parse_esc_char)
next
  case (3 w s)
  have "utf8_len (map of_char w) = Some (length (map of_char w))" using 3(1) by simp
  note w = utf8_len_append [OF this, simplified]
  have esc: "esc_str w = w"
  proof -
    have "\<forall>c \<in> set w. esc_char c = [c]" using w(4) esc_high by auto
    then show ?thesis by (induction w) simp_all
  qed
  obtain c w' where cw: "w = c # w'" using w(2) by (cases w) auto
  have c: "128 \<le> (of_char c :: nat)" using w(4) cw by simp
  obtain k where n: "n = Suc k" using 3 by (cases n) auto
  let ?rest = "esc_str s @ CHR 0x22 # r"
  have "take 4 (w @ ?rest) = w @ take (4 - length w) ?rest" using w(3) by simp
  then have len: "utf8_len (map of_char (take 4 (c # w' @ ?rest))) = Some (length w)"
    using w(1) [of "map of_char (take (4 - length w) ?rest)"] cw by simp
  have t: "take (length w) (c # w' @ ?rest) = w" "drop (length w - 1) (w' @ ?rest) = ?rest"
    using cw by simp_all

  have "length (esc_str w) = length w" using esc by simp
  then have "length (esc_str s) < k" using 3(4) w(2) unfolding n esc_str_simps(3) length_append by linarith
  then have "parse_str k ?rest = Some (s, r)" by (rule 3(3))
  then have "parse_str (Suc k) (c # w' @ ?rest) = Some (w @ s, r)"
    unfolding parse_str_high [OF c len] t by simp
  moreover have "esc_str (w @ s) @ CHR 0x22 # r = c # w' @ ?rest" using esc cw by simp
  ultimately show ?case unfolding n by simp
qed


lemma lex_num_head:
  assumes "lex_num s = Some (s, [])"
  obtains c t where "s = c # t" "c = CHR ''-'' \<or> is_digit c"
proof (cases s)
  case Nil
  with assms show ?thesis by (simp add: lex_num_def lex_int_def HasPrefix_def)
next
  case (Cons c t)
  have "c = CHR ''-'' \<or> is_digit c"
  proof (rule ccontr)
    assume "\<not> ?thesis"
    moreover from this have "c \<noteq> CHR ''0''" by (auto simp: is_digit_def digit_val_def)
    ultimately have "lex_num s = None" by (simp add: Cons lex_num_def lex_int_def HasPrefix_def)
    with assms show False by simp
  qed
  with Cons that show ?thesis by blast
qed

lemma num_head_chars:
  "c = CHR ''-'' \<or> is_digit c \<Longrightarrow>
   \<not> is_ws c \<and> c \<notin> {CHR ''{'', CHR ''['', CHR 0x22, CHR ''t'', CHR ''f'', CHR ''n'', CHR '']'', CHR ''}''}"
  by (auto simp: is_digit_def digit_val_def is_ws_def)

lemma print_head:
  assumes "printable d v"
  shows "\<exists>c t. print_value v = c # t \<and> \<not> is_ws c \<and> c \<noteq> CHR '']''"
proof (cases v)
  case (VNum s)
  with assms obtain c t where "s = c # t" "c = CHR ''-'' \<or> is_digit c" using lex_num_head [of s] by auto
  with num_head_chars [of c] VNum show ?thesis by auto
qed (simp_all add: is_ws_def)

abbreviation parses :: "nat \<Rightarrow> jval \<Rightarrow> bool" where
  "parses d v \<equiv> \<forall>r n. ends_value r \<longrightarrow> 2 * length (print_value v @ r) < n \<longrightarrow>
     parse_value n d (print_value v @ r) = Some (v, r)"

lemma parse_elems_print:
  "vs \<noteq> [] \<Longrightarrow> \<forall>v \<in> set vs. parses d v \<Longrightarrow>
   2 * length (join_with '','' (map print_value vs) @ CHR '']'' # r) + 1 < n \<Longrightarrow>
   parse_elems n d (join_with '','' (map print_value vs) @ CHR '']'' # r) = Some (vs, r)"
proof (induction vs arbitrary: n)
  case (Cons v vs)
  from Cons.prems(3) obtain k where n: "n = Suc k" by (cases n) auto
  show ?case
  proof (cases vs)
    case Nil
    with Cons.prems n show ?thesis by (simp add: is_ws_def)
  next
    case (Cons w ws)
    then have j: "join_with '','' (map print_value (v # vs)) @ CHR '']'' # r
        = print_value v @ CHR '','' # join_with '','' (map print_value vs) @ CHR '']'' # r" by simp
    from Cons.prems(2,3) Cons.IH [of k] Cons show ?thesis
      unfolding j n by (simp add: is_ws_def)
  qed
qed simp

lemma parse_members_print:
  assumes "kvs \<noteq> []" "\<forall>kv \<in> set kvs. utf8 (fst kv) \<and> parses d (snd kv)"
    and "2 * length (join_with '','' (map (\<lambda>kv. json_quote (fst kv) @ CHR '':'' # print_value (snd kv)) kvs)
      @ CHR ''}'' # r) < n"
  shows "parse_members n d
      (join_with '','' (map (\<lambda>kv. json_quote (fst kv) @ CHR '':'' # print_value (snd kv)) kvs)
        @ CHR ''}'' # r) = Some (kvs, r)"
  using assms
proof (induction kvs arbitrary: n)
  case (Cons kv kvs)
  let ?p = "\<lambda>kv. json_quote (fst kv) @ CHR '':'' # print_value (snd kv)"
  from Cons.prems(3) obtain k where n: "n = Suc k" by (cases n) auto
  show ?case
  proof (cases kvs)
    case Nil
    with Cons.prems n show ?thesis by (simp add: is_ws_def parse_str_quoted)
  next
    case (Cons w ws)
    then have j: "join_with '','' (map ?p (kv # kvs)) @ CHR ''}'' # r
        = CHR 0x22 # esc_str (fst kv) @ CHR 0x22 # CHR '':'' # print_value (snd kv) @
          CHR '','' # join_with '','' (map ?p kvs) @ CHR ''}'' # r" by simp
    from Cons.prems(2,3) Cons.IH [of k] Cons show ?thesis
      unfolding j n by (simp add: is_ws_def parse_str_quoted)
  qed
qed simp

text \<open>What an encoder prints, the parser reads back.\<close>

lemma parses_num:
  assumes "printable d (VNum s)"
  shows "parses d (VNum s)"
proof (intro allI impI)
  obtain c t where s: "s = c # t" "c = CHR ''-'' \<or> is_digit c" using assms lex_num_head by auto
  fix r n assume r: "ends_value r" "2 * length (print_value (VNum s) @ r) < n"
  then obtain k where "n = Suc k" by (cases n) auto
  moreover have "lex_num (c # t @ r) = Some (c # t, r)"
    using lex_num_ends [of s s "[]" r] assms r(1) s(1) by simp
  ultimately show "parse_value n d (print_value (VNum s) @ r) = Some (VNum s, r)"
    using num_head_chars [OF s(2)] s(1) by auto
qed

lemma parses_arr:
  assumes "printable d (VArr vs)" "\<forall>v \<in> set vs. parses (d - 1) v"
  shows "parses d (VArr vs)"
proof (intro allI impI)
  fix r n assume r: "2 * length (print_value (VArr vs) @ r) < n"
  then obtain k where n: "n = Suc k" by (cases n) auto
  show "parse_value n d (print_value (VArr vs) @ r) = Some (VArr vs, r)"
  proof (cases vs)
    case Nil
    with assms n show ?thesis by (simp add: is_ws_def HasPrefix_def)
  next
    case (Cons w ws)
    then obtain c t where w: "print_value w = c # t" "\<not> is_ws c" "c \<noteq> CHR '']''"
      using assms(1) print_head [of "d - 1" w] by (auto simp del: print_value.simps)
    have "\<exists>t'. join_with '','' (map print_value vs) = c # t'"
      using w(1) Cons by (cases ws) auto
    then have "\<not> HasPrefix (skip_ws (join_with '','' (map print_value vs) @ '']'' @ r)) '']''"
      using w(2,3) by (auto simp: HasPrefix_def)
    then show ?thesis
      using parse_elems_print [of vs "d - 1" r k] assms r Cons by (simp add: is_ws_def n)
  qed
qed

lemma parses_obj:
  assumes "printable d (VObj kvs)" "\<forall>kv \<in> set kvs. utf8 (fst kv) \<and> parses (d - 1) (snd kv)"
  shows "parses d (VObj kvs)"
proof (intro allI impI)
  fix r n assume r: "2 * length (print_value (VObj kvs) @ r) < n"
  then obtain k where n: "n = Suc k" by (cases n) auto
  show "parse_value n d (print_value (VObj kvs) @ r) = Some (VObj kvs, r)"
  proof (cases kvs)
    case Nil
    with assms n show ?thesis by (simp add: is_ws_def HasPrefix_def)
  next
    case (Cons w ws)
    have "hd (join_with '','' (map (\<lambda>kv. json_quote (fst kv) @ CHR '':'' # print_value (snd kv)) kvs)
        @ CHR ''}'' # r) = CHR 0x22" using Cons by (cases ws) auto
    then show ?thesis
      using parse_members_print [of kvs "d - 1" r k] assms r Cons
      by (cases ws) (simp_all add: is_ws_def n HasPrefix_def)
  qed
qed

lemma parses_plain:
  "utf8 s \<Longrightarrow> parses d (VStr s)" "parses d VNull" "parses d (VBool b)"
proof -
  have suc: "\<exists>k. n = Suc k" if "m < n" for m n :: nat using that by (cases n) auto
  show "utf8 s \<Longrightarrow> parses d (VStr s)" "parses d VNull" "parses d (VBool b)"
    by (auto dest!: suc simp: is_ws_def parse_str_quoted HasPrefix_def)
qed

lemma print_parse: "printable d v \<Longrightarrow> parses d v"
proof (induction v arbitrary: d)
  case (VArr vs)
  then show ?case by (intro parses_arr) (auto simp: list_all_iff)
next
  case (VObj kvs)
  then show ?case by (intro parses_obj) (fastforce simp: list_all_iff)+
next
  case (VNum s)
  then show ?case by (rule parses_num)
next
  case (VStr s)
  then show ?case by (intro parses_plain(1)) simp
next
  case VNull
  show ?case by (rule parses_plain(2))
next
  case (VBool b)
  show ?case by (rule parses_plain(3))
qed

lemma json_parse_print:
  assumes "printable 10000 v"
  shows "json_parse (print_value v) = Some v"
proof -
  have "parse_value (2 * length (print_value v) + 2) 10000 (print_value v @ []) = Some (v, [])"
    by (rule print_parse [OF assms, rule_format]) simp_all
  then show ?thesis by (simp add: json_parse_def skip_ws_def del: parse_value.simps)
qed

lemma digit_chars_Itoa:
  "\<forall>d \<in> set ds. d < 10 \<Longrightarrow> takeWhile is_digit (map digit_char ds) = map digit_char ds \<and>
    dropWhile is_digit (map digit_char ds) = []"
  by (induction ds) (auto simp: is_digit_def)

lemma hd_nat_digits: "0 < n \<Longrightarrow> hd (nat_digits 10 n) \<noteq> 0"
proof (induction n rule: less_induct)
  case (less n)
  then show ?case by (subst nat_digits.simps) auto
qed

lemma lex_int_digits: "lex_int (map digit_char (nat_digits 10 n)) = Some (map digit_char (nat_digits 10 n), [])"
proof (cases "n = 0")
  case True
  then show ?thesis by (simp add: nat_digits.simps lex_int_def digit_char_def)
next
  case False
  obtain d ds where e: "nat_digits 10 n = d # ds" by (cases "nat_digits 10 n") auto
  have all: "\<forall>x \<in> set (d # ds). x < 10" using nat_digits_less [of 10 _ n] e by auto
  have "d \<noteq> 0" using hd_nat_digits [of n] False e by simp
  have "digit_char d \<noteq> digit_char 0" using digit_char_inj [of d 0] \<open>d \<noteq> 0\<close> all by auto
  then have "digit_char d \<noteq> CHR ''0''" by (simp add: digit_char_def)
  moreover have "is_digit (digit_char d)" using all by (simp add: is_digit_def)
  ultimately show ?thesis using digit_chars_Itoa [OF all] by (simp add: lex_int_def e)
qed

lemma lex_num_Itoa: "lex_num (Itoa n) = Some (Itoa n, [])"
proof -
  obtain d ds where e: "nat_digits 10 (nat \<bar>n\<bar>) = d # ds" by (cases "nat_digits 10 (nat \<bar>n\<bar>)") auto
  have "d < 10" using nat_digits_less [of 10 d "nat \<bar>n\<bar>"] e by simp
  then have "\<not> HasPrefix (map digit_char (nat_digits 10 (nat \<bar>n\<bar>))) ''-''"
    using digit_not_sign [of d] by (simp add: e HasPrefix_def)
  moreover have "HasPrefix (CHR ''-'' # t) ''-''" for t by (simp add: HasPrefix_def)
  ultimately show ?thesis
    using lex_int_digits [of "nat \<bar>n\<bar>"]
    by (cases "n < 0") (simp_all add: Itoa_def lex_num_def Let_def lex_frac_def lex_exp_def)
qed

lemma ParseInt_Itoa:
  assumes "- (2 ^ 63) \<le> n" "n < 2 ^ 63"
  shows "ParseInt (Itoa n) = Some n"
proof (cases "0 \<le> n")
  case True
  then show ?thesis using Atoi_Itoa_nat [of "nat n"] assms by (simp add: ParseInt_def nat_less_iff)
next
  case False
  then show ?thesis using read_digits_Itoa [of "[]" "nat (- n)"] assms
    by (simp add: ParseInt_def Atoi_def Itoa_def HasPrefix_def Let_def)
qed

end
