(* ===== verification/Ingester.thy ===== *)
theory Ingester
  imports Go_Json "HOL-Library.Word"
begin

text \<open>
  \<open>services/telemetry-ingester/main.go\<close>: a consumer goroutine reads benchmark results
  from the Redpanda topic, a storage worker batches them into the table
  \<open>benchmark_metrics\<close> and commits the offsets. The two meet in the channel
  \<open>recordChan\<close>. The process, the topic and the table are one state; every turn of a
  goroutine is an event. The topic (append-only partitions, a fetch position, committed
  offsets) and the database (a transaction that may fail at each call) behave as their
  documentation says; their answers are part of the events, so that every theorem holds
  for every behaviour of theirs. A restart of the process may happen at any time.
\<close>

section \<open>Payloads\<close>

record TelemetryPayload =
  SubmissionID :: string
  P50Micros :: int
  P90Micros :: int
  P99Micros :: int
  TotalOrders :: int
  SuccessRate :: f64
  Timestamp :: int

definition zero_payload :: TelemetryPayload where
  "zero_payload =
     \<lparr>SubmissionID = '''', P50Micros = 0, P90Micros = 0, P99Micros = 0, TotalOrders = 0,
      SuccessRate = Fin 0, Timestamp = 0\<rparr>"

definition telemetry_fields :: "(string \<times> TelemetryPayload field_decoder) list" where
  "telemetry_fields =
     [(''submission_id'', str_field (\<lambda>x. SubmissionID_update (\<lambda>_. x))),
      (''p50_micros'', int_field (\<lambda>x. P50Micros_update (\<lambda>_. x))),
      (''p90_micros'', int_field (\<lambda>x. P90Micros_update (\<lambda>_. x))),
      (''p99_micros'', int_field (\<lambda>x. P99Micros_update (\<lambda>_. x))),
      (''total_orders'', int_field (\<lambda>x. TotalOrders_update (\<lambda>_. x))),
      (''success_rate'', float_field (\<lambda>x. SuccessRate_update (\<lambda>_. x))),
      (''timestamp'', int_field (\<lambda>x. Timestamp_update (\<lambda>_. x)))]"

definition parseTelemetryRecord :: "string \<Rightarrow> TelemetryPayload result" where
  "parseTelemetryRecord raw =
     (case json_Unmarshal telemetry_fields raw zero_payload of
        Inl err \<Rightarrow> Inl err
      | Inr payload \<Rightarrow>
          if SubmissionID payload = '''' then Inl (errors_New ''submission_id missing'') else Inr payload)"

section \<open>The topic and the table\<close>

record krec =
  Partition :: nat
  Offset :: nat
  Value :: string

record StorageRecord =
  Payload :: TelemetryPayload
  Record :: krec

definition MaxBatchSize :: nat where "MaxBatchSize = 500"
definition chan_cap :: nat where "chan_cap = 10000"

text \<open>
  How the database answers the calls of one transaction. A commit that reports an error
  may still have been applied.
\<close>

record db_answers =
  begin_ok :: bool
  prepare_ok :: bool
  exec_ok :: "nat \<Rightarrow> TelemetryPayload \<Rightarrow> bool"
  commit_ok :: bool
  commit_applied :: bool

fun exec_all :: "db_answers \<Rightarrow> nat \<Rightarrow> StorageRecord list \<Rightarrow> gerr option" where
  "exec_all a i [] = None"
| "exec_all a i (r # rs) =
     (if exec_ok a i (Payload r) then exec_all a (Suc i) rs else Some (errors_New ''exec''))"

text \<open>
  The transaction: the new table and the error. A cancelled context fails \<open>BeginTx\<close>; an
  error before the commit rolls back.
\<close>

definition persistBatch ::
  "bool \<Rightarrow> db_answers \<Rightarrow> StorageRecord list \<Rightarrow> TelemetryPayload list \<Rightarrow> TelemetryPayload list \<times> gerr option"
where
  "persistBatch cancelled a records table =
     (if cancelled \<or> \<not> begin_ok a then (table, Some (errors_New ''begin''))
      else if \<not> prepare_ok a then (table, Some (errors_New ''prepare''))
      else case exec_all a 0 records of
        Some err \<Rightarrow> (table, Some err)
      | None \<Rightarrow>
          if commit_ok a then (table @ map Payload records, None)
          else (if commit_applied a then table @ map Payload records else table,
                Some (errors_New ''commit'')))"

text \<open>Committing records moves a partition's offset past the last of them.\<close>

definition commit_records :: "krec list \<Rightarrow> (nat \<Rightarrow> nat) \<Rightarrow> nat \<Rightarrow> nat" where
  "commit_records rs c p =
     (let os = map Offset (filter (\<lambda>r. Partition r = p) rs)
      in if os = [] then c p else Suc (foldr max os 0))"

text \<open>
  The records of a fetch are, per partition, the next ones of its log; partitions may
  interleave. The result is the new fetch position.
\<close>

fun take_next :: "(nat \<Rightarrow> string list) \<Rightarrow> (nat \<Rightarrow> nat) \<Rightarrow> krec list \<Rightarrow> (nat \<Rightarrow> nat) option" where
  "take_next lg pos [] = Some pos"
| "take_next lg pos (r # rs) =
     (let p = Partition r
      in if Offset r = pos p \<and> pos p < length (lg p) \<and> Value r = lg p ! pos p
         then take_next lg (pos(p := Suc (pos p))) rs else None)"

section \<open>The process\<close>

datatype consumer_pc = Polling | Iterating "krec list" | Stopped

record ing =
  topic_log :: "nat \<Rightarrow> string list"
  committed :: "nat \<Rightarrow> nat"
  table :: "TelemetryPayload list"
  ctx_done :: bool
  position :: "nat \<Rightarrow> nat"
  consumer :: consumer_pc
  recordChan :: "StorageRecord list"
  buffer :: "StorageRecord list"
  worker_done :: bool

definition ing_init :: ing where
  "ing_init =
     \<lparr>topic_log = (\<lambda>_. []), committed = (\<lambda>_. 0), table = [], ctx_done = False,
      position = (\<lambda>_. 0), consumer = Polling, recordChan = [], buffer = [], worker_done = False\<rparr>"

text \<open>The outcome of \<open>PollFetches\<close>: closed, or records along with a number of fetch errors.\<close>

datatype fetch = ClientClosed | Fetches "krec list" nat

text \<open>One turn of the loop in \<open>runConsumerLoop\<close>: records that come with errors are dropped.\<close>

definition poll :: "fetch \<Rightarrow> ing \<Rightarrow> ing option" where
  "poll f s =
     (if consumer s \<noteq> Polling then None
      else case f of
        ClientClosed \<Rightarrow> Some (s\<lparr>consumer := Stopped\<rparr>)
      | Fetches rs errs \<Rightarrow>
          (case take_next (topic_log s) (position s) rs of
             None \<Rightarrow> None
           | Some pos \<Rightarrow>
               Some (s\<lparr>position := pos, consumer := if errs > 0 then Polling else Iterating rs\<rparr>)))"

text \<open>
  One turn of the inner loop; the send waits for room in the channel. When the context
  is done the \<open>select\<close> may give up instead (\<open>giveup\<close>).
\<close>

definition iterate :: "bool \<Rightarrow> ing \<Rightarrow> ing option" where
  "iterate giveup s =
     (case consumer s of
        Iterating [] \<Rightarrow> Some (s\<lparr>consumer := Polling\<rparr>)
      | Iterating (r # rs) \<Rightarrow>
          (case parseTelemetryRecord (Value r) of
             Inl err \<Rightarrow> Some (s\<lparr>consumer := Iterating rs\<rparr>)
           | Inr payload \<Rightarrow>
               if giveup then (if ctx_done s then Some (s\<lparr>consumer := Stopped\<rparr>) else None)
               else if length (recordChan s) < chan_cap then
                 Some (s\<lparr>consumer := Iterating rs,
                        recordChan := recordChan s @ [\<lparr>Payload = payload, Record = r\<rparr>]\<rparr>)
               else None)
      | _ \<Rightarrow> None)"

definition stop_loop :: "ing \<Rightarrow> ing option" where
  "stop_loop s = (if consumer s = Polling \<and> ctx_done s then Some (s\<lparr>consumer := Stopped\<rparr>) else None)"

text \<open>
  The closure \<open>flush\<close> of the worker: the offsets are committed after the transaction, and
  an error of that is only logged (\<open>offs\<close> says whether they went through).
\<close>

definition flush :: "db_answers \<Rightarrow> bool \<Rightarrow> ing \<Rightarrow> ing" where
  "flush a offs s =
     (if buffer s = [] then s
      else case persistBatch (ctx_done s) a (buffer s) (table s) of
        (t, Some err) \<Rightarrow> s\<lparr>table := t\<rparr>
      | (t, None) \<Rightarrow>
          s\<lparr>table := t,
            committed := if offs then commit_records (map Record (buffer s)) (committed s) else committed s,
            buffer := []\<rparr>)"

definition receive :: "db_answers \<Rightarrow> bool \<Rightarrow> ing \<Rightarrow> ing option" where
  "receive a offs s =
     (case recordChan s of
        [] \<Rightarrow> None
      | r # rs \<Rightarrow>
          if worker_done s then None
          else let s' = s\<lparr>recordChan := rs, buffer := buffer s @ [r]\<rparr>
               in Some (if length (buffer s') \<ge> MaxBatchSize then flush a offs s' else s'))"

definition tick :: "db_answers \<Rightarrow> bool \<Rightarrow> ing \<Rightarrow> ing option" where
  "tick a offs s = (if worker_done s then None else Some (flush a offs s))"

text \<open>The worker ends when the context is done, or when the channel is closed and empty.\<close>

definition worker_exit :: "db_answers \<Rightarrow> bool \<Rightarrow> ing \<Rightarrow> ing option" where
  "worker_exit a offs s =
     (if \<not> worker_done s \<and> (ctx_done s \<or> consumer s = Stopped \<and> recordChan s = [])
      then Some ((flush a offs s)\<lparr>worker_done := True\<rparr>) else None)"

text \<open>What the goroutine of \<open>setupGracefulShutdown\<close> does on a signal.\<close>

definition shutdown_signal :: "ing \<Rightarrow> ing" where
  [simp]: "shutdown_signal s = s\<lparr>ctx_done := True\<rparr>"

definition restart :: "ing \<Rightarrow> ing" where
  "restart s =
     s\<lparr>ctx_done := False, position := committed s, consumer := Polling, recordChan := [],
       buffer := [], worker_done := False\<rparr>"

datatype ing_event = Produce nat string | Signal | Poll fetch | Iterate bool | StopLoop
  | Receive db_answers bool | Tick db_answers bool | WorkerExit db_answers bool | Restart

fun ing_step :: "ing_event \<Rightarrow> ing \<Rightarrow> ing option" where
  "ing_step (Produce p v) s = Some (s\<lparr>topic_log := (topic_log s)(p := topic_log s p @ [v])\<rparr>)"
| "ing_step Signal s = Some (shutdown_signal s)"
| "ing_step (Poll f) s = poll f s"
| "ing_step (Iterate g) s = iterate g s"
| "ing_step StopLoop s = stop_loop s"
| "ing_step (Receive a offs) s = receive a offs s"
| "ing_step (Tick a offs) s = tick a offs s"
| "ing_step (WorkerExit a offs) s = worker_exit a offs s"
| "ing_step Restart s = Some (restart s)"

abbreviation ing_run :: "ing_event list \<Rightarrow> ing \<Rightarrow> ing option" where
  "ing_run \<equiv> run_events ing_step"

text \<open>The steps whose events satisfy a restriction.\<close>

abbreviation ing_rel :: "(ing_event \<Rightarrow> bool) \<Rightarrow> ing \<Rightarrow> ing \<Rightarrow> bool" where
  "ing_rel ok \<equiv> event_rel ing_step (\<lambda>e _. ok e)"

text \<open>No fetch brings records and errors together.\<close>

fun no_drop :: "ing_event \<Rightarrow> bool" where
  "no_drop (Poll (Fetches rs errs)) = (errs = 0 \<or> rs = [])"
| "no_drop _ = True"

text \<open>The database refuses to store a payload.\<close>

fun refuses :: "TelemetryPayload \<Rightarrow> ing_event \<Rightarrow> bool" where
  "refuses p (Receive a offs) = (\<forall>i. \<not> exec_ok a i p)"
| "refuses p (Tick a offs) = (\<forall>i. \<not> exec_ok a i p)"
| "refuses p (WorkerExit a offs) = (\<forall>i. \<not> exec_ok a i p)"
| "refuses p _ = True"

section \<open>Parsing\<close>

text \<open>A record for the examples, with the fields of the Go struct only; the rate is given by its literal.\<close>

definition telemetry_json :: "TelemetryPayload \<Rightarrow> string \<Rightarrow> string" where
  "telemetry_json p rate = print_value (VObj
     [(''submission_id'', VStr (SubmissionID p)), (''p50_micros'', VNum (Itoa (P50Micros p))),
      (''p90_micros'', VNum (Itoa (P90Micros p))), (''p99_micros'', VNum (Itoa (P99Micros p))),
      (''total_orders'', VNum (Itoa (TotalOrders p))), (''success_rate'', VNum rate),
      (''timestamp'', VNum (Itoa (Timestamp p)))])"

text \<open>
  The record as the bot fleet sends it: the struct \<open>TelemetryPayload\<close> of
  \<open>services/bot-fleet/src/main.rs\<close>, written by \<open>serde_json\<close> in the order of its fields.
  It has three fields that the ingester does not know. The literal of the rate is an
  argument.
\<close>

record BotTelemetry =
  bt_submission_id :: string
  bt_total_orders :: "64 word"
  bt_successful_orders :: "64 word"
  bt_failed_orders :: "64 word"
  bt_p50_micros :: "64 word"
  bt_p90_micros :: "64 word"
  bt_p99_micros :: "64 word"
  bt_total_time_ms :: "64 word"
  bt_timestamp :: "64 word"

abbreviation json_u64 :: "64 word \<Rightarrow> jval" where
  "json_u64 w \<equiv> VNum (Itoa (uint w))"
abbreviation json_i64 :: "64 word \<Rightarrow> jval" where
  "json_i64 w \<equiv> VNum (Itoa (sint w))"

definition bot_members :: "BotTelemetry \<Rightarrow> string \<Rightarrow> (string \<times> jval) list" where
  "bot_members t rate =
     [(''submission_id'', VStr (bt_submission_id t)), (''total_orders'', json_u64 (bt_total_orders t)),
      (''successful_orders'', json_u64 (bt_successful_orders t)),
      (''failed_orders'', json_u64 (bt_failed_orders t)), (''success_rate'', VNum rate),
      (''p50_micros'', json_u64 (bt_p50_micros t)), (''p90_micros'', json_u64 (bt_p90_micros t)),
      (''p99_micros'', json_u64 (bt_p99_micros t)), (''total_time_ms'', json_i64 (bt_total_time_ms t)),
      (''timestamp'', json_i64 (bt_timestamp t))]"

definition bot_json :: "BotTelemetry \<Rightarrow> string \<Rightarrow> string" where
  "bot_json t rate = print_value (VObj (bot_members t rate))"


abbreviation i64 :: "int \<Rightarrow> bool" where
  "i64 n \<equiv> - (2 ^ 63) \<le> n \<and> n < 2 ^ 63"

definition typed_payload :: "TelemetryPayload \<Rightarrow> bool" where
  "typed_payload p \<longleftrightarrow> i64 (P50Micros p) \<and> i64 (P90Micros p) \<and> i64 (P99Micros p) \<and>
     i64 (TotalOrders p) \<and> i64 (Timestamp p) \<and> is_finite (SuccessRate p)"

lemma telemetry_read_back:
  assumes "typed_payload p" "plain_str (SubmissionID p)" "SubmissionID p \<noteq> ''''"
    and "lex_num rate = Some (rate, [])" "ParseFloat rate = Some (SuccessRate p)"
  shows "parseTelemetryRecord (telemetry_json p rate) = Inr p"
proof -
  let ?kvs = "[(''submission_id'', VStr (SubmissionID p)), (''p50_micros'', VNum (Itoa (P50Micros p))),
      (''p90_micros'', VNum (Itoa (P90Micros p))), (''p99_micros'', VNum (Itoa (P99Micros p))),
      (''total_orders'', VNum (Itoa (TotalOrders p))), (''success_rate'', VNum rate),
      (''timestamp'', VNum (Itoa (Timestamp p)))]"
  have "printable 10000 (VObj ?kvs)" using assms(2,4) by (simp add: lex_num_Itoa plain_str_def plain_utf8)
  then have "json_parse (telemetry_json p rate) = Some (VObj ?kvs)"
    unfolding telemetry_json_def by (rule json_parse_print)
  moreover have "decode_members telemetry_fields ?kvs (zero_payload, None) = (p, None)"
    using assms(1,5)
    by (simp add: telemetry_fields_def find_field_def str_field_def int_field_def float_field_def
        ParseInt_Itoa typed_payload_def zero_payload_def)
  ultimately show ?thesis using assms(3) by (simp add: parseTelemetryRecord_def json_Unmarshal_def)
qed

lemma ParseInt_range: "ParseInt s = Some n \<Longrightarrow> i64 n"
  by (auto simp: ParseInt_def Atoi_def Let_def split: if_splits)

lemma ParseInt_u64: "ParseInt (Itoa (uint (w :: 64 word))) = (if uint w < 2 ^ 63 then Some (uint w) else None)"
proof -
  obtain n where n: "uint w = int n" using nonneg_int_cases [OF uint_nonnegative] by metis
  have "int n < 2 ^ 63 \<longleftrightarrow> n < 2 ^ 63" by (metis of_nat_less_iff of_nat_numeral of_nat_power)
  then show ?thesis unfolding ParseInt_def n Atoi_Itoa by simp
qed

lemma ParseInt_i64: "ParseInt (Itoa (sint (w :: 64 word))) = Some (sint w)"
  using sint_greater_eq [of w] sint_less [of w] by (intro ParseInt_Itoa) simp_all

definition upper_char :: "char \<Rightarrow> char" where
  "upper_char c = (if 97 \<le> (of_char c :: nat) \<and> (of_char c :: nat) < 123 then char_of (of_char c - 32 :: nat) else c)"

lemma fold_key_ascii: "\<forall>c \<in> set s. (of_char c :: nat) < 128 \<Longrightarrow> fold_key s = map upper_char s"
proof (induction s)
  case (Cons c s)
  have c: "c \<noteq> char_of (197 :: nat)" "c \<noteq> char_of (226 :: nat)" using Cons.prems by auto
  have "fold_key s = map upper_char s" using Cons by simp
  with c show ?case by (subst fold_key.simps) (simp add: upper_char_def [of c])
qed (simp add: fold_key.simps)

lemma folded_keys:
  "fold_key ''submission_id'' = ''SUBMISSION_ID''" "fold_key ''p50_micros'' = ''P50_MICROS''"
  "fold_key ''p90_micros'' = ''P90_MICROS''" "fold_key ''p99_micros'' = ''P99_MICROS''"
  "fold_key ''total_orders'' = ''TOTAL_ORDERS''" "fold_key ''success_rate'' = ''SUCCESS_RATE''"
  "fold_key ''timestamp'' = ''TIMESTAMP''" "fold_key ''successful_orders'' = ''SUCCESSFUL_ORDERS''"
  "fold_key ''failed_orders'' = ''FAILED_ORDERS''" "fold_key ''total_time_ms'' = ''TOTAL_TIME_MS''"
  by (subst fold_key_ascii, simp, code_simp)+

lemma unknown_fields:
  "find_field telemetry_fields ''successful_orders'' = None"
  "find_field telemetry_fields ''failed_orders'' = None"
  "find_field telemetry_fields ''total_time_ms'' = None"
  by (simp_all add: telemetry_fields_def find_field_def folded_keys)

lemma known_fields:
  "find_field telemetry_fields ''submission_id'' = Some (str_field (\<lambda>x. SubmissionID_update (\<lambda>_. x)))"
  "find_field telemetry_fields ''p50_micros'' = Some (int_field (\<lambda>x. P50Micros_update (\<lambda>_. x)))"
  "find_field telemetry_fields ''p90_micros'' = Some (int_field (\<lambda>x. P90Micros_update (\<lambda>_. x)))"
  "find_field telemetry_fields ''p99_micros'' = Some (int_field (\<lambda>x. P99Micros_update (\<lambda>_. x)))"
  "find_field telemetry_fields ''total_orders'' = Some (int_field (\<lambda>x. TotalOrders_update (\<lambda>_. x)))"
  "find_field telemetry_fields ''success_rate'' = Some (float_field (\<lambda>x. SuccessRate_update (\<lambda>_. x)))"
  "find_field telemetry_fields ''timestamp'' = Some (int_field (\<lambda>x. Timestamp_update (\<lambda>_. x)))"
  by (simp_all add: telemetry_fields_def find_field_def)

text \<open>The payload that a record of the bot fleet stands for, and the counts that do not fit an \<open>int64\<close>.\<close>

definition payload_of :: "BotTelemetry \<Rightarrow> f64 \<Rightarrow> TelemetryPayload" where
  "payload_of t q =
     \<lparr>SubmissionID = bt_submission_id t, P50Micros = uint (bt_p50_micros t), P90Micros = uint (bt_p90_micros t),
      P99Micros = uint (bt_p99_micros t), TotalOrders = uint (bt_total_orders t), SuccessRate = q,
      Timestamp = sint (bt_timestamp t)\<rparr>"

definition too_big :: "BotTelemetry \<Rightarrow> bool" where
  "too_big t \<longleftrightarrow>
     (\<exists>w \<in> {bt_p50_micros t, bt_p90_micros t, bt_p99_micros t, bt_total_orders t}. 2 ^ 63 \<le> uint w)"

lemma decode_num:
  "int_field upd (json_u64 w) s = (if uint w < 2 ^ 63 then Inr (upd (uint w) s) else Inl type_error)"
  "int_field upd (json_i64 w) s = Inr (upd (sint w) s)"
  by (simp_all add: int_field_def ParseInt_u64 ParseInt_i64)

lemma bot_read_back:
  assumes "utf8 (bt_submission_id t)" "lex_num rate = Some (rate, [])" "ParseFloat rate = Some q"
  shows "parseTelemetryRecord (bot_json t rate) =
    (if too_big t then Inl type_error
     else if bt_submission_id t = '''' then Inl (errors_New ''submission_id missing'')
     else Inr (payload_of t q))"
proof -
  have "utf8 k" if "k \<in> fst ` set (bot_members t rate)" for k
    using that by (auto simp: bot_members_def plain_str_def intro!: plain_utf8)
  then have "printable 10000 (VObj (bot_members t rate))"
    using assms(1,2) by (simp add: bot_members_def lex_num_Itoa)
  then have p: "json_parse (bot_json t rate) = Some (VObj (bot_members t rate))"
    unfolding bot_json_def by (rule json_parse_print)
  have f: "float_field upd (VNum rate) s = Inr (upd q s)" for upd :: "f64 \<Rightarrow> TelemetryPayload \<Rightarrow> TelemetryPayload" and s
    using assms(3) by (simp add: float_field_def)
  have "snd (decode_members telemetry_fields (bot_members t rate) (zero_payload, None))
      = (if too_big t then Some type_error else None)"
    by (simp add: bot_members_def known_fields unknown_fields decode_num f str_field_def too_big_def not_less)
  moreover have "fst (decode_members telemetry_fields (bot_members t rate) (zero_payload, None)) = payload_of t q"
    if "\<not> too_big t"
    using that by (simp add: bot_members_def known_fields unknown_fields decode_num f str_field_def too_big_def
        not_less payload_of_def zero_payload_def)
  ultimately have "json_Unmarshal telemetry_fields (bot_json t rate) zero_payload =
      (if too_big t then Inl type_error else Inr (payload_of t q))"
    by (cases "decode_members telemetry_fields (bot_members t rate) (zero_payload, None)")
      (simp add: json_Unmarshal_def p)
  then show ?thesis by (simp add: parseTelemetryRecord_def payload_of_def)
qed


lemma ParseFloat_finite: "ParseFloat s = Some q \<Longrightarrow> is_finite q"
  by (auto simp: ParseFloat_def is_finite_def split: f64.splits)

lemma field_results:
  "str_field upd v s = Inr t \<Longrightarrow> t = s \<or> (\<exists>x. t = upd x s)"
  "int_field upd2 v s = Inr t \<Longrightarrow> t = s \<or> (\<exists>n. i64 n \<and> t = upd2 n s)"
  "float_field upd3 v s = Inr t \<Longrightarrow> t = s \<or> (\<exists>q. is_finite q \<and> t = upd3 q s)"
proof -
  show "str_field upd v s = Inr t \<Longrightarrow> t = s \<or> (\<exists>x. t = upd x s)"
    by (auto simp: str_field_def split: jval.splits)
  assume "int_field upd2 v s = Inr t"
  then have "t = s \<or> (\<exists>x n. ParseInt x = Some n \<and> t = upd2 n s)"
    by (auto simp: int_field_def split: jval.splits option.splits)
  then show "t = s \<or> (\<exists>n. i64 n \<and> t = upd2 n s)" using ParseInt_range by blast
next
  assume "float_field upd3 v s = Inr t"
  then have "t = s \<or> (\<exists>x q. ParseFloat x = Some q \<and> t = upd3 q s)"
    by (auto simp: float_field_def split: jval.splits option.splits)
  then show "t = s \<or> (\<exists>q. is_finite q \<and> t = upd3 q s)" using ParseFloat_finite by blast
qed

lemma telemetry_decoders:
  assumes "(n, f) \<in> set telemetry_fields" "f v s = Inr t" "typed_payload s"
  shows "typed_payload t"
proof -
  have "f \<in> set (map snd telemetry_fields)" using assms(1) by force
  then show ?thesis using assms(2,3) unfolding telemetry_fields_def list.map set_simps insert_iff
    by (elim disjE) (auto simp: typed_payload_def dest!: field_results)
qed

lemma find_field_in: "find_field fs k = Some f \<Longrightarrow> \<exists>n. (n, f) \<in> set fs"
  by (auto simp: find_field_def split: option.splits dest: map_of_SomeD)
    (metis find_Some_iff nth_mem prod.collapse)

lemma decode_typed:
  "typed_payload s \<Longrightarrow> decode_members telemetry_fields kvs (s, e) = (t, e') \<Longrightarrow> typed_payload t"
proof (induction kvs arbitrary: s e)
  case (Cons kv kvs)
  obtain k v where kv: "kv = (k, v)" by (cases kv)
  have "typed_payload s'" if "find_field telemetry_fields k = Some f" "f v s = Inr s'" for f s'
    using find_field_in [OF that(1)] telemetry_decoders that(2) Cons.prems(1) by blast
  then show ?case using Cons.prems Cons.IH by (auto simp: kv split: option.splits sum.splits)
qed simp

lemma parse_typed:
  assumes "parseTelemetryRecord raw = Inr p"
  shows "typed_payload p \<and> SubmissionID p \<noteq> ''''"
proof -
  have "typed_payload zero_payload" by (simp add: typed_payload_def zero_payload_def is_finite_def)
  with assms show ?thesis
    by (auto simp: parseTelemetryRecord_def json_Unmarshal_def dest: decode_typed
        split: sum.splits if_splits option.splits jval.splits prod.splits)
qed

section \<open>Delivery\<close>

text \<open>
  A record is settled when it is invalid or its payload is in the table. The records in
  flight are those between the fetch position and the table, in the order of the
  pipeline: the worker's buffer, the channel, the rest of the current fetch.
\<close>

definition settled :: "(nat \<Rightarrow> string list) \<Rightarrow> TelemetryPayload list \<Rightarrow> nat \<Rightarrow> nat \<Rightarrow> bool" where
  "settled lg tbl p i =
     (case parseTelemetryRecord (lg p ! i) of Inl _ \<Rightarrow> True | Inr x \<Rightarrow> x \<in> set tbl)"

definition covered ::
  "(nat \<Rightarrow> string list) \<Rightarrow> TelemetryPayload list \<Rightarrow> krec list \<Rightarrow> nat \<Rightarrow> nat \<Rightarrow> bool" where
  "covered lg tbl fl p i \<longleftrightarrow> (\<exists>r \<in> set fl. Partition r = p \<and> Offset r = i) \<or> settled lg tbl p i"

definition in_order :: "krec list \<Rightarrow> bool" where
  "in_order fl \<longleftrightarrow> sorted_wrt (\<lambda>a b. Partition a = Partition b \<longrightarrow> Offset a < Offset b) fl"

definition fetched :: "(nat \<Rightarrow> string list) \<Rightarrow> (nat \<Rightarrow> nat) \<Rightarrow> krec list \<Rightarrow> bool" where
  "fetched lg pos fl \<longleftrightarrow>
     (\<forall>r \<in> set fl. Offset r < pos (Partition r) \<and> Value r = lg (Partition r) ! Offset r)"

definition delivering ::
  "bool \<Rightarrow> (nat \<Rightarrow> string list) \<Rightarrow> (nat \<Rightarrow> nat) \<Rightarrow> TelemetryPayload list \<Rightarrow> (nat \<Rightarrow> nat) \<Rightarrow> krec list \<Rightarrow> bool"
where
  "delivering running lg pos tbl com fl \<longleftrightarrow>
     in_order fl \<and> fetched lg pos fl \<and>
     (\<forall>r \<in> set fl. \<forall>i < Offset r. covered lg tbl fl (Partition r) i) \<and>
     (running \<longrightarrow> (\<forall>p. \<forall>i < pos p. covered lg tbl fl p i)) \<and>
     (\<forall>p. com p \<le> pos p \<and> pos p \<le> length (lg p)) \<and>
     (\<forall>p. \<forall>i < com p. settled lg tbl p i)"

lemma settled_mono: "settled lg tbl p i \<Longrightarrow> set tbl \<subseteq> set tbl' \<Longrightarrow> settled lg tbl' p i"
  by (auto simp: settled_def split: sum.splits)

lemma covered_mono: "covered lg tbl fl p i \<Longrightarrow> set tbl \<subseteq> set tbl' \<Longrightarrow> covered lg tbl' fl p i"
  by (auto simp: covered_def intro: settled_mono)

lemma delivering_table:
  "delivering b lg pos tbl com fl \<Longrightarrow> set tbl \<subseteq> set tbl' \<Longrightarrow> delivering b lg pos tbl' com fl"
  unfolding delivering_def by (blast intro: settled_mono covered_mono)

lemma delivering_log:
  assumes "delivering b lg pos tbl com fl"
  shows "delivering b (lg(p := lg p @ [v])) pos tbl com fl"
proof -
  let ?lg = "lg(p := lg p @ [v])"
  have n: "?lg q ! i = lg q ! i" if "i < pos q" for q i
    using assms that by (auto simp: delivering_def nth_append dest: spec [of _ p])
  then have s: "settled ?lg tbl q i = settled lg tbl q i" if "i < pos q" for q i
    using that by (simp add: settled_def)
  then have c: "covered ?lg tbl fl q i = covered lg tbl fl q i" if "i < pos q" for q i
    using that by (simp add: covered_def)
  have f: "fetched ?lg pos fl" using assms n by (auto simp: delivering_def fetched_def)
  have t: "settled ?lg tbl q i" if "i < com q" for q i
  proof -
    have "i < pos q" using assms that by (auto simp: delivering_def intro: order.strict_trans2)
    then show ?thesis using assms that s by (simp add: delivering_def)
  qed
  have l: "pos q \<le> length (?lg q)" for q
    using assms by (auto simp: delivering_def le_SucI)
  show ?thesis using assms f t c l unfolding delivering_def fetched_def
    by (auto simp del: fun_upd_apply dest: order.strict_trans)
qed

lemma delivering_restart:
  "delivering b lg pos tbl com fl \<Longrightarrow> delivering True lg com tbl com []"
  by (auto simp: delivering_def in_order_def fetched_def covered_def intro: order.trans)

lemma delivering_truncate:
  assumes "delivering b lg pos tbl com (A @ B)"
  shows "delivering False lg pos tbl com A"
proof -
  have "covered lg tbl A (Partition r) i" if "r \<in> set A" "i < Offset r" for r i
  proof -
    have "covered lg tbl (A @ B) (Partition r) i" using assms that by (auto simp: delivering_def)
    moreover have "i \<noteq> Offset s" if "s \<in> set B" "Partition s = Partition r" for s
      using assms that \<open>r \<in> set A\<close> \<open>i < Offset r\<close>
      by (fastforce simp: delivering_def in_order_def sorted_wrt_append)
    ultimately show ?thesis by (auto simp: covered_def)
  qed
  with assms show ?thesis by (auto simp: delivering_def in_order_def fetched_def sorted_wrt_append)
qed

lemma delivering_invalid:
  assumes "delivering b lg pos tbl com (A @ r # B)" "parseTelemetryRecord (Value r) = Inl e"
  shows "delivering b lg pos tbl com (A @ B)"
proof -
  have "settled lg tbl (Partition r) (Offset r)"
    using assms by (simp add: settled_def delivering_def fetched_def)
  then have "covered lg tbl (A @ B) p i" if "covered lg tbl (A @ r # B) p i" for p i
    using that by (auto simp: covered_def)
  with assms(1) show ?thesis
    by (auto simp: delivering_def in_order_def fetched_def sorted_wrt_append)
qed

lemma delivering_poll:
  "delivering True lg pos tbl com fl \<Longrightarrow> take_next lg pos rs = Some pos' \<Longrightarrow>
   delivering True lg pos' tbl com (fl @ rs)"
proof (induction rs arbitrary: pos fl)
  case (Cons r rs)
  let ?p = "Partition r"
  have r: "Offset r = pos ?p" "pos ?p < length (lg ?p)" "Value r = lg ?p ! pos ?p"
    "take_next lg (pos(?p := Suc (pos ?p))) rs = Some pos'"
    using Cons.prems(2) by (auto simp: Let_def split: if_splits)
  have cov: "covered lg tbl (fl @ [r]) p i" if "i < (pos(?p := Suc (pos ?p))) p" for p i
  proof (cases "i < pos p")
    case True
    then have "covered lg tbl fl p i" using Cons.prems(1) by (auto simp: delivering_def)
    then show ?thesis by (auto simp: covered_def)
  next
    case False
    with that have "p = ?p" "i = pos ?p" by (auto split: if_splits)
    then show ?thesis using r(1) by (auto simp: covered_def)
  qed
  have fo: "in_order (fl @ [r])" "fetched lg (pos(?p := Suc (pos ?p))) (fl @ [r])"
    using Cons.prems(1) r by (auto simp: delivering_def in_order_def fetched_def sorted_wrt_append)
  have "delivering True lg (pos(?p := Suc (pos ?p))) tbl com (fl @ [r])"
    unfolding delivering_def
  proof (intro conjI allI impI ballI)
    fix s i assume "s \<in> set (fl @ [r])" "i < Offset s"
    then show "covered lg tbl (fl @ [r]) (Partition s) i"
      using fo(2) by (intro cov) (auto simp: fetched_def)
  next
    fix p show "com p \<le> (pos(?p := Suc (pos ?p))) p" "(pos(?p := Suc (pos ?p))) p \<le> length (lg p)"
      using Cons.prems(1) r(2) by (auto simp: delivering_def le_SucI)
  qed (use fo cov Cons.prems(1) in \<open>auto simp: delivering_def\<close>)
  from Cons.IH [OF this r(4)] show ?case by simp
qed simp

lemma commit_records_cases:
  "commit_records rs c p = c p \<or> (\<exists>r \<in> set rs. Partition r = p \<and> commit_records rs c p = Suc (Offset r))"
proof -
  have "foldr max os 0 \<in> set os" if "os \<noteq> []" for os :: "nat list"
    using that
  proof (induction os)
    case (Cons x xs)
    then show ?case by (cases "xs = []") (auto simp: max_def)
  qed simp
  note m = this [of "map Offset (filter (\<lambda>r. Partition r = p) rs)"]
  show ?thesis
  proof (cases "filter (\<lambda>r. Partition r = p) rs = []")
    case False
    with m obtain r where "r \<in> set rs" "Partition r = p"
      "foldr max (map Offset (filter (\<lambda>r. Partition r = p) rs)) 0 = Offset r" by auto
    with False show ?thesis by (auto simp: commit_records_def Let_def)
  qed (simp add: commit_records_def)
qed

text \<open>A flush: the records at the front of the pipeline are in the table, then committed.\<close>

lemma delivering_flush:
  assumes "delivering b lg pos tbl com (A @ B)"
    and "\<forall>r \<in> set A. \<forall>x. parseTelemetryRecord (Value r) = Inr x \<longrightarrow> x \<in> set tbl"
    and "com' = com \<or> com' = commit_records A com"
  shows "delivering b lg pos tbl com' B"
proof -
  have A: "settled lg tbl (Partition r) (Offset r)" if "r \<in> set A" for r
    using assms(1,2) that by (auto simp: settled_def delivering_def fetched_def split: sum.splits)
  then have cov: "covered lg tbl B p i" if "covered lg tbl (A @ B) p i" for p i
    using that by (auto simp: covered_def)
  have s: "settled lg tbl p i" if i: "i < commit_records A com p" for p i
    using commit_records_cases [of A com p]
  proof (elim disjE bexE conjE)
    assume "commit_records A com p = com p"
    then show ?thesis using i assms(1) by (auto simp: delivering_def)
  next
    fix r assume r: "r \<in> set A" "Partition r = p" "commit_records A com p = Suc (Offset r)"
    have "covered lg tbl (A @ B) p i"
    proof (cases "i < Offset r")
      case True
      then show ?thesis using assms(1) r(1,2) unfolding delivering_def by auto
    next
      case False
      with i r show ?thesis by (auto simp: covered_def less_Suc_eq)
    qed
    moreover have "i \<noteq> Offset s" if "s \<in> set B" "Partition s = p" for s
      using assms(1) r i that by (fastforce simp: delivering_def in_order_def sorted_wrt_append)
    ultimately show ?thesis using A by (auto simp: covered_def)
  qed
  have "commit_records A com p \<le> pos p" for p
    using commit_records_cases [of A com p] assms(1) by (auto simp: delivering_def fetched_def Suc_le_eq)
  then show ?thesis using assms(1,3) cov s
    by (auto simp: delivering_def in_order_def fetched_def sorted_wrt_append)
qed

definition pending :: "ing \<Rightarrow> krec list" where
  "pending s = (case consumer s of Iterating rs \<Rightarrow> rs | _ \<Rightarrow> [])"

definition flight :: "ing \<Rightarrow> krec list" where
  "flight s = map Record (buffer s @ recordChan s) @ pending s"

definition parsed :: "StorageRecord list \<Rightarrow> bool" where
  "parsed srs \<longleftrightarrow> (\<forall>sr \<in> set srs. parseTelemetryRecord (Value (Record sr)) = Inr (Payload sr))"

definition delivery_inv :: "ing \<Rightarrow> bool" where
  "delivery_inv s \<longleftrightarrow>
     parsed (buffer s @ recordChan s) \<and>
     delivering (consumer s \<noteq> Stopped) (topic_log s) (position s) (table s) (committed s) (flight s)"

lemma persistBatch_cases:
  assumes "persistBatch c a rs t = (t', e)"
  shows "t' = t \<or> t' = t @ map Payload rs" and "e = None \<Longrightarrow> t' = t @ map Payload rs \<and> \<not> c"
  using assms by (auto simp: persistBatch_def split: if_splits option.splits)

lemma flush_inv:
  assumes "delivery_inv s"
  shows "delivery_inv (flush a offs s)"
proof (cases "buffer s = []")
  case False
  obtain t e where p: "persistBatch (ctx_done s) a (buffer s) (table s) = (t, e)" by fastforce
  have grow: "set (table s) \<subseteq> set t" using persistBatch_cases(1) [OF p] by auto
  note d = delivering_table [OF _ grow]
  show ?thesis
  proof (cases e)
    case None
    let ?c = "if offs then commit_records (map Record (buffer s)) (committed s) else committed s"
    have "t = table s @ map Payload (buffer s)" using persistBatch_cases(2) [OF p None] by simp
    then have "\<forall>r \<in> set (map Record (buffer s)). \<forall>x. parseTelemetryRecord (Value r) = Inr x \<longrightarrow> x \<in> set t"
      using assms by (auto simp: delivery_inv_def parsed_def)
    then have "delivering (consumer s \<noteq> Stopped) (topic_log s) (position s) t ?c
        (map Record (recordChan s) @ pending s)"
      using assms by (intro delivering_flush [OF d]) (auto simp: delivery_inv_def flight_def)
    then show ?thesis using assms False p None
      by (auto simp: flush_def delivery_inv_def flight_def pending_def parsed_def)
  next
    case (Some err)
    then show ?thesis using assms False p d
      by (auto simp: flush_def delivery_inv_def flight_def pending_def)
  qed
qed (use assms in \<open>simp add: flush_def\<close>)

lemma poll_inv:
  assumes "delivery_inv s" "poll f s = Some t" "no_drop (Poll f)"
  shows "delivery_inv t"
proof (cases f)
  case ClientClosed
  then show ?thesis
    using assms delivering_truncate [of True "topic_log s" "position s" "table s" "committed s" "flight s" "[]"]
    by (auto simp: poll_def delivery_inv_def flight_def pending_def split: if_splits)
next
  case (Fetches rs errs)
  obtain pos where pos: "consumer s = Polling" "take_next (topic_log s) (position s) rs = Some pos"
    "t = s\<lparr>position := pos, consumer := if errs > 0 then Polling else Iterating rs\<rparr>"
    using assms(2) Fetches by (auto simp: poll_def split: if_splits option.splits)
  have "delivering True (topic_log s) pos (table s) (committed s) (flight s @ rs)"
    using assms(1) pos by (intro delivering_poll) (auto simp: delivery_inv_def)
  then show ?thesis using assms(1,3) pos Fetches
    by (auto simp: delivery_inv_def flight_def pending_def)
qed

lemma iterate_inv:
  assumes "delivery_inv s" "iterate g s = Some t"
  shows "delivery_inv t"
proof -
  obtain rs where rs: "consumer s = Iterating rs" using assms(2) by (auto simp: iterate_def split: consumer_pc.splits)
  let ?A = "map Record (buffer s @ recordChan s)"
  have d: "delivering True (topic_log s) (position s) (table s) (committed s) (?A @ rs)"
    using assms(1) rs by (simp add: delivery_inv_def flight_def pending_def)
  show ?thesis
  proof (cases rs)
    case Nil
    then show ?thesis using assms d rs by (auto simp: iterate_def delivery_inv_def flight_def pending_def)
  next
    case (Cons r rs')
    show ?thesis
    proof (cases "parseTelemetryRecord (Value r)")
      case (Inl e)
      then show ?thesis using assms delivering_invalid [OF d [unfolded Cons] Inl] rs Cons
        by (auto simp: iterate_def delivery_inv_def flight_def pending_def)
    next
      case (Inr x)
      then show ?thesis using assms d delivering_truncate [OF d] rs Cons
        by (auto simp: iterate_def delivery_inv_def flight_def pending_def parsed_def split: if_splits)
    qed
  qed
qed

lemma receive_inv:
  assumes "delivery_inv s" "receive a offs s = Some t"
  shows "delivery_inv t"
proof -
  obtain r rs where r: "recordChan s = r # rs" using assms(2) by (cases "recordChan s") (auto simp: receive_def)
  have "delivery_inv (s\<lparr>recordChan := rs, buffer := buffer s @ [r]\<rparr>)"
    using assms(1) r by (auto simp: delivery_inv_def flight_def pending_def parsed_def)
  with flush_inv [OF this] show ?thesis
    using assms(2) r by (auto simp: receive_def Let_def split: if_splits)
qed

lemma delivery_inv_cong:
  assumes "delivery_inv s" "topic_log t = topic_log s" "position t = position s" "table t = table s"
    "committed t = committed s" "buffer t = buffer s" "recordChan t = recordChan s" "consumer t = consumer s"
  shows "delivery_inv t"
  using assms by (simp add: delivery_inv_def flight_def pending_def)

lemma delivery_inv_step:
  assumes "delivery_inv s" "no_drop e" "ing_step e s = Some t"
  shows "delivery_inv t"
proof (cases e)
  case (Produce p v)
  then show ?thesis using assms delivering_log
    by (auto simp: delivery_inv_def flight_def pending_def)
next
  case StopLoop
  then show ?thesis
    using assms delivering_truncate [of True "topic_log s" "position s" "table s" "committed s" "flight s" "[]"]
    by (auto simp: stop_loop_def delivery_inv_def flight_def pending_def split: if_splits)
next
  case (WorkerExit a offs)
  then have "t = (flush a offs s)\<lparr>worker_done := True\<rparr>"
    using assms(3) by (auto simp: worker_exit_def split: if_splits)
  then show ?thesis by (intro delivery_inv_cong [OF flush_inv [OF assms(1)]]) simp_all
next
  case Restart
  then show ?thesis using assms delivering_restart
    by (auto simp: restart_def delivery_inv_def flight_def pending_def parsed_def)
qed (use assms in \<open>auto simp: tick_def intro: poll_inv iterate_inv receive_inv flush_inv
  delivery_inv_cong split: if_splits\<close>)

lemma delivery_inv_init: "delivery_inv ing_init"
  by (simp add: ing_init_def delivery_inv_def flight_def pending_def parsed_def delivering_def
      in_order_def fetched_def)

interpretation delivery: step_system "\<lambda>s. s = ing_init" "ing_rel no_drop" delivery_inv
  by unfold_locales (auto simp: event_rel_def delivery_inv_init intro: delivery_inv_step)

section \<open>Refusals, bounds and traces\<close>

lemma exec_all_refuses:
  "\<forall>j. \<not> exec_ok a j x \<Longrightarrow> x \<in> Payload ` set rs \<Longrightarrow> exec_all a i rs \<noteq> None"
  by (induction rs arbitrary: i) auto

lemma persistBatch_refuses:
  assumes "\<forall>j. \<not> exec_ok a j x" "persistBatch c a rs t = (t', e)" "x \<notin> set t"
  shows "x \<notin> set t'"
  using assms(2,3) exec_all_refuses [OF assms(1), of rs 0]
  by (auto simp: persistBatch_def split: if_splits option.splits)

lemma flush_refuses:
  "\<forall>j. \<not> exec_ok a j x \<Longrightarrow> x \<notin> set (table s) \<Longrightarrow> x \<notin> set (table (flush a offs s))"
  by (auto simp: flush_def split: prod.splits option.splits dest: persistBatch_refuses)

text \<open>The consumer leaves the table, the commits and the context alone.\<close>

lemma consumer_frame:
  "poll f s = Some t \<Longrightarrow> table t = table s \<and> committed t = committed s \<and> ctx_done t = ctx_done s \<and> buffer t = buffer s"
  "iterate g s = Some t \<Longrightarrow> table t = table s \<and> committed t = committed s \<and> ctx_done t = ctx_done s \<and> buffer t = buffer s"
  "stop_loop s = Some t \<Longrightarrow> table t = table s \<and> committed t = committed s \<and> ctx_done t = ctx_done s \<and> buffer t = buffer s"
  by (auto simp: poll_def split: if_splits fetch.splits option.splits)
    (auto simp: iterate_def stop_loop_def split: if_splits consumer_pc.splits list.splits sum.splits)

lemma refusal_step:
  assumes "x \<notin> set (table s)" "refuses x e" "ing_step e s = Some t"
  shows "x \<notin> set (table t)"
proof (cases e)
  case (Receive a offs)
  then show ?thesis using assms flush_refuses [of a x]
    by (auto simp: receive_def Let_def split: list.splits if_splits)
next
  case (Tick a offs)
  then show ?thesis using assms flush_refuses [of a x s offs] by (auto simp: tick_def split: if_splits)
next
  case (WorkerExit a offs)
  then show ?thesis using assms flush_refuses [of a x s offs] by (auto simp: worker_exit_def split: if_splits)
qed (use assms in \<open>auto simp: restart_def dest: consumer_frame\<close>)

interpretation refusal: step_system "\<lambda>s. s = ing_init" "ing_rel (refuses x)" "\<lambda>s. x \<notin> set (table s)" for x
  unfolding event_rel_def by unfold_locales (auto simp: ing_init_def dest: refusal_step)

abbreviation ing_reaches :: "(ing_event \<Rightarrow> bool) \<Rightarrow> ing \<Rightarrow> bool" where
  "ing_reaches ok s \<equiv> (ing_rel ok)\<^sup>*\<^sup>* ing_init s"

lemma ing_reaches_mono: "ing_reaches ok s \<Longrightarrow> (\<And>e. ok e \<Longrightarrow> ok' e) \<Longrightarrow> ing_reaches ok' s"
  by (erule rtranclp_mono [THEN predicate2D, rotated]) (fastforce simp: event_rel_def)

definition demo_payload :: TelemetryPayload where
  "demo_payload =
     \<lparr>SubmissionID = ''sub-a'', P50Micros = 40, P90Micros = 90, P99Micros = 180, TotalOrders = 1000,
      SuccessRate = Fin 1, Timestamp = 1700000000\<rparr>"

abbreviation demo_text :: string where
  "demo_text \<equiv> telemetry_json demo_payload ''1''"

lemma float_1: "lex_num ''1'' = Some (''1'', [])" "ParseFloat ''1'' = Some (Fin 1)"
proof -
  show "lex_num ''1'' = Some (''1'', [])"
    by (simp add: lex_num_def lex_int_def lex_frac_def lex_exp_def HasPrefix_def is_digit_def digit_val_def)
  have "num_value ''1'' = of_int 1" by (simp add: num_value_def HasPrefix_def digit_val_def)
  then show "ParseFloat ''1'' = Some (Fin 1)" using f64_round_int [of 1] by (simp add: ParseFloat_def)
qed

lemma demo_parse: "parseTelemetryRecord demo_text = Inr demo_payload"
  by (rule telemetry_read_back)
    (simp_all add: demo_payload_def typed_payload_def is_finite_def plain_str_def float_1)

definition db_up :: db_answers where
  "db_up = \<lparr>begin_ok = True, prepare_ok = True, exec_ok = (\<lambda>_ _. True), commit_ok = True, commit_applied = True\<rparr>"

definition db_refusing :: "TelemetryPayload \<Rightarrow> db_answers" where
  "db_refusing x = db_up\<lparr>exec_ok := (\<lambda>_ y. y \<noteq> x)\<rparr>"

definition demo_trace :: "db_answers \<Rightarrow> ing_event list" where
  "demo_trace a =
     [Produce 0 demo_text, Poll (Fetches [\<lparr>Partition = 0, Offset = 0, Value = demo_text\<rparr>] 0), Iterate False,
      Receive a True, Tick a True]"

lemma demo_run:
  obtains s where "ing_run (demo_trace db_up) ing_init = Some s" "committed s 0 = 1" "topic_log s 0 = [demo_text]"
  by (simp add: demo_trace_def poll_def iterate_def receive_def tick_def flush_def persistBatch_def ing_init_def
      db_up_def demo_parse chan_cap_def MaxBatchSize_def commit_records_def Let_def)

section \<open>Properties\<close>

lemma committed_settled:
  "ing_reaches no_drop s \<Longrightarrow> i < committed s p \<Longrightarrow> settled (topic_log s) (table s) p i"
  using delivery.inv_reachable [OF refl, of s] by (simp add: delivery_inv_def delivering_def)





text \<open>
  C39. The restriction of the delivery theorem is needed: when a fetch brings a valid
  record together with an error of another partition, the record is dropped, and the next
  commit of its partition passes over it. The record is lost.
\<close>

theorem fetch_error_loses:
  assumes "parseTelemetryRecord v = Inr x" "parseTelemetryRecord w = Inr y" "x \<noteq> y"
  shows "\<exists>s. ing_reaches (\<lambda>_. True) s \<and> topic_log s 0 ! 0 = v \<and> 0 < committed s 0 \<and> x \<notin> set (table s)"
proof -
  let ?es = "[Produce 0 v, Produce 0 w, Poll (Fetches [\<lparr>Partition = 0, Offset = 0, Value = v\<rparr>] 1),
    Poll (Fetches [\<lparr>Partition = 0, Offset = 1, Value = w\<rparr>] 0), Iterate False, Receive db_up True,
    Tick db_up True]"
  obtain s where s: "ing_run ?es ing_init = Some s" "topic_log s 0 = [v, w]" "committed s 0 = 2" "table s = [y]"
    using assms(2)
    by (simp add: poll_def iterate_def receive_def tick_def flush_def persistBatch_def ing_init_def
        db_up_def chan_cap_def MaxBatchSize_def commit_records_def Let_def)
  have "ing_reaches (\<lambda>_. True) s" by (rule run_reaches [OF _ s(1)]) simp
  with s assms(3) show ?thesis by (intro exI [of _ s]) simp
qed

definition demo_payload2 :: TelemetryPayload where
  "demo_payload2 = demo_payload\<lparr>SubmissionID := ''sub-b''\<rparr>"

theorem fetch_error_loses_witness:
  "\<exists>s. ing_reaches (\<lambda>_. True) s \<and> topic_log s 0 ! 0 = demo_text \<and> 0 < committed s 0 \<and>
    demo_payload \<notin> set (table s)"
proof (rule fetch_error_loses [OF demo_parse])
  show "parseTelemetryRecord (telemetry_json demo_payload2 ''1'') = Inr demo_payload2"
    by (rule telemetry_read_back)
      (simp_all add: demo_payload2_def demo_payload_def typed_payload_def is_finite_def plain_str_def float_1)
qed (simp add: demo_payload_def demo_payload2_def)

text \<open>
  C40. After the shutdown signal nothing more is stored or committed until a restart: the
  final flush of the worker runs with the cancelled context, so what is in the buffer and
  the channel waits for redelivery.
\<close>

theorem shutdown_freezes:
  assumes "ctx_done s" "Restart \<notin> set es" "ing_run es s = Some t"
  shows "table t = table s \<and> committed t = committed s"
  using assms
proof (induction es arbitrary: s)
  case (Cons e es)
  then obtain u where u: "ing_step e s = Some u" "ing_run es u = Some t" by (auto split: option.splits)
  have flush: "flush a offs s' = s'" if "ctx_done s'" for a offs s'
    using that by (simp add: flush_def persistBatch_def)
  have "table u = table s \<and> committed u = committed s \<and> ctx_done u"
    using u(1) Cons.prems(1,2)
    by (cases e) (auto simp: receive_def tick_def worker_exit_def flush Let_def split: list.splits if_splits
        dest: consumer_frame)
  with Cons.IH [of u] u(2) Cons.prems(2) show ?case by simp
qed simp

theorem shutdown_freezes_witness:
  "\<exists>t. ing_run [Tick db_up True, WorkerExit db_up True] (ing_init\<lparr>ctx_done := True, buffer :=
      [\<lparr>Payload = demo_payload, Record = \<lparr>Partition = 0, Offset = 0, Value = demo_text\<rparr>\<rparr>]\<rparr>) = Some t \<and>
    table t = []"
proof -
  let ?s = "ing_init\<lparr>ctx_done := True, buffer :=
      [\<lparr>Payload = demo_payload, Record = \<lparr>Partition = 0, Offset = 0, Value = demo_text\<rparr>\<rparr>]\<rparr>"
  obtain t where t: "ing_run [Tick db_up True, WorkerExit db_up True] ?s = Some t"
    by (simp add: tick_def worker_exit_def flush_def persistBatch_def ing_init_def)
  from shutdown_freezes [OF _ _ this] t show ?thesis by (simp add: ing_init_def)
qed


text \<open>An id with a quote, a backslash, a newline and a letter outside ASCII.\<close>

definition demo_bot :: BotTelemetry where
  "demo_bot =
     \<lparr>bt_submission_id = [CHR ''a'', CHR 0x22, CHR 0x5C, CHR 0x0A, CHR 0xC3, CHR 0xA9], bt_total_orders = 1000,
      bt_successful_orders = 1000, bt_failed_orders = 0, bt_p50_micros = 40, bt_p90_micros = 90,
      bt_p99_micros = 180, bt_total_time_ms = 5, bt_timestamp = 1700000000\<rparr>"

lemma demo_bot_utf8: "utf8 (bt_submission_id demo_bot)"
proof -
  have "utf8 ([CHR 0xC3, CHR 0xA9] @ [])" by (rule utf8.intros(3)) (simp_all add: utf8.intros(1))
  then show ?thesis by (auto simp: demo_bot_def intro!: utf8.intros(2))
qed



text \<open>What the worker holds and what it has stored has the types of the table's columns.\<close>

definition storable :: "TelemetryPayload \<Rightarrow> bool" where
  "storable x \<longleftrightarrow> typed_payload x \<and> SubmissionID x \<noteq> ''''"

definition storable_inv :: "ing \<Rightarrow> bool" where
  "storable_inv s \<longleftrightarrow> list_all storable (table s) \<and> list_all storable (map Payload (buffer s @ recordChan s))"

lemma flush_storable: "storable_inv s \<Longrightarrow> storable_inv (flush a offs s)"
  by (auto simp: flush_def storable_inv_def split: prod.splits option.splits dest!: persistBatch_cases(1))

lemma iterate_storable:
  "storable_inv s \<Longrightarrow> iterate g s = Some t \<Longrightarrow> storable_inv t"
  by (auto simp: iterate_def storable_inv_def storable_def dest: parse_typed
      split: if_splits consumer_pc.splits list.splits sum.splits)

lemma poll_storable: "storable_inv s \<Longrightarrow> poll f s = Some t \<Longrightarrow> storable_inv t"
  by (auto simp: poll_def storable_inv_def split: if_splits fetch.splits option.splits)

lemma storable_step:
  assumes "storable_inv s" "ing_step e s = Some t"
  shows "storable_inv t"
proof (cases e)
  case (Receive a offs)
  obtain r rs where r: "recordChan s = r # rs" "storable (Payload r)"
    using Receive assms by (auto simp: receive_def storable_inv_def split: list.splits)
  then have "storable_inv (s\<lparr>recordChan := rs, buffer := buffer s @ [r]\<rparr>)"
    using assms(1) by (simp add: storable_inv_def)
  with flush_storable [OF this] assms(2) Receive r show ?thesis
    by (auto simp: receive_def Let_def split: if_splits)
next
  case (WorkerExit a offs)
  with assms flush_storable [of s a offs] show ?thesis
    by (auto simp: worker_exit_def storable_inv_def split: if_splits)
next
  case StopLoop
  with assms show ?thesis by (auto simp: stop_loop_def storable_inv_def split: if_splits)
next
  case (Tick a offs)
  with assms flush_storable [of s a offs] show ?thesis by (auto simp: tick_def split: if_splits)
next
  case (Poll f)
  with assms show ?thesis using poll_storable by simp
next
  case (Iterate g)
  with assms show ?thesis using iterate_storable by simp
qed (use assms in \<open>auto simp: storable_inv_def restart_def\<close>)

lemma storable_init: "storable_inv ing_init"
  by (simp add: ing_init_def storable_inv_def)

interpretation stored: step_system "\<lambda>s. s = ing_init" "ing_rel ok" storable_inv for ok
  unfolding event_rel_def by unfold_locales (auto simp: storable_init intro: storable_step)

text \<open>
  C25. Every row ever stored fits the columns of the table: a submission id, 64-bit
  integers, and a success rate that is a finite number. No input can put a NaN or an
  infinity into the table.
\<close>

theorem stored_rows_typed:
  assumes "ing_reaches (\<lambda>_. True) s" "x \<in> set (table s)"
  shows "SubmissionID x \<noteq> '''' \<and> i64 (P50Micros x) \<and> i64 (P90Micros x) \<and> i64 (P99Micros x) \<and>
    i64 (TotalOrders x) \<and> i64 (Timestamp x) \<and> is_finite (SuccessRate x)"
  using stored.inv_reachable [OF refl assms(1)] assms(2)
  by (auto simp: storable_inv_def storable_def typed_payload_def list_all_iff)

theorem stored_rows_typed_witness:
  "\<exists>s. ing_run (demo_trace db_up) ing_init = Some s \<and> (\<forall>x \<in> set (table s). is_finite (SuccessRate x))"
proof -
  obtain s where s: "ing_run (demo_trace db_up) ing_init = Some s" by (rule demo_run)
  have "ing_reaches (\<lambda>_. True) s" by (rule run_reaches [OF _ s]) (simp add: demo_trace_def)
  from stored_rows_typed [OF this] s show ?thesis by blast
qed

text \<open>The database takes every batch, and nobody signals.\<close>

fun healthy_ev :: "ing_event \<Rightarrow> bool" where
  "healthy_ev Signal = False"
| "healthy_ev (Receive a offs) = (a = db_up)"
| "healthy_ev (Tick a offs) = (a = db_up)"
| "healthy_ev (WorkerExit a offs) = (a = db_up)"
| "healthy_ev _ = True"

lemma exec_all_up: "exec_all db_up i rs = None"
  by (induction rs arbitrary: i) (auto simp: db_up_def)

lemma flush_up: "\<not> ctx_done s \<Longrightarrow> buffer (flush db_up offs s) = [] \<and>
    recordChan (flush db_up offs s) = recordChan s \<and> ctx_done (flush db_up offs s) = ctx_done s"
  by (simp add: flush_def persistBatch_def exec_all_up) (simp add: db_up_def)

definition bounded :: "ing \<Rightarrow> bool" where
  "bounded s \<longleftrightarrow> \<not> ctx_done s \<and> length (recordChan s) \<le> chan_cap \<and> length (buffer s) < MaxBatchSize"

lemma bounded_step:
  assumes "bounded s" "healthy_ev e" "ing_step e s = Some t"
  shows "bounded t"
proof (cases e)
  case (Receive a offs)
  then show ?thesis using assms flush_up
    by (auto simp: receive_def bounded_def Let_def MaxBatchSize_def split: list.splits if_splits)
next
  case (Tick a offs)
  then show ?thesis using assms flush_up [of s offs]
    by (auto simp: tick_def bounded_def MaxBatchSize_def split: if_splits)
next
  case (WorkerExit a offs)
  then show ?thesis using assms flush_up [of s offs]
    by (auto simp: worker_exit_def bounded_def MaxBatchSize_def split: if_splits)
next
  case (Iterate g)
  then show ?thesis using assms
    by (auto simp: iterate_def bounded_def split: if_splits consumer_pc.splits list.splits sum.splits)
qed (use assms in \<open>auto simp: poll_def stop_loop_def restart_def bounded_def MaxBatchSize_def
  split: if_splits fetch.splits option.splits\<close>)

lemma bounded_init: "bounded ing_init"
  by (simp add: ing_init_def bounded_def MaxBatchSize_def)

interpretation bounds: step_system "\<lambda>s. s = ing_init" "ing_rel healthy_ev" bounded
  unfolding event_rel_def by unfold_locales (auto simp: bounded_init intro: bounded_step)

text \<open>
  C27. While the database takes the batches, the worker never holds more than 499 records
  between two turns, and the channel never more than its capacity.
\<close>

theorem buffer_bounded:
  assumes "ing_reaches healthy_ev s"
  shows "length (buffer s) < 500 \<and> length (recordChan s) \<le> 10000"
  using bounds.inv_reachable [OF refl assms] by (simp add: bounded_def MaxBatchSize_def chan_cap_def)

theorem buffer_bounded_witness:
  "\<exists>s. ing_run (demo_trace db_up) ing_init = Some s \<and> length (buffer s) < 500 \<and> length (recordChan s) \<le> 10000"
proof -
  obtain s where s: "ing_run (demo_trace db_up) ing_init = Some s" by (rule demo_run)
  have "ing_reaches healthy_ev s" by (rule run_reaches [OF _ s]) (simp add: demo_trace_def)
  from buffer_bounded [OF this] s show ?thesis by blast
qed

text \<open>One record more in the buffer while the database is down.\<close>

definition idle_with :: "nat \<Rightarrow> ing \<Rightarrow> bool" where
  "idle_with n s \<longleftrightarrow> length (buffer s) = n \<and> consumer s = Polling \<and> recordChan s = [] \<and> \<not> worker_done s \<and>
     position s 0 = length (topic_log s 0)"

lemma flush_down: "flush (db_up\<lparr>begin_ok := False\<rparr>) offs s = s"
  by (simp add: flush_def persistBatch_def db_up_def)

lemma idle_grow:
  assumes "idle_with n s"
  shows "\<exists>t. (ing_rel (\<lambda>_. True))\<^sup>*\<^sup>* s t \<and> idle_with (Suc n) t"
proof -
  let ?r = "\<lparr>Partition = 0, Offset = position s 0, Value = demo_text\<rparr>"
  let ?es = "[Produce 0 demo_text, Poll (Fetches [?r] 0), Iterate False, Iterate False,
    Receive (db_up\<lparr>begin_ok := False\<rparr>) True]"
  obtain t where t: "ing_run ?es s = Some t" "idle_with (Suc n) t"
    using assms
    by (simp add: idle_with_def poll_def iterate_def receive_def demo_parse flush_down chan_cap_def Let_def)
  have "(ing_rel (\<lambda>_. True))\<^sup>*\<^sup>* s t" by (rule run_reaches [OF _ t(1)]) simp
  with t(2) show ?thesis by blast
qed

text \<open>
  While the database is down the worker keeps receiving and its buffer grows without
  bound: the channel's capacity is no limit on the memory of the process.
\<close>

theorem buffer_unbounded: "\<exists>s. ing_reaches (\<lambda>_. True) s \<and> length (buffer s) = n"
proof -
  have "\<exists>s. ing_reaches (\<lambda>_. True) s \<and> idle_with n s"
  proof (induction n)
    case 0
    have "idle_with 0 ing_init" by (simp add: idle_with_def ing_init_def)
    then show ?case by blast
  next
    case (Suc n)
    then obtain s where "ing_reaches (\<lambda>_. True) s" "idle_with n s" by blast
    with idle_grow [of n s] show ?case by (meson rtranclp_trans)
  qed
  then show ?thesis by (auto simp: idle_with_def)
qed

end
