(* ===== verification/Scoring.thy ===== *)
theory Scoring
  imports Float64
begin

text \<open>
  The composite score: \<open>calculateScore\<close> of \<open>services/submission-api/main.go\<close>
  (the value written to \<open>benchmark_jobs\<close>) and of \<open>services/leaderboard/main.go\<close>
  (the value the rankings are computed from), with \<open>roundFloat\<close>. Latencies are
  \<open>int64\<close> values, here \<^typ>\<open>int\<close>: they are only compared and converted.
  The lemmas bound every component and carry monotonicity through the rounding of
  each operation.
\<close>

section \<open>Definitions\<close>

abbreviation int64_ok :: "int \<Rightarrow> bool" where
  "int64_ok n \<equiv> - (2 ^ 63) \<le> n \<and> n < 2 ^ 63"

text \<open>\<open>if x > 100.0 { x = 100.0 }\<close>\<close>

definition clamp100 :: "f64 \<Rightarrow> f64" where
  "clamp100 x = (if f64_gt x (Fin 100) then Fin 100 else x)"

text \<open>\<open>(ref / float64(p99Micros)) * 100.0\<close>, clamped: latency with 400, throughput with 600.\<close>

definition ratio_score :: "f64 \<Rightarrow> f64 \<Rightarrow> f64" where
  "ratio_score ref p99 = clamp100 (f64_mul (f64_div ref p99) (Fin 100))"

text \<open>The weighted sum; the untyped constants \<open>0.40\<close>, \<open>0.30\<close>, ... round to \<open>float64\<close>.\<close>

definition weight :: "int \<Rightarrow> f64" where
  "weight percent = f64_round (of_int percent / 100)"

definition weighted_sum :: "f64 \<Rightarrow> f64 \<Rightarrow> f64 \<Rightarrow> f64 \<Rightarrow> f64" where
  "weighted_sum latencyScore tpsScore correctnessScore stabilityScore =
     f64_add (f64_add (f64_add
       (f64_mul (weight 40) latencyScore)
       (f64_mul (weight 30) tpsScore))
       (f64_mul (weight 20) correctnessScore))
       (f64_mul (weight 10) stabilityScore)"

definition roundFloat :: "f64 \<Rightarrow> int \<Rightarrow> f64" where
  "roundFloat value precision =
     (let ratio = math_Pow10 precision in f64_div (math_Round (f64_mul value ratio)) ratio)"

text \<open>\<open>submission-api\<close>\<close>

definition sub_calculateScore :: "int \<Rightarrow> int \<Rightarrow> f64 \<Rightarrow> f64" where
  "sub_calculateScore p50Micros p99Micros successRate =
     (if p99Micros \<le> 0 \<or> p50Micros \<le> 0 then Fin 0
      else let
        latencyScore = ratio_score (Fin 400) (f64_of_int p99Micros);
        tpsScore = ratio_score (Fin 600) (f64_of_int p99Micros);
        correctnessScore = f64_mul successRate (Fin 100);
        stabilityScore = ratio_score (f64_of_int p50Micros) (f64_of_int p99Micros);
        score = weighted_sum latencyScore tpsScore correctnessScore stabilityScore
      in f64_div (math_Round (f64_mul score (Fin 100))) (Fin 100))"

text \<open>\<open>leaderboard\<close>\<close>

definition lb_calculateScore :: "int \<Rightarrow> int \<Rightarrow> f64 \<Rightarrow> f64" where
  "lb_calculateScore p50Micros p99Micros successRate =
     (if p99Micros \<le> 0 \<or> p50Micros \<le> 0 then Fin 0
      else let
        latencyScore = ratio_score (Fin 400) (f64_of_int p99Micros);
        tpsScore = ratio_score (Fin 600) (f64_of_int p99Micros);
        correctnessScore = f64_mul successRate (Fin 100);
        stabilityScore = ratio_score (f64_of_int p50Micros) (f64_of_int p99Micros);
        score = weighted_sum latencyScore tpsScore correctnessScore stabilityScore
      in roundFloat score 2)"

section \<open>Bounds and monotonicity\<close>

named_theorems weight_consts \<open>the rounded weights and their products with 100\<close>

lemma pow10_2 [weight_consts]: "math_Pow10 2 = Fin 100"
  using f64_round_int [of 100] by (simp add: math_Pow10_def)

lemma lit40: "f64_round (40 / 100) = Fin (7205759403792794 * 2 powi (-54))"
  using rnd_eval [of "-54" "40 / 100" 7205759403792794] by (intro f64_round_eval) simp_all

lemma w40 [weight_consts]: "f64_mul (weight 40) (Fin 100) = Fin 40"
  unfolding weight_def of_int_numeral lit40 f64_mul.simps
  using rnd_eval [of "-47" "7205759403792794 * 2 powi (-54) * 100" 5629499534213120] by (intro f64_round_eval) simp_all

lemma lit30: "f64_round (30 / 100) = Fin (5404319552844595 * 2 powi (-54))"
  using rnd_eval [of "-54" "30 / 100" 5404319552844595] by (intro f64_round_eval) simp_all

lemma w30 [weight_consts]: "f64_mul (weight 30) (Fin 100) = Fin 30"
  unfolding weight_def of_int_numeral lit30 f64_mul.simps
  using rnd_eval [of "-48" "5404319552844595 * 2 powi (-54) * 100" 8444249301319680] by (intro f64_round_eval) simp_all

lemma lit20: "f64_round (20 / 100) = Fin (7205759403792794 * 2 powi (-55))"
  using rnd_eval [of "-55" "20 / 100" 7205759403792794] by (intro f64_round_eval) simp_all

lemma w20 [weight_consts]: "f64_mul (weight 20) (Fin 100) = Fin 20"
  unfolding weight_def of_int_numeral lit20 f64_mul.simps
  using rnd_eval [of "-48" "7205759403792794 * 2 powi (-55) * 100" 5629499534213120] by (intro f64_round_eval) simp_all

lemma lit10: "f64_round (10 / 100) = Fin (7205759403792794 * 2 powi (-56))"
  using rnd_eval [of "-56" "10 / 100" 7205759403792794] by (intro f64_round_eval) simp_all

lemma w10 [weight_consts]: "f64_mul (weight 10) (Fin 100) = Fin 10"
  unfolding weight_def of_int_numeral lit10 f64_mul.simps
  using rnd_eval [of "-49" "7205759403792794 * 2 powi (-56) * 100" 5629499534213120] by (intro f64_round_eval) simp_all

text \<open>Every weight is a non-negative finite number.\<close>

lemma weight_fin:
  assumes "w \<in> {10, 20, 30, 40}"
  shows "Fin 0 \<le> weight w" and "weight w \<le> Fin 1"
  using assms f64_round_int_bounds(1) [of 0 "of_int w / 100"] f64_round_int_bounds(2) [of "of_int w / 100" 1]
  by (auto simp: weight_def)

lemma clamp100_mono: "a \<noteq> FNaN \<Longrightarrow> b \<noteq> FNaN \<Longrightarrow> a \<le> b \<Longrightarrow> clamp100 a \<le> clamp100 b"
  by (cases a; cases b) (auto simp: clamp100_def less_eq_f64_def)

lemma clamp100_le: "clamp100 x \<le> Fin 100"
  by (cases x) (auto simp: clamp100_def less_eq_f64_def)

lemma clamp100_ge: "Fin 0 \<le> x \<Longrightarrow> Fin 0 \<le> clamp100 x"
  by (cases x) (auto simp: clamp100_def less_eq_f64_def)

lemma ge_fin_not_nan: "Fin a \<le> x \<Longrightarrow> x \<noteq> FNaN"
  by (auto simp: less_eq_f64_def)

text \<open>
  The operands of the ratios: \<open>float64\<close> of a positive \<open>int64\<close> lies between 1 and
  \<open>2 ^ 63\<close>, so no ratio overflows.
\<close>

abbreviation pos64 :: "f64 \<Rightarrow> bool" where
  "pos64 x \<equiv> Fin 1 \<le> x \<and> x \<le> Fin (2 ^ 63)"

lemma pos64_of_int: "0 < n \<Longrightarrow> n < 2 ^ 63 \<Longrightarrow> pos64 (f64_of_int n)"
  using f64_of_int_pos [of n] f64_of_int64_bound [of n] by simp

lemma f64_round_pow2_bound:
  assumes "q \<le> 2 powi k" "0 \<le> k" "k < 1024"
  shows "f64_round q \<le> Fin (2 powi k)"
proof -
  have "f64_round (2 powi k) = Fin (2 powi k)"
    using assms(2,3) powi_less_iff [of k 1024]
    by (subst f64_round_fin) (auto simp: rnd_pow2)
  then show ?thesis using f64_round_mono [OF assms(1)] by simp
qed

lemma ratio_bounds:
  assumes "Fin 1 \<le> r" "r \<le> Fin (2 ^ 63)" "pos64 p"
  shows "Fin 0 \<le> f64_div r p" and "f64_div r p \<le> Fin (2 ^ 63)"
    and "Fin 0 \<le> f64_mul (f64_div r p) (Fin 100)"
    and "f64_mul (f64_div r p) (Fin 100) \<le> Fin (2 ^ 70)"
proof -
  obtain a where a: "r = Fin a" "1 \<le> a" "a \<le> 2 ^ 63" using assms f64_between by blast
  obtain b where b: "p = Fin b" "1 \<le> b" "b \<le> 2 ^ 63" using assms f64_between by blast
  have "a / b \<le> 2 ^ 63 / 1" using a b by (intro frac_le) auto
  then have q: "0 \<le> a / b" "a / b \<le> 2 ^ 63" using a b by auto
  show d: "Fin 0 \<le> f64_div r p" "f64_div r p \<le> Fin (2 ^ 63)"
    using a b q f64_round_int_bounds(1) [of 0 "a / b"] f64_round_pow2_bound [of "a / b" 63] by auto
  then obtain c where c: "f64_div r p = Fin c" "0 \<le> c" "c \<le> 2 ^ 63" using f64_between by blast
  have "c * 100 \<le> 2 ^ 63 * 2 ^ 7" using c by (intro mult_mono) auto
  then show "Fin 0 \<le> f64_mul (f64_div r p) (Fin 100)"
    "f64_mul (f64_div r p) (Fin 100) \<le> Fin (2 ^ 70)"
    using c f64_round_int_bounds(1) [of 0 "c * 100"] f64_round_pow2_bound [of "c * 100" 70] by auto
qed

lemma ratio_score_bounds:
  assumes "Fin 1 \<le> r" "r \<le> Fin (2 ^ 63)" "pos64 p"
  shows "Fin 0 \<le> ratio_score r p" and "ratio_score r p \<le> Fin 100"
  using ratio_bounds(3) [OF assms] by (simp_all add: ratio_score_def clamp100_ge clamp100_le)

lemma ratio_score_mono:
  assumes "Fin 1 \<le> r" "r \<le> r'" "r' \<le> Fin (2 ^ 63)" "pos64 p" "pos64 p'" "p' \<le> p"
  shows "ratio_score r p \<le> ratio_score r' p'"
proof -
  have r: "Fin 1 \<le> r'" "r \<le> Fin (2 ^ 63)" using assms by auto
  have "Fin 0 \<le> r" using assms(1) order_trans [of "Fin 0" "Fin 1" r] by simp
  then have "f64_div r p \<le> f64_div r' p'"
    using assms by (intro f64_div_mono [of r r' "2 ^ 63" p' p "2 ^ 63"]) auto
  then have "f64_mul (f64_div r p) (Fin 100) \<le> f64_mul (f64_div r' p') (Fin 100)"
    using ratio_bounds [of r' p'] ratio_bounds [of r p] assms r
    by (intro f64_mul_mono [of _ _ "2 ^ 63" _ _ 100]) auto
  moreover have "f64_mul (f64_div r p) (Fin 100) \<noteq> FNaN" "f64_mul (f64_div r' p') (Fin 100) \<noteq> FNaN"
    using ratio_bounds(3) [of r p] ratio_bounds(3) [of r' p'] assms r by (auto dest: ge_fin_not_nan)
  ultimately show ?thesis unfolding ratio_score_def by (intro clamp100_mono)
qed

abbreviation pct :: "f64 \<Rightarrow> bool" where
  "pct x \<equiv> Fin 0 \<le> x \<and> x \<le> Fin 100"

lemma weighted_part:
  assumes "w \<in> {10, 20, 30, 40}" "pct a" "pct a'" "a \<le> a'"
  shows "f64_mul (weight w) a \<le> f64_mul (weight w) a'"
    and "Fin 0 \<le> f64_mul (weight w) a"
    and "f64_mul (weight w) a' \<le> Fin (of_int w)"
proof -
  note w = weight_fin [OF assms(1)]
  show "f64_mul (weight w) a \<le> f64_mul (weight w) a'"
    using assms w by (intro f64_mul_mono [of _ _ 1 _ _ 100]) auto
  have "f64_mul (weight w) (Fin 0) \<le> f64_mul (weight w) a"
    using assms w by (intro f64_mul_mono [of _ _ 1 _ _ 100]) auto
  moreover have "f64_mul (weight w) (Fin 0) = Fin 0"
    using w f64_between [of 0 "weight w" 1] f64_round_int [of 0] by force
  ultimately show "Fin 0 \<le> f64_mul (weight w) a" by simp
  have "f64_mul (weight w) a' \<le> f64_mul (weight w) (Fin 100)"
    using assms w by (intro f64_mul_mono [of _ _ 1 _ _ 100]) auto
  also have "\<dots> = Fin (of_int w)" using assms(1) by (auto simp: weight_consts)
  finally show "f64_mul (weight w) a' \<le> Fin (of_int w)" .
qed

lemma add_part:
  assumes "Fin 0 \<le> x" "x \<le> x'" "x' \<le> Fin (of_int m)" "Fin 0 \<le> y" "y \<le> y'" "y' \<le> Fin (of_int n)"
    "\<bar>m + n\<bar> < 2 ^ 53"
  shows "f64_add x y \<le> f64_add x' y'" and "Fin 0 \<le> f64_add x y"
    and "f64_add x' y' \<le> Fin (of_int (m + n))"
proof -
  show "f64_add x y \<le> f64_add x' y'" using assms by (intro f64_add_mono)
  obtain a' where a': "x' = Fin a'" "a' \<le> of_int m" using assms f64_between [of 0 x'] order_trans by blast
  obtain a where a: "x = Fin a" "0 \<le> a" using assms a' f64_between [of 0 x a'] by auto
  obtain b' where b': "y' = Fin b'" "b' \<le> of_int n" using assms f64_between [of 0 y'] order_trans by blast
  obtain b where b: "y = Fin b" "0 \<le> b" using assms b' f64_between [of 0 y b'] by auto
  show "Fin 0 \<le> f64_add x y" using a b f64_round_int_bounds(1) [of 0 "a + b"] by simp
  have "a' + b' \<le> of_int (m + n)" using a' b' by simp
  then show "f64_add x' y' \<le> Fin (of_int (m + n))"
    unfolding a'(1) b'(1) f64_add.simps using assms(7) by (rule f64_round_int_bounds(2))
qed

lemma weighted_sum_mono:
  assumes "pct a" "pct a'" "a \<le> a'" "pct b" "pct b'" "b \<le> b'"
    "pct c" "pct c'" "c \<le> c'" "pct d" "pct d'" "d \<le> d'"
  shows "weighted_sum a b c d \<le> weighted_sum a' b' c' d'"
    and "pct (weighted_sum a b c d)" and "pct (weighted_sum a' b' c' d')"
proof -
  have w: "40 \<in> {10, 20, 30, 40 :: int}" "30 \<in> {10, 20, 30, 40 :: int}"
    "20 \<in> {10, 20, 30, 40 :: int}" "10 \<in> {10, 20, 30, 40 :: int}" by simp_all
  note A = weighted_part [OF w(1) assms(1-3)] and B = weighted_part [OF w(2) assms(4-6)]
  note C = weighted_part [OF w(3) assms(7-9)] and D = weighted_part [OF w(4) assms(10-12)]
  have n: "\<bar>40 + 30 :: int\<bar> < 2 ^ 53" "\<bar>40 + 30 + 20 :: int\<bar> < 2 ^ 53"
    "\<bar>40 + 30 + 20 + 10 :: int\<bar> < 2 ^ 53" by simp_all
  note s1 = add_part [OF A(2,1,3) B(2,1,3) n(1)]
  note s2 = add_part [OF s1(2,1,3) C(2,1,3) n(2)]
  note s3 = add_part [OF s2(2,1,3) D(2,1,3) n(3)]
  show m: "weighted_sum a b c d \<le> weighted_sum a' b' c' d'"
    unfolding weighted_sum_def by (rule s3(1))
  have "Fin 0 \<le> weighted_sum a b c d" and "weighted_sum a' b' c' d' \<le> Fin 100"
    unfolding weighted_sum_def using s3(2,3) by simp_all
  with m show "pct (weighted_sum a b c d)" "pct (weighted_sum a' b' c' d')" by auto
qed

text \<open>Rounding to two decimals is monotone and stays within 0 and 100.\<close>

lemma round2_mono:
  assumes "pct x" "pct y" "x \<le> y"
  shows "f64_div (math_Round (f64_mul x (Fin 100))) (Fin 100)
      \<le> f64_div (math_Round (f64_mul y (Fin 100))) (Fin 100)"
    and "pct (f64_div (math_Round (f64_mul x (Fin 100))) (Fin 100))"
proof -
  obtain b where b: "y = Fin b" "0 \<le> b" "b \<le> 100" using assms f64_between by blast
  obtain a where a: "x = Fin a" "0 \<le> a" "a \<le> b" using assms b f64_between [of 0 x b] by auto
  have sc: "Fin 0 \<le> f64_mul (Fin c) (Fin 100)" "f64_mul (Fin c) (Fin 100) \<le> Fin 10000"
    if "0 \<le> c" "c \<le> 100" for c
    using that f64_round_int_bounds(1) [of 0 "c * 100"] f64_round_int_bounds(2) [of "c * 100" 10000]
    by auto
  have rd: "Fin 0 \<le> math_Round (f64_mul (Fin c) (Fin 100))
      \<and> math_Round (f64_mul (Fin c) (Fin 100)) \<le> Fin 10000" if c: "0 \<le> c" "c \<le> 100" for c
  proof -
    obtain d where d: "f64_mul (Fin c) (Fin 100) = Fin d" "0 \<le> d" "d \<le> 10000"
      using f64_between [OF sc [OF c]] .
    then have "\<lfloor>d + 1 / 2\<rfloor> \<le> 10000" by (simp add: floor_le_iff)
    then have "of_int \<lfloor>d + 1 / 2\<rfloor> \<le> (of_int 10000 :: rat)" by (simp only: of_int_le_iff)
    with d show ?thesis by simp
  qed
  have "f64_mul (Fin a) (Fin 100) \<le> f64_mul (Fin b) (Fin 100)"
    using a b by (intro f64_mul_mono [of _ _ 100 _ _ 100]) auto
  then have m: "math_Round (f64_mul (Fin a) (Fin 100)) \<le> math_Round (f64_mul (Fin b) (Fin 100))"
    using math_Round_mono(1) [OF sc(1) [of a] _ sc(2) [of b]] a b by simp
  show "f64_div (math_Round (f64_mul x (Fin 100))) (Fin 100)
      \<le> f64_div (math_Round (f64_mul y (Fin 100))) (Fin 100)"
    unfolding a(1) b(1) using m rd a b by (intro f64_div_mono [of _ _ 10000 _ _ 100]) auto
  have "a \<le> 100" using a b by simp
  from rd [OF a(2) this] obtain r where
    r: "math_Round (f64_mul (Fin a) (Fin 100)) = Fin r" "0 \<le> r" "r \<le> 10000"
    using f64_between by blast
  show "pct (f64_div (math_Round (f64_mul x (Fin 100))) (Fin 100))"
    unfolding a(1) r(1)
    using r f64_round_int_bounds(1) [of 0 "r / 100"] f64_round_int_bounds(2) [of "r / 100" 100] by simp
qed

text \<open>The correctness component of a success rate between 0 and 1.\<close>

abbreviation unit_rate :: "f64 \<Rightarrow> bool" where
  "unit_rate r \<equiv> Fin 0 \<le> r \<and> r \<le> Fin 1"

lemma correctness_pct:
  assumes "unit_rate r" "unit_rate r'" "r \<le> r'"
  shows "pct (f64_mul r (Fin 100))" and "f64_mul r (Fin 100) \<le> f64_mul r' (Fin 100)"
proof -
  show "f64_mul r (Fin 100) \<le> f64_mul r' (Fin 100)"
    using assms by (intro f64_mul_mono [of _ _ 1 _ _ 100]) auto
  obtain q where "r = Fin q" "0 \<le> q" "q \<le> 1" using assms f64_between by blast
  then show "pct (f64_mul r (Fin 100))"
    using f64_round_int_bounds(1) [of 0 "q * 100"] f64_round_int_bounds(2) [of "q * 100" 100] by auto
qed

lemma sub_score_mono_all:
  assumes "0 < p50" "p50 \<le> p50'" "p50' < 2 ^ 63" "0 < p99'" "p99' \<le> p99" "p99 < 2 ^ 63"
    "unit_rate r" "unit_rate r'" "r \<le> r'"
  shows "sub_calculateScore p50 p99 r \<le> sub_calculateScore p50' p99' r'"
    and "pct (sub_calculateScore p50 p99 r)"
proof -
  let ?f = "f64_of_int"
  have P: "pos64 (?f p50)" "pos64 (?f p50')" "pos64 (?f p99)" "pos64 (?f p99')"
    using assms pos64_of_int [of p50] pos64_of_int [of p50'] pos64_of_int [of p99] pos64_of_int [of p99']
    by auto
  have le: "?f p50 \<le> ?f p50'" "?f p99' \<le> ?f p99" using assms by (auto intro: f64_of_int_mono)
  have ref: "Fin 1 \<le> Fin 400" "Fin 400 \<le> Fin (2 ^ 63)" "Fin 1 \<le> Fin 600" "Fin 600 \<le> Fin (2 ^ 63)"
    by simp_all
  have lat: "pct (ratio_score (Fin 400) (?f p99))" "pct (ratio_score (Fin 400) (?f p99'))"
    "ratio_score (Fin 400) (?f p99) \<le> ratio_score (Fin 400) (?f p99')"
    using P le ref by (auto intro!: ratio_score_bounds ratio_score_mono)
  have tps: "pct (ratio_score (Fin 600) (?f p99))" "pct (ratio_score (Fin 600) (?f p99'))"
    "ratio_score (Fin 600) (?f p99) \<le> ratio_score (Fin 600) (?f p99')"
    using P le ref by (auto intro!: ratio_score_bounds ratio_score_mono)
  have stab: "pct (ratio_score (?f p50) (?f p99))" "pct (ratio_score (?f p50') (?f p99'))"
    "ratio_score (?f p50) (?f p99) \<le> ratio_score (?f p50') (?f p99')"
    using P le by (auto intro!: ratio_score_bounds ratio_score_mono)
  note W = weighted_sum_mono [OF lat tps correctness_pct(1) [OF assms(7-9)]
      correctness_pct(1) [OF assms(8,8) order_refl] correctness_pct(2) [OF assms(7-9)] stab]
  show "sub_calculateScore p50 p99 r \<le> sub_calculateScore p50' p99' r'"
    using round2_mono(1) [OF W(2,3,1)] assms by (simp add: sub_calculateScore_def)
  show "pct (sub_calculateScore p50 p99 r)"
    using round2_mono(2) [OF W(2,2) order_refl] assms by (simp add: sub_calculateScore_def)
qed

lemma roundFloat_2: "roundFloat x 2 = f64_div (math_Round (f64_mul x (Fin 100))) (Fin 100)"
  by (simp add: roundFloat_def pow10_2 Let_def)

text \<open>A success rate that is a number gives a score that is a number, possibly an infinity.\<close>

lemma round_not_nan [simp]: "f64_round q \<noteq> FNaN"
  by (simp add: f64_round_def Let_def)

lemma mul_not_nan: "x \<noteq> FNaN \<Longrightarrow> b \<noteq> 0 \<Longrightarrow> f64_mul x (Fin b) \<noteq> FNaN \<and> f64_mul (Fin b) x \<noteq> FNaN"
  by (cases x) auto

lemma add_not_nan: "x \<noteq> FNaN \<Longrightarrow> f64_add x (Fin b) \<noteq> FNaN \<and> f64_add (Fin b) x \<noteq> FNaN"
  by (cases x) auto

lemma div_not_nan: "x \<noteq> FNaN \<Longrightarrow> b \<noteq> 0 \<Longrightarrow> f64_div x (Fin b) \<noteq> FNaN"
  by (cases x) auto

lemma Round_not_nan: "x \<noteq> FNaN \<Longrightarrow> math_Round x \<noteq> FNaN"
  by (cases x) auto

lemma sub_score_not_nan:
  assumes "int64_ok p50" "int64_ok p99" "r \<noteq> FNaN"
  shows "sub_calculateScore p50 p99 r \<noteq> FNaN"
proof (cases "p99 \<le> 0 \<or> p50 \<le> 0")
  case True
  then show ?thesis by (auto simp: sub_calculateScore_def)
next
  case False
  let ?f = "f64_of_int"
  have P: "pos64 (?f p50)" "pos64 (?f p99)" using False assms pos64_of_int [of p50] pos64_of_int [of p99] by auto
  have lat: "pct (ratio_score (Fin 400) (?f p99))" "pct (ratio_score (Fin 600) (?f p99))"
    and stab: "pct (ratio_score (?f p50) (?f p99))"
    using P by (auto intro!: ratio_score_bounds)
  have w: "40 \<in> {10, 20, 30, 40 :: int}" "30 \<in> {10, 20, 30, 40 :: int}" "10 \<in> {10, 20, 30, 40 :: int}"
    and n: "\<bar>40 + 30 :: int\<bar> < 2 ^ 53" by simp_all
  note A = weighted_part [OF w(1) lat(1,1) order_refl] and B = weighted_part [OF w(2) lat(2,2) order_refl]
  note D = weighted_part [OF w(3) stab stab order_refl]
  obtain a where a: "f64_add (f64_mul (weight 40) (ratio_score (Fin 400) (?f p99)))
      (f64_mul (weight 30) (ratio_score (Fin 600) (?f p99))) = Fin a"
    using f64_between [OF add_part(2,3) [OF A(2) order_refl A(3) B(2) order_refl B(3) n]] by metis
  obtain d where d: "f64_mul (weight 10) (ratio_score (?f p50) (?f p99)) = Fin d"
    using f64_between [OF D(2,3)] by metis
  have c: "f64_mul (weight 20) (f64_mul r (Fin 100)) \<noteq> FNaN"
    using mul_not_nan [OF mul_not_nan [OF assms(3), of 100, THEN conjunct1]] lit20
    by (simp add: weight_def)
  show ?thesis
    using False c by (simp add: sub_calculateScore_def weighted_sum_def a d Round_not_nan mul_not_nan
        add_not_nan div_not_nan)
qed

lemma sub_lb_score: "sub_calculateScore p50 p99 r = lb_calculateScore p50 p99 r"
  by (simp add: sub_calculateScore_def lb_calculateScore_def roundFloat_2)

section \<open>Properties\<close>

text \<open>
  C13. The two services compute the same score: on every input, \<open>calculateScore\<close> of the
  submission API (which divides by the literal 100) and of the leaderboard (which goes
  through \<open>roundFloat\<close> and \<open>math.Pow\<close>) return the same \<open>float64\<close>.
\<close>

theorem score_services_agree: "sub_calculateScore p50 p99 r = lb_calculateScore p50 p99 r"
  by (rule sub_lb_score)

text \<open>
  C14. For \<open>int64\<close> percentiles and a success rate between 0 and 1, the score is a finite
  number between 0 and 100: the rounding of the weights and of every intermediate
  operation never pushes it over the top of the scale.
\<close>

theorem score_range:
  assumes "int64_ok p50" "int64_ok p99" "unit_rate r"
  shows "Fin 0 \<le> sub_calculateScore p50 p99 r \<and> sub_calculateScore p50 p99 r \<le> Fin 100"
proof (cases "p99 \<le> 0 \<or> p50 \<le> 0")
  case True
  then show ?thesis by (auto simp: sub_calculateScore_def)
next
  case False
  with assms show ?thesis using sub_score_mono_all(2) [of p50 p50 p99 p99 r r] by simp
qed

theorem score_range_witness:
  "Fin 0 \<le> sub_calculateScore 250 731 (Fin (3 / 4)) \<and> sub_calculateScore 250 731 (Fin (3 / 4)) \<le> Fin 100"
  by (rule score_range) simp_all



lemma ratio_score_full:
  assumes "pos64 p" "p \<le> r" "r \<le> Fin (2 ^ 63)"
  shows "ratio_score r p = Fin 100"
proof -
  have "Fin 1 \<le> r" using assms(1,2) by (blast intro: order_trans)
  then obtain a where a: "r = Fin a" using assms(3) f64_between by blast
  from assms(1,2) obtain b where b: "p = Fin b" "1 \<le> b" "b \<le> a"
    unfolding a using f64_between by blast
  have "1 \<le> a / b" using a b by simp
  then have "Fin 1 \<le> f64_div r p"
    using a b f64_round_int_bounds(1) [of 1 "a / b"] by simp
  moreover have "f64_div r p \<le> Fin (2 ^ 63)"
    using \<open>Fin 1 \<le> r\<close> assms(3,1) by (rule ratio_bounds(2))
  ultimately obtain c where c: "f64_div r p = Fin c" "1 \<le> c" using f64_between by blast
  then have "Fin 100 \<le> f64_mul (f64_div r p) (Fin 100)"
    using f64_round_int_bounds(1) [of 100 "c * 100"] by simp
  then show ?thesis
    unfolding ratio_score_def clamp100_def
    by (cases "f64_mul (f64_div r p) (Fin 100)") (simp_all add: less_eq_f64_def)
qed

text \<open>
  A run that answers within 400 microseconds at the 99th percentile, with no jitter
  (the median is at least the p99 value) and every order correct, scores exactly 100.
\<close>

theorem score_perfect:
  assumes "0 < p99" "p99 \<le> 400" "p99 \<le> p50" "p50 < 2 ^ 63"
  shows "sub_calculateScore p50 p99 (Fin 1) = Fin 100"
proof -
  have p: "pos64 (f64_of_int p99)" and q: "pos64 (f64_of_int p50)"
    using assms pos64_of_int [of p99] pos64_of_int [of p50] by auto
  have "f64_of_int p99 \<le> f64_of_int 400" using assms by (intro f64_of_int_mono)
  then have le: "f64_of_int p99 \<le> Fin 400" using f64_round_int [of 400] by (simp add: f64_of_int_def)
  have "ratio_score (Fin 400) (f64_of_int p99) = Fin 100"
    and "ratio_score (Fin 600) (f64_of_int p99) = Fin 100"
    and "ratio_score (f64_of_int p50) (f64_of_int p99) = Fin 100"
    using p q le assms f64_of_int_mono [of p99 p50] order_trans [OF le, of "Fin 600"]
    by (auto intro!: ratio_score_full)
  moreover have "\<lfloor>20001 / 2 :: rat\<rfloor> = 10000" by (rule floor_unique) simp_all
  ultimately show ?thesis
    using assms f64_round_int [of 70] f64_round_int [of 90] f64_round_int [of 100] f64_round_int [of 10000]
    by (simp add: sub_calculateScore_def weighted_sum_def weight_consts)
qed

theorem score_perfect_witness: "sub_calculateScore 300 250 (Fin 1) = Fin 100"
  by (rule score_perfect) simp_all

end
