(* ===== verification/Go_Http.thy ===== *)
theory Go_Http
  imports Float64 Go_Strings
begin

text \<open>
  HTTP as the two Go APIs use it: JSON payloads, \<open>http.ResponseWriter\<close>, the helpers
  \<open>writeJSON\<close> and \<open>writeError\<close>, and the middlewares. A handler takes the request, the
  service's state and the response writer, and says whether it panicked. Log output is
  not modelled. The last section formats times as RFC 3339.
\<close>

section \<open>JSON payloads\<close>

datatype json = JNull | JStr string | JInt int | JFloat f64 | JArr "json list"
  | JObj "(string \<times> json) list"

text \<open>\<open>encoding/json\<close> refuses NaN and the infinities, and then writes nothing.\<close>

fun encodable :: "json \<Rightarrow> bool" where
  "encodable (JFloat x) = is_finite x"
| "encodable (JArr xs) = list_all encodable xs"
| "encodable (JObj kvs) = list_all (\<lambda>kv. encodable (snd kv)) kvs"
| "encodable _ = True"

section \<open>The response writer\<close>

datatype chunk = BJson json | BText string

text \<open>
  \<open>rw_sent\<close> holds the status line and the headers as they were when they went out;
  header changes and statuses after that have no effect on the response.
\<close>

record rw =
  rw_headers :: "(string \<times> string) list"
  rw_sent :: "(int \<times> (string \<times> string) list) option"
  rw_body :: "chunk list"

definition fresh_rw :: rw where
  "fresh_rw = \<lparr>rw_headers = [], rw_sent = None, rw_body = []\<rparr>"

definition Header_Set :: "string \<Rightarrow> string \<Rightarrow> rw \<Rightarrow> rw" where
  "Header_Set k v w = w\<lparr>rw_headers := AList.update k v (rw_headers w)\<rparr>"

definition WriteHeader :: "int \<Rightarrow> rw \<Rightarrow> rw" where
  "WriteHeader st w =
     (case rw_sent w of None \<Rightarrow> w\<lparr>rw_sent := Some (st, rw_headers w)\<rparr> | Some _ \<Rightarrow> w)"

definition Write :: "chunk \<Rightarrow> rw \<Rightarrow> rw" where
  "Write c w = (let w' = WriteHeader 200 w in w'\<lparr>rw_body := rw_body w' @ [c]\<rparr>)"

definition http_Error :: "string \<Rightarrow> int \<Rightarrow> rw \<Rightarrow> rw" where
  "http_Error msg st w =
     Write (BText (msg @ [CHR 0x0A]))
       (WriteHeader st
         (Header_Set ''X-Content-Type-Options'' ''nosniff''
           (Header_Set ''Content-Type'' ''text/plain; charset=utf-8'' w)))"

text \<open>
  \<open>writeJSON\<close> of the submission API and of the leaderboard: they differ in the headers
  set first.
\<close>

definition writeJSON_with :: "(string \<times> string) list \<Rightarrow> int \<Rightarrow> json \<Rightarrow> rw \<Rightarrow> rw" where
  "writeJSON_with hs st payload w =
     (let w1 = WriteHeader st (fold (\<lambda>(k, v). Header_Set k v) hs w)
      in if encodable payload then Write (BJson payload) w1
         else http_Error ''json encoding failure'' 500 w1)"

definition sub_writeJSON :: "int \<Rightarrow> json \<Rightarrow> rw \<Rightarrow> rw" where
  "sub_writeJSON = writeJSON_with [(''Content-Type'', ''application/json'')]"

definition lb_writeJSON :: "int \<Rightarrow> json \<Rightarrow> rw \<Rightarrow> rw" where
  "lb_writeJSON =
     writeJSON_with [(''Content-Type'', ''application/json''), (''Cache-Control'', ''no-store'')]"

definition sub_writeError :: "int \<Rightarrow> string \<Rightarrow> rw \<Rightarrow> rw" where
  "sub_writeError st msg = sub_writeJSON st (JObj [(''error'', JStr msg)])"

definition lb_writeError :: "int \<Rightarrow> string \<Rightarrow> rw \<Rightarrow> rw" where
  "lb_writeError st msg = lb_writeJSON st (JObj [(''error'', JStr msg)])"

text \<open>What the client sees.\<close>

definition resp_status :: "rw \<Rightarrow> int" where
  "resp_status w = (case rw_sent w of None \<Rightarrow> 200 | Some (st, _) \<Rightarrow> st)"

definition resp_header :: "rw \<Rightarrow> string \<Rightarrow> string option" where
  "resp_header w k = map_of (case rw_sent w of None \<Rightarrow> rw_headers w | Some (_, hs) \<Rightarrow> hs) k"

section \<open>Middlewares\<close>

type_synonym ('r, 's) handler = "'r \<Rightarrow> 's \<Rightarrow> rw \<Rightarrow> 's \<times> rw \<times> bool"

definition with_recovery ::
  "(int \<Rightarrow> string \<Rightarrow> rw \<Rightarrow> rw) \<Rightarrow> ('r, 's) handler \<Rightarrow> ('r, 's) handler" where
  "with_recovery writeError next r s w =
     (case next r s w of (s', w', panicked) \<Rightarrow>
        (s', if panicked then writeError 500 ''internal server error'' w' else w', False))"

definition withCORS :: "('r \<Rightarrow> string) \<Rightarrow> ('r, 's) handler \<Rightarrow> ('r, 's) handler" where
  "withCORS meth next r s w =
     (let w1 = Header_Set ''Access-Control-Allow-Headers'' ''Content-Type''
                (Header_Set ''Access-Control-Allow-Methods'' ''GET, OPTIONS''
                  (Header_Set ''Access-Control-Allow-Origin'' ''*'' w))
      in if meth r = ''OPTIONS'' then (s, WriteHeader 204 w1, False) else next r s w1)"

text \<open>
  \<open>withLogging\<close>: the log is a part of the state, a line is the method and the path (the
  time is left out). A handler that panics leaves before its line is written.
\<close>

type_synonym access_log = "(string \<times> string) list"

definition with_logging :: "('r \<Rightarrow> string \<times> string) \<Rightarrow> ('r, 's) handler \<Rightarrow> ('r, 's \<times> access_log) handler" where
  "with_logging line next r s w =
     (case next r (fst s) w of (s', w', panicked) \<Rightarrow>
        ((s', if panicked then snd s else snd s @ [line r]), w', panicked))"

lemmas rw_defs = Header_Set_def WriteHeader_def Write_def http_Error_def writeJSON_with_def
  sub_writeJSON_def lb_writeJSON_def sub_writeError_def lb_writeError_def

lemma sent_fold_set [simp]: "rw_sent (fold (\<lambda>(k, v). Header_Set k v) hs w) = rw_sent w"
  by (induction hs arbitrary: w) (auto simp: Header_Set_def)

lemma body_fold_set [simp]: "rw_body (fold (\<lambda>(k, v). Header_Set k v) hs w) = rw_body w"
  by (induction hs arbitrary: w) (auto simp: Header_Set_def)

text \<open>Once the status line is out it stays, whatever is written later.\<close>

lemma sent_stays:
  "rw_sent w = Some x \<Longrightarrow> rw_sent (Header_Set k v w) = Some x"
  "rw_sent w = Some x \<Longrightarrow> rw_sent (WriteHeader st w) = Some x"
  "rw_sent w = Some x \<Longrightarrow> rw_sent (Write c w) = Some x"
  "rw_sent w = Some x \<Longrightarrow> rw_sent (http_Error m st w) = Some x"
  "rw_sent w = Some x \<Longrightarrow> rw_sent (writeJSON_with hs st p w) = Some x"
  by (auto simp: rw_defs Let_def)

text \<open>The response of \<open>writeJSON\<close> on a fresh writer.\<close>

lemma writeJSON_response:
  assumes "rw_sent w = None" "rw_body w = []"
  shows "resp_status (writeJSON_with hs st p w) = st"
    and "encodable p \<Longrightarrow> rw_body (writeJSON_with hs st p w) = [BJson p]"
    and "\<not> encodable p \<Longrightarrow>
      rw_body (writeJSON_with hs st p w) = [BText (''json encoding failure'' @ [CHR 0x0A])]"
  using assms by (auto simp: rw_defs resp_status_def Let_def)

section \<open>Times\<close>

text \<open>The civil date of a day counted from 1970-01-01, in the proleptic Gregorian calendar.\<close>

definition civil_of_days :: "int \<Rightarrow> int \<times> int \<times> int" where
  "civil_of_days days =
     (let z = days + 719468;
          era = z div 146097;
          doe = z mod 146097;
          yoe = (doe - doe div 1460 + doe div 36524 - doe div 146096) div 365;
          doy = doe - (365 * yoe + yoe div 4 - yoe div 100);
          mp = (5 * doy + 2) div 153;
          d = doy - (153 * mp + 2) div 5 + 1;
          m = (if mp < 10 then mp + 3 else mp - 9);
          y = yoe + era * 400 + (if m \<le> 2 then 1 else 0)
      in (y, m, d))"

text \<open>\<open>t.UTC().Format(time.RFC3339)\<close> of a time given in Unix seconds (from the year 0 on).\<close>

definition rfc3339 :: "int \<Rightarrow> string" where
  "rfc3339 secs =
     (let (y, m, d) = civil_of_days (secs div 86400); t = secs mod 86400
      in fmt_dec 4 (nat y) @ ''-'' @ fmt_dec 2 (nat m) @ ''-'' @ fmt_dec 2 (nat d) @ ''T'' @
         fmt_dec 2 (nat (t div 3600)) @ '':'' @ fmt_dec 2 (nat (t mod 3600 div 60)) @ '':'' @
         fmt_dec 2 (nat (t mod 60)) @ ''Z'')"

lemma rfc3339_epoch: "rfc3339 0 = ''1970-01-01T00:00:00Z''"
  by code_simp

lemma rfc3339_leap: "rfc3339 1709210096 = ''2024-02-29T12:34:56Z''"
  by code_simp

end
