(* ===== verification/Go_Path.thy ===== *)
theory Go_Path
  imports Go_Strings
begin

text \<open>
  \<open>filepath.Clean\<close> and \<open>filepath.Join\<close> on Unix, which name every file the services
  create. A path element is plain when it contains no slash and is none of \<open>""\<close>,
  \<open>"."\<close>, \<open>".."\<close>: the lemmas say where joined paths made of plain elements lie.
\<close>

text \<open>One pass over the elements, the output reversed.\<close>

fun clean_elems :: "bool \<Rightarrow> string list \<Rightarrow> string list \<Rightarrow> string list" where
  "clean_elems rooted out [] = rev out"
| "clean_elems rooted out (e # es) =
     (if e = '''' \<or> e = ''.'' then clean_elems rooted out es
      else if e = ''..'' then
        (case out of
           [] \<Rightarrow> if rooted then clean_elems rooted [] es else clean_elems rooted [e] es
         | x # xs \<Rightarrow> if x \<noteq> ''..'' then clean_elems rooted xs es
                    else clean_elems rooted (e # out) es)
      else clean_elems rooted (e # out) es)"

definition path_Clean :: "string \<Rightarrow> string" where
  "path_Clean p =
     (if p = '''' then ''.''
      else let rooted = HasPrefix p ''/'';
               es = clean_elems rooted [] (split_on CHR ''/'' p)
           in if rooted then ''/'' @ join_with ''/'' es
              else if es = [] then ''.'' else join_with ''/'' es)"

definition path_Join :: "string list \<Rightarrow> string" where
  "path_Join elems =
     (case dropWhile (\<lambda>e. e = '''') elems of
        [] \<Rightarrow> ''''
      | es \<Rightarrow> path_Clean (join_with ''/'' es))"

definition plain :: "string \<Rightarrow> bool" where
  "plain e \<longleftrightarrow> e \<noteq> '''' \<and> e \<noteq> ''.'' \<and> e \<noteq> ''..'' \<and> CHR ''/'' \<notin> set e"

lemma clean_elems_plain:
  "\<forall>e \<in> set es. plain e \<Longrightarrow> clean_elems rooted out es = rev out @ es"
  by (induction es arbitrary: out) (auto simp: plain_def)

lemma split_join_plain:
  "xs \<noteq> [] \<Longrightarrow> \<forall>e \<in> set xs. CHR ''/'' \<notin> set e \<Longrightarrow> split_on CHR ''/'' (join_with ''/'' xs) = xs"
proof (induction xs)
  case (Cons x xs)
  then show ?case by (cases xs) (auto simp: split_on_none split_on_append)
qed simp

lemma join_with_append:
  "xs \<noteq> [] \<Longrightarrow> ys \<noteq> [] \<Longrightarrow> join_with sep (xs @ ys) = join_with sep xs @ sep @ join_with sep ys"
proof (induction xs)
  case (Cons x xs)
  then show ?case by (cases xs; cases ys) auto
qed simp

text \<open>The absolute path with the given elements.\<close>

definition abs_path :: "string list \<Rightarrow> string" where
  "abs_path es = ''/'' @ join_with ''/'' es"

text \<open>Cleaning an absolute path: the elements, resolved.\<close>

lemma Clean_abs:
  "es \<noteq> [] \<Longrightarrow> \<forall>e \<in> set es. CHR ''/'' \<notin> set e \<Longrightarrow>
   path_Clean (abs_path es) = abs_path (clean_elems True [] es)"
  using split_join_plain [of es]
  by (simp add: path_Clean_def abs_path_def HasPrefix_def)

lemma Join_abs:
  assumes "ds \<noteq> []" "\<forall>e \<in> set ds. plain e"
  shows "path_Join [abs_path ds, name] = abs_path (clean_elems True [] (ds @ split_on CHR ''/'' name))"
proof -
  have "\<forall>e \<in> set (split_on CHR ''/'' s). CHR ''/'' \<notin> set e" for s
    by (induction s) (auto split: list.splits)
  moreover have "join_with ''/'' [abs_path ds, name] = abs_path (ds @ split_on CHR ''/'' name)"
    using assms(1) by (simp add: abs_path_def join_with_append join_split)
  ultimately show ?thesis
    using Clean_abs [of "ds @ split_on CHR ''/'' name"] assms
    by (auto simp: path_Join_def plain_def abs_path_def)
qed

lemma Join_plain:
  assumes "ds \<noteq> []" "\<forall>e \<in> set ds. plain e" "plain name"
  shows "path_Join [abs_path ds, name] = abs_path (ds @ [name])"
proof -
  have "split_on CHR ''/'' name = [name]" using assms(3) by (simp add: plain_def split_on_none)
  then show ?thesis using assms by (simp add: Join_abs clean_elems_plain)
qed

text \<open>A name that goes up again leaves the directory it is joined to.\<close>

lemma Join_escapes:
  assumes "plain d" "plain (pre @ ''x'')" "es \<noteq> []" "\<forall>e \<in> set es. plain e"
  shows "path_Join [abs_path [d], pre @ ''x/../../'' @ join_with ''/'' es] = abs_path es"
proof -
  have "split_on CHR ''/'' ((pre @ ''x'') @ CHR ''/'' # ''..'' @ CHR ''/'' # ''..'' @ CHR ''/'' # join_with ''/'' es)
      = (pre @ ''x'') # ''..'' # ''..'' # es"
    using split_join_plain [of es] assms(2-4) by (subst split_on_append) (auto simp: plain_def)
  then have "split_on CHR ''/'' (pre @ ''x/../../'' @ join_with ''/'' es) = (pre @ ''x'') # ''..'' # ''..'' # es"
    by simp
  moreover have "clean_elems True [] es = es" using clean_elems_plain [OF assms(4), of True "[]"] by simp
  ultimately show ?thesis using assms(1,2) by (subst Join_abs) (simp_all add: plain_def)
qed

lemma join_with_suffix: "join_with ''/'' (es @ [name]) @ suf = join_with ''/'' (es @ [name @ suf])"
  by (cases "es = []") (simp_all add: join_with_append)

lemma abs_path_inj:
  assumes "ds \<noteq> []" "es \<noteq> []" "\<forall>e \<in> set ds. plain e" "\<forall>e \<in> set es. plain e"
    and eq: "abs_path ds = abs_path es"
  shows "ds = es"
proof -
  from eq have "split_on CHR ''/'' (join_with ''/'' ds) = split_on CHR ''/'' (join_with ''/'' es)"
    by (simp add: abs_path_def)
  moreover have "split_on CHR ''/'' (join_with ''/'' ds) = ds"
    using assms(1,3) by (intro split_join_plain) (auto simp: plain_def)
  moreover have "split_on CHR ''/'' (join_with ''/'' es) = es"
    using assms(2,4) by (intro split_join_plain) (auto simp: plain_def)
  ultimately show ?thesis by simp
qed

lemma plain_long: "2 < length x \<Longrightarrow> CHR ''/'' \<notin> set x \<Longrightarrow> plain x"
  by (auto simp: plain_def)

lemma plain_affix:
  "CHR ''/'' \<notin> set s \<Longrightarrow> CHR ''/'' \<notin> set p \<Longrightarrow> CHR ''/'' \<notin> set q \<Longrightarrow> 2 < length p \<Longrightarrow> plain (p @ s @ q)"
  by (rule plain_long) auto

end
