(* ===== verification/Go_Mux.thy ===== *)
theory Go_Mux
  imports Go_Http Go_Path
begin

text \<open>
  \<open>http.ServeMux\<close> as of Go 1.22, for patterns without methods, hosts and wildcards. A
  request carries its path twice: \<open>URL.Path\<close>, decoded, for the handlers, and
  \<open>URL.EscapedPath()\<close>, which the mux looks at. A path that is not clean (empty elements,
  dots, a missing first slash) is answered with a redirect to the clean one, except for
  \<open>CONNECT\<close>; a clean one is cut at its slashes, and the elements are decoded one by one
  before they are compared with the patterns.
\<close>

section \<open>Percent-encoding\<close>

definition hex_digit :: "char \<Rightarrow> nat option" where
  "hex_digit c =
     (let n = of_char c
      in if 48 \<le> n \<and> n \<le> 57 then Some (n - 48)
         else if 65 \<le> n \<and> n \<le> 70 then Some (n - 55)
         else if 97 \<le> n \<and> n \<le> 102 then Some (n - 87) else None)"

fun percent_decode :: "string \<Rightarrow> string option" where
  "percent_decode [] = Some []"
| "percent_decode (c # s) =
     (if c \<noteq> CHR ''%'' then map_option ((#) c) (percent_decode s)
      else case s of
        a # b # t \<Rightarrow>
          (case (hex_digit a, hex_digit b) of
             (Some m, Some n) \<Rightarrow> map_option ((#) (char_of (16 * m + n))) (percent_decode t)
           | _ \<Rightarrow> None)
      | _ \<Rightarrow> None)"

text \<open>An element that is not well encoded is taken as it is.\<close>

definition pathUnescape :: "string \<Rightarrow> string" where
  "pathUnescape s = (case percent_decode s of None \<Rightarrow> s | Some t \<Rightarrow> t)"

section \<open>Routing\<close>

definition cleanPath :: "string \<Rightarrow> string" where
  "cleanPath p0 =
     (if p0 = '''' then ''/''
      else let p = (if hd p0 = CHR ''/'' then p0 else CHR ''/'' # p0); np = path_Clean p
           in if last p = CHR ''/'' \<and> np \<noteq> ''/'' then np @ ''/'' else np)"

definition path_segments :: "string \<Rightarrow> string list" where
  "path_segments p = map pathUnescape (tl (split_on CHR ''/'' p))"

text \<open>
  \<open>http.Redirect\<close> with status 301. The location (the clean path with the query, escaped by
  \<open>net/url\<close>) and the line of HTML that names it are arguments.
\<close>

definition redirect :: "string \<Rightarrow> string \<times> string \<Rightarrow> rw \<Rightarrow> rw" where
  "redirect meth moved w0 =
     (let w1 = Header_Set ''Location'' (fst moved) w0;
          hadCT = (map_of (rw_headers w0) ''Content-Type'' \<noteq> None);
          w2 = (if \<not> hadCT \<and> (meth = ''GET'' \<or> meth = ''HEAD'')
                then Header_Set ''Content-Type'' ''text/html; charset=utf-8'' w1 else w1);
          w3 = WriteHeader 301 w2
      in if \<not> hadCT \<and> meth = ''GET'' then Write (BText (snd moved)) w3 else w3)"

text \<open>\<open>route\<close> stands for the patterns: the handler of a list of decoded elements.\<close>

definition serve_mux ::
  "('r \<Rightarrow> string) \<Rightarrow> ('r \<Rightarrow> string) \<Rightarrow> ('r \<Rightarrow> string \<times> string) \<Rightarrow> (string list \<Rightarrow> ('r, 's) handler) \<Rightarrow> ('r, 's) handler"
where
  "serve_mux meth escaped moved route req s w =
     (let e = escaped req; p = (if meth req = ''CONNECT'' then e else cleanPath e)
      in if e = ''*'' then (s, WriteHeader 400 w, False)
         else if p \<noteq> e then (s, redirect (meth req) (moved req) w, False)
         else route (path_segments p) req s w)"

section \<open>Facts\<close>

lemma pathUnescape_id: "CHR ''%'' \<notin> set s \<Longrightarrow> pathUnescape s = s"
proof -
  have "CHR ''%'' \<notin> set s \<Longrightarrow> percent_decode s = Some s" by (induction s) auto
  then show "CHR ''%'' \<notin> set s \<Longrightarrow> pathUnescape s = s" by (simp add: pathUnescape_def)
qed

text \<open>The elements of a path below a given one.\<close>

lemma segments_below:
  assumes "\<forall>e \<in> set es. plain e \<and> CHR ''%'' \<notin> set e" "es \<noteq> []"
  shows "path_segments (abs_path es) = es"
    and "path_segments (abs_path es @ CHR ''/'' # rest) = es @ map pathUnescape (split_on CHR ''/'' rest)"
proof -
  have n: "split_on CHR ''/'' (join_with ''/'' es) = es" "\<forall>e \<in> set es. pathUnescape e = e"
    using assms split_join_plain [of es] by (auto simp: plain_def pathUnescape_id)
  then show "path_segments (abs_path es) = es"
    by (simp add: path_segments_def abs_path_def map_idI)
  have "split_on CHR ''/'' (join_with ''/'' (es @ split_on CHR ''/'' rest)) = es @ split_on CHR ''/'' rest"
  proof (rule split_join_plain)
    have "\<forall>e \<in> set (split_on CHR ''/'' s). CHR ''/'' \<notin> set e" for s
      by (induction s) (auto split: list.splits)
    then show "\<forall>e \<in> set (es @ split_on CHR ''/'' rest). CHR ''/'' \<notin> set e"
      using assms by (auto simp: plain_def)
  qed (use assms in simp)
  moreover have "split_on CHR ''/'' rest \<noteq> []" by (cases rest) (auto split: list.split)
  ultimately have "split_on CHR ''/'' (join_with ''/'' es @ CHR ''/'' # rest) = es @ split_on CHR ''/'' rest"
    using assms(2) by (simp add: join_with_append join_split)
  then show "path_segments (abs_path es @ CHR ''/'' # rest) = es @ map pathUnescape (split_on CHR ''/'' rest)"
    using n(2) by (simp add: path_segments_def abs_path_def map_idI)
qed

text \<open>A clean path, and some that are not.\<close>

lemma cleanPath_plain:
  assumes "\<forall>e \<in> set es. plain e" "es \<noteq> []"
  shows "cleanPath (abs_path es) = abs_path es"
proof -
  have "last (abs_path es) \<noteq> CHR ''/''"
  proof -
    have l: "last es \<noteq> []" "CHR ''/'' \<notin> set (last es)" using assms by (auto simp: plain_def)
    have "join_with ''/'' es = join_with ''/'' (butlast es @ [last es])" using assms(2) by simp
    then have "last (join_with ''/'' es) = last (last es)"
      using l(1) by (cases "butlast es = []") (simp_all add: join_with_append del: append_butlast_last_id)
    moreover have "join_with ''/'' es \<noteq> []" using assms by (cases es rule: list.exhaust; cases "tl es") (auto simp: plain_def)
    moreover have "last (last es) \<noteq> CHR ''/''" using l last_in_set [of "last es"] by metis
    ultimately show ?thesis by (simp add: abs_path_def)
  qed
  moreover have "path_Clean (abs_path es) = abs_path es"
    using assms by (subst Clean_abs) (auto simp: plain_def clean_elems_plain)
  ultimately show ?thesis by (simp add: cleanPath_def abs_path_def Let_def)
qed

lemma cleanPath_samples:
  "cleanPath ''/api/scores//x'' = ''/api/scores/x''"
  "cleanPath ''/api/scores/../x'' = ''/api/x''"
  "cleanPath ''/api/scores/x/.'' = ''/api/scores/x''"
  "cleanPath ''/api/scores/'' = ''/api/scores/''"
  by code_simp+

lemma redirect_response:
  assumes "rw_sent w = None"
  shows "resp_status (redirect meth moved w) = 301"
    and "resp_header (redirect meth moved w) ''Location'' = Some (fst moved)"
    and "k \<noteq> ''Location'' \<Longrightarrow> k \<noteq> ''Content-Type'' \<Longrightarrow>
      resp_header (redirect meth moved w) k = map_of (rw_headers w) k"
  using assms by (auto simp: redirect_def rw_defs resp_status_def resp_header_def Let_def)

end
