(* ===== verification/Go_Sort.thy ===== *)
theory Go_Sort
  imports Prelude "HOL-Library.Multiset"
begin

text \<open>
  \<open>sort.Slice\<close> and the keep-the-best loop, both driven by a \<open>less\<close> function.

  \<open>sort.Slice\<close> is not stable: it may return any ordered permutation of its input. The
  model sorts stably; every ordered permutation of the input is a fixed point of it
  (\<open>sort_slice_ordered\<close>), so each result of the real sort is the model's result on some
  permutation of the input. Its callers sort the values of a map, whose order is
  arbitrary already.
\<close>

fun insert_by :: "('a \<Rightarrow> 'a \<Rightarrow> bool) \<Rightarrow> 'a \<Rightarrow> 'a list \<Rightarrow> 'a list" where
  "insert_by lt x [] = [x]"
| "insert_by lt x (y # ys) = (if lt y x then y # insert_by lt x ys else x # y # ys)"

definition sort_slice :: "('a \<Rightarrow> 'a \<Rightarrow> bool) \<Rightarrow> 'a list \<Rightarrow> 'a list" where
  "sort_slice lt xs = foldr (insert_by lt) xs []"

text \<open>\<open>if !found || lt(new, existing) { m[k] = new }\<close>\<close>

definition keep_best :: "('v \<Rightarrow> 'v \<Rightarrow> bool) \<Rightarrow> 'k \<Rightarrow> 'v \<Rightarrow> ('k \<times> 'v) list \<Rightarrow> ('k \<times> 'v) list" where
  "keep_best lt k v m =
     (case map_of m k of
        None \<Rightarrow> AList.update k v m
      | Some v' \<Rightarrow> if lt v v' then AList.update k v m else m)"

lemma mset_insert_by [simp]: "mset (insert_by lt x xs) = add_mset x (mset xs)"
  by (induction xs) auto

lemma mset_sort_slice [simp]: "mset (sort_slice lt xs) = mset xs"
  by (induction xs) (auto simp: sort_slice_def)

lemma set_sort_slice [simp]: "set (sort_slice lt xs) = set xs"
  by (metis mset_sort_slice set_mset_mset)

lemma length_sort_slice [simp]: "length (sort_slice lt xs) = length xs"
  by (metis mset_sort_slice size_mset)

lemma insert_by_map:
  "(\<And>a b. lt' (f a) (f b) = lt a b) \<Longrightarrow> insert_by lt' (f x) (map f xs) = map f (insert_by lt x xs)"
  by (induction xs) auto

lemma sort_slice_map:
  "(\<And>a b. lt' (f a) (f b) = lt a b) \<Longrightarrow> sort_slice lt' (map f xs) = map f (sort_slice lt xs)"
  by (induction xs) (auto simp: sort_slice_def insert_by_map)

lemma wf_keep_best: "wf_alist m \<Longrightarrow> wf_alist (keep_best lt k v m)"
  by (auto simp: keep_best_def intro!: wf_update split: option.splits)

lemma dom_keep_best: "fst ` set (keep_best lt k v m) = insert k (fst ` set m)"
  by (auto simp: keep_best_def dom_update split: option.splits dest!: map_of_SomeD intro: rev_image_eqI)

lemma wf_keep_fold: "wf_alist m \<Longrightarrow> wf_alist (fold (\<lambda>(k, v). keep_best lt k v) kvs m)"
  by (induction kvs arbitrary: m) (simp_all add: wf_keep_best split_def)

lemma dom_keep_fold:
  "fst ` set (fold (\<lambda>(k, v). keep_best lt k v) kvs m) = fst ` set m \<union> fst ` set kvs"
  by (induction kvs arbitrary: m) (simp_all add: dom_keep_best split_def)

lemma lex_asym:
  fixes x y :: "'a :: linorder" and p q :: "'b :: linorder"
  shows "y < x \<or> x = y \<and> p < q \<Longrightarrow> \<not> (x < y \<or> y = x \<and> q < p)"
  by auto

lemma lex_cotrans:
  fixes x y z :: "'a :: linorder" and p q r :: "'b :: linorder"
  assumes "z < x \<or> x = z \<and> p < r"
  shows "(y < x \<or> x = y \<and> p < q) \<or> (z < y \<or> y = z \<and> q < r)"
  using assms by (cases x y rule: linorder_cases) auto

text \<open>What \<open>sort.Slice\<close> asks of its \<open>less\<close> function on the elements it meets.\<close>

locale weak_order =
  fixes lt :: "'a \<Rightarrow> 'a \<Rightarrow> bool" and ok :: "'a \<Rightarrow> bool"
  assumes asym: "ok a \<Longrightarrow> ok b \<Longrightarrow> lt a b \<Longrightarrow> \<not> lt b a"
    and cotrans: "ok a \<Longrightarrow> ok b \<Longrightarrow> ok c \<Longrightarrow> lt a c \<Longrightarrow> lt a b \<or> lt b c"
begin

lemma insert_by_ordered:
  assumes "ok x" "\<forall>y \<in> set ys. ok y" "sorted_wrt (\<lambda>a b. \<not> lt b a) ys"
  shows "sorted_wrt (\<lambda>a b. \<not> lt b a) (insert_by lt x ys)"
  using assms
proof (induction ys)
  case (Cons y ys)
  have s: "set (insert_by lt x ys) = insert x (set ys)"
    by (metis mset_insert_by set_mset_add_mset_insert set_mset_mset)
  show ?case
  proof (cases "lt y x")
    case True
    with Cons asym [of y x] show ?thesis by (auto simp: s)
  next
    case False
    with Cons cotrans [of _ y x] show ?thesis by auto
  qed
qed simp

lemma sort_slice_sorted:
  "\<forall>x \<in> set xs. ok x \<Longrightarrow> sorted_wrt (\<lambda>a b. \<not> lt b a) (sort_slice lt xs)"
proof (induction xs)
  case (Cons x xs)
  moreover have "\<forall>y \<in> set (sort_slice lt xs). ok y" using Cons.prems by simp
  ultimately show ?case using insert_by_ordered [of x "sort_slice lt xs"]
    by (simp add: sort_slice_def)
qed (simp add: sort_slice_def)

lemma sort_slice_ordered:
  "sorted_wrt (\<lambda>a b. \<not> lt b a) xs \<Longrightarrow> sort_slice lt xs = xs"
proof (induction xs)
  case (Cons x xs)
  then have "insert_by lt x xs = x # xs" by (cases xs) auto
  with Cons show ?case by (simp add: sort_slice_def)
qed (simp add: sort_slice_def)

text \<open>The first \<open>n\<close> elements of the sorted list are no worse than the rest.\<close>

lemma top_no_worse:
  assumes "\<forall>x \<in> set xs. ok x" "a \<in> set (take n (sort_slice lt xs))"
    "b \<in> set (drop n (sort_slice lt xs))"
  shows "\<not> lt b a"
proof -
  have "sorted_wrt (\<lambda>a b. \<not> lt b a) (take n (sort_slice lt xs) @ drop n (sort_slice lt xs))"
    using sort_slice_sorted [OF assms(1)] by simp
  then show ?thesis using assms(2,3) by (simp add: sorted_wrt_append del: append_take_drop_id)
qed

text \<open>
  After the loop, a key holds one of the values seen for it, and none of the others is
  better.
\<close>

definition best_among :: "'a set \<Rightarrow> 'a \<Rightarrow> bool" where
  "best_among S v \<longleftrightarrow> v \<in> S \<and> (\<forall>x \<in> S. \<not> lt x v)"

lemma best_among_insert:
  assumes "best_among S v" "\<forall>x \<in> S. ok x" "ok x"
  shows "lt x v \<Longrightarrow> best_among (insert x S) x" and "\<not> lt x v \<Longrightarrow> best_among (insert x S) v"
proof -
  have v: "v \<in> S" "ok v" "\<And>y. y \<in> S \<Longrightarrow> \<not> lt y v" using assms by (auto simp: best_among_def)
  show "best_among (insert x S) v" if "\<not> lt x v"
    using that v by (auto simp: best_among_def)
  show "best_among (insert x S) x" if x: "lt x v"
  proof -
    have "\<not> lt y x" if "y \<in> S" for y
      using cotrans [of y v x] asym [of x v] assms v x that by blast
    moreover have "\<not> lt x x" using asym [of x x] assms(3) by blast
    ultimately show ?thesis by (auto simp: best_among_def)
  qed
qed

lemma keep_best_fold:
  assumes "\<forall>kv \<in> set kvs. ok (snd kv)"
    and "\<forall>k. case map_of m k of None \<Rightarrow> S k = {} | Some v \<Rightarrow> best_among (S k) v \<and> (\<forall>x \<in> S k. ok x)"
  shows "case map_of (fold (\<lambda>(k, v). keep_best lt k v) kvs m) k of
      None \<Rightarrow> S k \<union> {v. (k, v) \<in> set kvs} = {}
    | Some v \<Rightarrow> best_among (S k \<union> {v. (k, v) \<in> set kvs}) v"
  using assms
proof (induction kvs arbitrary: m S)
  case Nil
  then show ?case by (simp split: option.splits) (metis option.case_eq_if option.distinct(1) option.sel)
next
  case (Cons kv kvs)
  obtain j v where kv: "kv = (j, v)" by (cases kv)
  let ?S = "\<lambda>i. if i = j then insert v (S i) else S i"
  have ok: "ok v" using Cons.prems(1) kv by simp
  have b1: "best_among {v} v" using asym [OF ok ok] by (auto simp: best_among_def)
  have step: "\<forall>i. case map_of (keep_best lt j v m) i of None \<Rightarrow> ?S i = {}
      | Some v \<Rightarrow> best_among (?S i) v \<and> (\<forall>x \<in> ?S i. ok x)"
  proof
    fix i
    show "case map_of (keep_best lt j v m) i of None \<Rightarrow> ?S i = {}
      | Some v \<Rightarrow> best_among (?S i) v \<and> (\<forall>x \<in> ?S i. ok x)"
      using Cons.prems(2) [rule_format, of i] ok b1
      by (auto simp: keep_best_def best_among_insert split: option.splits if_splits)
  qed
  have S: "S k \<union> {v. (k, v) \<in> set (kv # kvs)} = ?S k \<union> {v. (k, v) \<in> set kvs}"
    by (auto simp: kv)
  have F: "fold (\<lambda>(k, v). keep_best lt k v) (kv # kvs) m
      = fold (\<lambda>(k, v). keep_best lt k v) kvs (keep_best lt j v m)" by (simp add: kv)
  have ok': "\<forall>kv \<in> set kvs. ok (snd kv)" using Cons.prems(1) by simp
  show ?case unfolding S F by (rule Cons.IH [OF ok' step])
qed

end

text \<open>Two ordered lists with the same elements are equal when the order tells elements apart.\<close>

lemma sorted_wrt_unique:
  assumes "mset xs = mset ys" "sorted_wrt P xs" "sorted_wrt P ys"
    and "\<And>x y. x \<in> set xs \<Longrightarrow> y \<in> set xs \<Longrightarrow> P x y \<Longrightarrow> P y x \<Longrightarrow> x = y"
  shows "xs = ys"
  using assms
proof (induction xs arbitrary: ys)
  case (Cons x xs)
  then obtain y ys' where ys: "ys = y # ys'" by (cases ys) auto
  have sets: "set (x # xs) = set ys" by (rule mset_eq_setD [OF Cons.prems(1)])
  have "x = y"
  proof (rule ccontr)
    assume "x \<noteq> y"
    then have "y \<in> set xs" "x \<in> set ys'" using sets ys by auto
    then have "P x y" "P y x" using Cons.prems(2,3) ys by auto
    with \<open>y \<in> set xs\<close> \<open>x \<noteq> y\<close> Cons.prems(4) [of x y] show False by auto
  qed
  moreover have "mset xs = mset ys'" using Cons.prems(1) ys \<open>x = y\<close> by simp
  ultimately show ?case using Cons.IH [of ys'] Cons.prems ys by auto
qed simp

lemma keep_best_new:
  assumes "k \<notin> fst ` set m"
  shows "keep_best lt k v m = m @ [(k, v)]"
proof -
  have "AList.update k v m = m @ [(k, v)]" using assms by (induction m) auto
  moreover have "map_of m k = None" using assms by (simp add: map_of_eq_None)
  ultimately show ?thesis by (simp add: keep_best_def)
qed

lemma keep_fold_new:
  "distinct (map fst kvs) \<Longrightarrow> fst ` set kvs \<inter> fst ` set m = {} \<Longrightarrow>
   fold (\<lambda>(k, v). keep_best lt k v) kvs m = m @ kvs"
proof (induction kvs arbitrary: m)
  case (Cons kv kvs)
  then have "keep_best lt (fst kv) (snd kv) m = m @ [kv]"
    using keep_best_new [of "fst kv" m lt "snd kv"] by auto
  then show ?case using Cons.IH [of "m @ [kv]"] Cons.prems by (auto simp: split_def)
qed simp

end
