(* ===== verification/Metrics_Table.thy ===== *)
theory Metrics_Table
  imports Float64
begin

text \<open>
  The rows of the table \<open>benchmark_metrics\<close>, which the ingester fills and the submission
  API and the leaderboard read. The readers do not rely on the columns being set: a NULL
  is \<^term>\<open>None\<close>.
\<close>

record metric_row =
  id_col :: int
  submission_id_col :: string
  p50_col :: "int option"
  p90_col :: "int option"
  p99_col :: "int option"
  success_rate_col :: "f64 option"
  total_orders_col :: "int option"
  timestamp_col :: "int option"

text \<open>SQL \<open>COALESCE(e1, ..., en, default)\<close>.\<close>

fun coalesce :: "'a option list \<Rightarrow> 'a \<Rightarrow> 'a" where
  "coalesce [] d = d"
| "coalesce (None # es) d = coalesce es d"
| "coalesce (Some x # es) d = x"

end
