(* ===== verification/Leaderboard.thy ===== *)
theory Leaderboard
  imports Scoring Go_Mux Go_Sort Metrics_Table
begin

text \<open>
  \<open>services/leaderboard/main.go\<close>: the ranking API over the table
  \<open>benchmark_metrics\<close>. The SQL of each handler is a function on the table, a list of
  rows in whatever order the database stores them; the database may fail a query, a row
  scan or the iteration. Three handlers: the rich leaderboard, the runs of one
  submission, and the legacy leaderboard. \<open>iter_stop\<close> is \<open>Some k\<close> when the iteration
  breaks off after \<open>k\<close> rows, which only \<open>rows.Err()\<close> tells.

  The leaderboard handlers collect rows in a Go map and range over it. The order of that
  iteration is the argument \<open>visit\<close>, which permutes the keys; every statement holds for
  every such permutation.
\<close>

section \<open>The database and the rows\<close>

record lb_db =
  metrics :: "metric_row list"
  query_fails :: bool
  scan_fails :: "metric_row \<Rightarrow> bool"
  iter_stop :: "nat option"
  now :: int

record http_request =
  req_method :: string
  req_path :: string
  req_escaped :: string

record LeaderboardRow =
  Rank :: int
  SubmissionID :: string
  P50Micros :: int
  P90Micros :: int
  P99Micros :: int
  SuccessRate :: f64
  Score :: f64
  TotalOrders :: int
  CorrectnessViolations :: int
  TPS :: f64
  Timestamp :: string

record RunRecord =
  rr_RunID :: int
  rr_P50Micros :: int
  rr_P90Micros :: int
  rr_P99Micros :: int
  rr_SuccessRate :: f64
  rr_Score :: f64
  rr_TPS :: f64
  rr_Timestamp :: string

text \<open>The row type of the rich handler's loop.\<close>

record rawRun =
  submissionID :: string
  raw_p50 :: int
  raw_p90 :: int
  raw_p99 :: int
  raw_successRate :: f64
  raw_totalOrders :: int
  raw_timestamp :: int

section \<open>The queries\<close>

text \<open>\<open>id IN (SELECT MAX(id) FROM benchmark_metrics GROUP BY submission_id)\<close>\<close>

definition is_group_max :: "metric_row list \<Rightarrow> int \<Rightarrow> bool" where
  "is_group_max tbl i \<longleftrightarrow>
     (\<exists>r \<in> set tbl. id_col r = i \<and>
        (\<forall>r' \<in> set tbl. submission_id_col r' = submission_id_col r \<longrightarrow> id_col r' \<le> i))"

definition sql_latest :: "metric_row list \<Rightarrow> metric_row list" where
  "sql_latest tbl = filter (\<lambda>r. is_group_max tbl (id_col r)) tbl"

definition scan_run :: "metric_row \<Rightarrow> rawRun" where
  "scan_run r =
     \<lparr>submissionID = submission_id_col r,
      raw_p50 = coalesce [p50_col r] 0,
      raw_p90 = coalesce [p90_col r, p50_col r] 0,
      raw_p99 = coalesce [p99_col r] 0,
      raw_successRate = coalesce [success_rate_col r] (Fin 0),
      raw_totalOrders = coalesce [total_orders_col r] 0,
      raw_timestamp = coalesce [timestamp_col r] 0\<rparr>"

text \<open>\<open>WHERE submission_id = $1 ORDER BY timestamp DESC\<close>; NULL sorts first, as in PostgreSQL.\<close>

definition ts_before :: "metric_row \<Rightarrow> metric_row \<Rightarrow> bool" where
  "ts_before a b =
     (case (timestamp_col a, timestamp_col b) of
        (None, Some _) \<Rightarrow> True
      | (Some s, Some t) \<Rightarrow> s > t
      | (_, None) \<Rightarrow> False)"

definition sql_runs_of :: "string \<Rightarrow> metric_row list \<Rightarrow> metric_row list" where
  "sql_runs_of sid tbl = sort_slice ts_before (filter (\<lambda>r. submission_id_col r = sid) tbl)"

section \<open>GET /api/scores\<close>

text \<open>Seconds or milliseconds, told apart by size; a missing timestamp is now.\<close>

definition ts_string :: "int \<Rightarrow> int \<Rightarrow> string" where
  "ts_string now_secs ts =
     rfc3339 (if ts > 200000000000 then ts div 1000 else if ts > 0 then ts else now_secs)"

definition est_tps :: "int \<Rightarrow> int \<Rightarrow> f64" where
  "est_tps totalOrders p99 =
     math_Min (f64_div (f64_mul (f64_of_int totalOrders) (Fin 1000000)) (f64_of_int p99)) (Fin 1000000)"

definition row_of_run :: "int \<Rightarrow> rawRun \<Rightarrow> LeaderboardRow" where
  "row_of_run now_secs run =
     (let score = lb_calculateScore (raw_p50 run) (raw_p99 run) (raw_successRate run);
          tps = (if raw_p99 run > 0 then est_tps (raw_totalOrders run) (raw_p99 run) else Fin 0)
      in \<lparr>Rank = 0, SubmissionID = submissionID run, P50Micros = raw_p50 run,
          P90Micros = raw_p90 run, P99Micros = raw_p99 run,
          SuccessRate = roundFloat (raw_successRate run) 4, Score = score,
          TotalOrders = raw_totalOrders run, CorrectnessViolations = 0,
          TPS = roundFloat tps 2, Timestamp = ts_string now_secs (raw_timestamp run)\<rparr>)"

text \<open>The condition under which a row replaces the one kept for its submission.\<close>

definition row_better :: "LeaderboardRow \<Rightarrow> LeaderboardRow \<Rightarrow> bool" where
  "row_better new existing \<longleftrightarrow>
     f64_gt (Score new) (Score existing) \<or>
     (f64_eq (Score new) (Score existing) \<and> P99Micros new < P99Micros existing)"

text \<open>The comparator given to \<open>sort.Slice\<close>.\<close>

definition row_less :: "LeaderboardRow \<Rightarrow> LeaderboardRow \<Rightarrow> bool" where
  "row_less a b =
     (if \<not> f64_eq (Score a) (Score b) then f64_gt (Score a) (Score b)
      else P99Micros a < P99Micros b)"

definition best_runs :: "LeaderboardRow list \<Rightarrow> (string \<times> LeaderboardRow) list" where
  "best_runs rows = fold (\<lambda>(k, v). keep_best row_better k v) (map (\<lambda>r. (SubmissionID r, r)) rows) []"

text \<open>Range over the map, sort, cut to 100, number from 1.\<close>

definition visited :: "(string list \<Rightarrow> string list) \<Rightarrow> (string \<times> 'v) list \<Rightarrow> 'v list" where
  "visited visit m = map (\<lambda>k. the (map_of m k)) (visit (map fst m))"

definition set_ranks :: "LeaderboardRow list \<Rightarrow> LeaderboardRow list" where
  "set_ranks rows = map (\<lambda>(i, r). r\<lparr>Rank := int i + 1\<rparr>) (enumerate 0 rows)"

definition build_board ::
  "(string list \<Rightarrow> string list) \<Rightarrow> LeaderboardRow list \<Rightarrow> LeaderboardRow list" where
  "build_board visit rows =
     set_ranks (take 100 (sort_slice row_less (visited visit (best_runs rows))))"

definition row_json :: "LeaderboardRow \<Rightarrow> json" where
  "row_json r = JObj
     [(''rank'', JInt (Rank r)), (''submission_id'', JStr (SubmissionID r)),
      (''p50_micros'', JInt (P50Micros r)), (''p90_micros'', JInt (P90Micros r)),
      (''p99_micros'', JInt (P99Micros r)), (''success_rate'', JFloat (SuccessRate r)),
      (''score'', JFloat (Score r)), (''total_orders'', JInt (TotalOrders r)),
      (''correctness_violations'', JInt (CorrectnessViolations r)),
      (''tps'', JFloat (TPS r)), (''timestamp'', JStr (Timestamp r))]"

definition scores_json :: "int \<Rightarrow> LeaderboardRow list \<Rightarrow> json" where
  "scores_json now_secs rows = JObj
     [(''scores'', JArr (map row_json rows)), (''last_updated'', JStr (rfc3339 now_secs)),
      (''active_benchmarks'', JInt 0)]"

text \<open>The rows a loop processes: those that arrive and scan.\<close>

definition scanned :: "lb_db \<Rightarrow> metric_row list \<Rightarrow> metric_row list" where
  "scanned d rows =
     filter (\<lambda>r. \<not> scan_fails d r) (case iter_stop d of None \<Rightarrow> rows | Some k \<Rightarrow> take k rows)"

definition scores_rows :: "lb_db \<Rightarrow> LeaderboardRow list" where
  "scores_rows d = map (row_of_run (now d) \<circ> scan_run) (scanned d (sql_latest (metrics d)))"

definition handleScores ::
  "(string list \<Rightarrow> string list) \<Rightarrow> (http_request, lb_db) handler" where
  "handleScores visit req d w =
     (if req_method req \<noteq> ''GET'' then (d, lb_writeError 405 ''method not allowed'' w, False)
      else if query_fails d then (d, lb_writeError 500 ''database query failed'' w, False)
      else if iter_stop d \<noteq> None then (d, lb_writeError 500 ''result iteration failed'' w, False)
      else (d, lb_writeJSON 200 (scores_json (now d) (build_board visit (scores_rows d))) w, False))"

section \<open>GET /api/scores/:id\<close>

record detail_acc =
  runs :: "RunRecord list"
  bestScore :: f64
  bestP99 :: int

definition math_MaxInt64 :: int where
  "math_MaxInt64 = 2 ^ 63 - 1"

definition run_of_row :: "int \<Rightarrow> metric_row \<Rightarrow> RunRecord" where
  "run_of_row now_secs r =
     (let p50 = coalesce [p50_col r] 0; p99 = coalesce [p99_col r] 0;
          successRate = coalesce [success_rate_col r] (Fin 0);
          totalOrders = coalesce [total_orders_col r] 0;
          tps = (if p99 > 0 \<and> totalOrders > 0 then est_tps totalOrders p99 else Fin 0)
      in \<lparr>rr_RunID = id_col r, rr_P50Micros = p50, rr_P90Micros = coalesce [p90_col r, p50_col r] 0,
          rr_P99Micros = p99, rr_SuccessRate = roundFloat successRate 4,
          rr_Score = lb_calculateScore p50 p99 successRate, rr_TPS = roundFloat tps 2,
          rr_Timestamp = ts_string now_secs (coalesce [timestamp_col r] 0)\<rparr>)"

definition detail_step :: "RunRecord \<Rightarrow> detail_acc \<Rightarrow> detail_acc" where
  "detail_step run acc =
     \<lparr>runs = runs acc @ [run],
      bestScore = (if f64_gt (rr_Score run) (bestScore acc) then rr_Score run else bestScore acc),
      bestP99 = (if rr_P99Micros run > 0 \<and> rr_P99Micros run < bestP99 acc
                 then rr_P99Micros run else bestP99 acc)\<rparr>"

definition detail_of :: "RunRecord list \<Rightarrow> detail_acc" where
  "detail_of rs =
     (let acc = fold detail_step rs \<lparr>runs = [], bestScore = Fin 0, bestP99 = math_MaxInt64\<rparr>
      in if bestP99 acc = math_MaxInt64 then acc\<lparr>bestP99 := 0\<rparr> else acc)"

definition run_json :: "RunRecord \<Rightarrow> json" where
  "run_json r = JObj
     [(''run_id'', JInt (rr_RunID r)), (''p50_micros'', JInt (rr_P50Micros r)),
      (''p90_micros'', JInt (rr_P90Micros r)), (''p99_micros'', JInt (rr_P99Micros r)),
      (''success_rate'', JFloat (rr_SuccessRate r)), (''score'', JFloat (rr_Score r)),
      (''tps'', JFloat (rr_TPS r)), (''timestamp'', JStr (rr_Timestamp r))]"

text \<open>A nil slice encodes as \<open>null\<close>.\<close>

definition detail_json :: "string \<Rightarrow> detail_acc \<Rightarrow> json" where
  "detail_json sid acc = JObj
     [(''submission_id'', JStr sid),
      (''runs'', if runs acc = [] then JNull else JArr (map run_json (runs acc))),
      (''best_score'', JFloat (roundFloat (bestScore acc) 2)), (''best_p99'', JInt (bestP99 acc))]"

definition detail_runs :: "lb_db \<Rightarrow> string \<Rightarrow> RunRecord list" where
  "detail_runs d sid = map (run_of_row (now d)) (scanned d (sql_runs_of sid (metrics d)))"

definition handleSubmissionDetail :: "(http_request, lb_db) handler" where
  "handleSubmissionDetail req d w =
     (if req_method req \<noteq> ''GET'' then (d, lb_writeError 405 ''method not allowed'' w, False)
      else let sid = TrimSpace (TrimPrefix (req_path req) ''/api/scores/'') in
        if sid = '''' then (d, lb_writeError 400 ''missing submission_id'' w, False)
        else if query_fails d then (d, lb_writeError 500 ''database query failed'' w, False)
        else if iter_stop d \<noteq> None then (d, lb_writeError 500 ''result iteration failed'' w, False)
        else (d, lb_writeJSON 200 (detail_json sid (detail_of (detail_runs d sid))) w, False))"

section \<open>GET /api/leaderboard (legacy)\<close>

definition legacy_row :: "metric_row \<Rightarrow> LeaderboardRow" where
  "legacy_row r =
     (let p50 = coalesce [p50_col r] 0; p99 = coalesce [p99_col r] 0;
          successRate = coalesce [success_rate_col r] (Fin 0)
      in \<lparr>Rank = 0, SubmissionID = submission_id_col r, P50Micros = 0, P90Micros = 0,
          P99Micros = p99, SuccessRate = roundFloat (f64_mul successRate (Fin 100)) 2,
          Score = lb_calculateScore p50 p99 successRate, TotalOrders = 0,
          CorrectnessViolations = 0, TPS = Fin 0, Timestamp = ''''\<rparr>)"

definition legacy_rows :: "lb_db \<Rightarrow> LeaderboardRow list" where
  "legacy_rows d = map legacy_row (scanned d (sql_latest (metrics d)))"

text \<open>This handler does not ask for the iteration's error.\<close>

definition handleLegacyLeaderboard ::
  "(string list \<Rightarrow> string list) \<Rightarrow> (http_request, lb_db) handler" where
  "handleLegacyLeaderboard visit req d w =
     (if req_method req \<noteq> ''GET'' then (d, lb_writeError 405 ''method not allowed'' w, False)
      else if query_fails d then (d, lb_writeError 500 ''database query failed'' w, False)
      else (d, lb_writeJSON 200 (JArr (map row_json (build_board visit (legacy_rows d)))) w, False))"

section \<open>Health, routes and the server\<close>

definition lb_healthHandler :: "int \<Rightarrow> (http_request, lb_db) handler" where
  "lb_healthHandler start req d w =
     (d, lb_writeJSON 200 (JObj [(''status'', JStr ''ok''), (''uptime_seconds'', JInt (now d - start))]) w,
      False)"

definition listen_addr :: "string \<Rightarrow> string" where
  "listen_addr port =
     (if port = '''' then '':3001''
      else if \<not> HasPrefix port '':'' then '':'' @ port else port)"

text \<open>
  The routes of \<open>main\<close>, by the elements of the path; \<open>static\<close> is the file server under
  \<open>./frontend\<close>, \<open>moved\<close> the location of a redirect and the text that goes with it. The
  pattern \<open>/api/scores/\<close> takes everything below it, and \<open>/\<close> the rest. (A \<open>CONNECT\<close> without
  a path is sent to \<open>/\<close>.)
\<close>

definition lb_routes ::
  "(string list \<Rightarrow> string list) \<Rightarrow> int \<Rightarrow> (http_request, lb_db) handler \<Rightarrow> (http_request \<Rightarrow> string \<times> string)
    \<Rightarrow> string list \<Rightarrow> (http_request, lb_db) handler"
where
  "lb_routes visit start static moved segs =
     (if segs = [''health''] then lb_healthHandler start
      else if segs = [''api'', ''scores''] then handleScores visit
      else if take 2 segs = [''api'', ''scores''] then handleSubmissionDetail
      else if segs = [''api'', ''leaderboard''] then handleLegacyLeaderboard visit
      else if segs = [] then (\<lambda>req d w. (d, redirect (req_method req) (moved req) w, False))
      else static)"

definition lb_mux ::
  "(string list \<Rightarrow> string list) \<Rightarrow> int \<Rightarrow> (http_request, lb_db) handler \<Rightarrow> (http_request \<Rightarrow> string \<times> string)
    \<Rightarrow> (http_request, lb_db) handler"
where
  "lb_mux visit start static moved =
     serve_mux req_method req_escaped moved (lb_routes visit start static moved)"

definition lb_log_line :: "http_request \<Rightarrow> string \<times> string" where
  "lb_log_line req = (req_method req, req_path req)"

definition lb_server ::
  "(string list \<Rightarrow> string list) \<Rightarrow> int \<Rightarrow> (http_request, lb_db) handler \<Rightarrow> (http_request \<Rightarrow> string \<times> string)
    \<Rightarrow> (http_request, lb_db \<times> access_log) handler"
where
  "lb_server visit start static moved =
     withCORS req_method (with_recovery lb_writeError (with_logging lb_log_line (lb_mux visit start static moved)))"

section \<open>The order of the rows\<close>

lemma row_better_less: "row_better a b = row_less a b"
proof -
  have "\<not> f64_lt x x" for x by (cases x) simp_all
  then show ?thesis unfolding row_better_def row_less_def f64_eq_def by metis
qed

lemma row_less_iff:
  "Score a \<noteq> FNaN \<Longrightarrow> Score b \<noteq> FNaN \<Longrightarrow>
   row_less a b \<longleftrightarrow> Score b < Score a \<or> (Score a = Score b \<and> P99Micros a < P99Micros b)"
  by (auto simp: row_less_def f64_eq_def f64_lt_iff)

interpretation row_order: weak_order row_less "\<lambda>r. Score r \<noteq> FNaN"
proof
  fix a b c :: LeaderboardRow
  assume "Score a \<noteq> FNaN" "Score b \<noteq> FNaN"
  then show "row_less a b \<Longrightarrow> \<not> row_less b a"
    by (simp only: row_less_iff lex_asym not_False_eq_True)
  assume "Score c \<noteq> FNaN"
  then show "row_less a c \<Longrightarrow> row_less a b \<or> row_less b c"
    using \<open>Score a \<noteq> FNaN\<close> \<open>Score b \<noteq> FNaN\<close>
    by (simp only: row_less_iff lex_cotrans not_False_eq_True)
qed

lemma row_less_rank [simp]:
  "row_less (a\<lparr>Rank := i\<rparr>) b = row_less a b" "row_less a (b\<lparr>Rank := i\<rparr>) = row_less a b"
  by (simp_all add: row_less_def)

abbreviation permutes_keys :: "(string list \<Rightarrow> string list) \<Rightarrow> bool" where
  "permutes_keys visit \<equiv> \<forall>ks. mset (visit ks) = mset ks"

lemma wf_best_runs: "wf_alist (best_runs rows)"
  unfolding best_runs_def by (rule wf_keep_fold) simp

lemma dom_best_runs: "fst ` set (best_runs rows) = SubmissionID ` set rows"
  unfolding best_runs_def dom_keep_fold by (simp add: image_image)

text \<open>What the map holds for a submission: a row of it that no row of it beats.\<close>

lemma best_runs_best:
  assumes "\<forall>r \<in> set rows. Score r \<noteq> FNaN" "map_of (best_runs rows) k = Some v"
  shows "v \<in> set rows \<and> SubmissionID v = k \<and>
    (\<forall>r \<in> set rows. SubmissionID r = k \<longrightarrow> \<not> row_less r v)"
proof -
  let ?kvs = "map (\<lambda>r. (SubmissionID r, r)) rows"
  have b: "best_runs rows = fold (\<lambda>(k, v). keep_best row_less k v) ?kvs []"
    by (simp add: best_runs_def row_better_less [abs_def])
  have "case map_of (best_runs rows) k of None \<Rightarrow> {} \<union> {v. (k, v) \<in> set ?kvs} = {}
    | Some v \<Rightarrow> row_order.best_among ({} \<union> {v. (k, v) \<in> set ?kvs}) v"
    unfolding b by (rule row_order.keep_best_fold) (use assms(1) in auto)
  with assms(2) show ?thesis by (auto simp: row_order.best_among_def image_iff)
qed

lemma visited_props:
  assumes "permutes_keys visit" "wf_alist m"
  shows "mset (visited visit m) = mset (map snd m)"
proof -
  have "mset (visited visit m) = image_mset (\<lambda>k. the (map_of m k)) (mset (visit (map fst m)))"
    by (simp add: visited_def)
  also have "\<dots> = image_mset (\<lambda>k. the (map_of m k)) (mset (map fst m))" using assms(1) by simp
  also have "\<dots> = image_mset snd (mset m)"
    using assms(2) by (auto simp: image_mset.compositionality intro!: image_mset_cong)
  finally show ?thesis by simp
qed

section \<open>The board\<close>

lemma length_set_ranks [simp]: "length (set_ranks rows) = length rows"
  by (simp add: set_ranks_def)

lemma nth_set_ranks: "i < length rows \<Longrightarrow> set_ranks rows ! i = (rows ! i)\<lparr>Rank := int i + 1\<rparr>"
  by (simp add: set_ranks_def nth_enumerate_eq)

lemma map_set_ranks:
  assumes "\<And>r i. f (r\<lparr>Rank := i\<rparr>) = f r"
  shows "map f (set_ranks rows) = map f rows"
  by (rule nth_equalityI) (simp_all add: nth_set_ranks assms)

abbreviation ordered_rows ::
  "(string list \<Rightarrow> string list) \<Rightarrow> LeaderboardRow list \<Rightarrow> LeaderboardRow list" where
  "ordered_rows visit rows \<equiv> sort_slice row_less (visited visit (best_runs rows))"

lemma ordered_rows_mset:
  "permutes_keys visit \<Longrightarrow> mset (ordered_rows visit rows) = mset (map snd (best_runs rows))"
  by (simp add: visited_props wf_best_runs)

lemma ordered_rows_ids:
  assumes "permutes_keys visit" "\<forall>r \<in> set rows. Score r \<noteq> FNaN"
  shows "distinct (map SubmissionID (ordered_rows visit rows))"
    and "SubmissionID ` set (ordered_rows visit rows) = SubmissionID ` set rows"
proof -
  have e: "map SubmissionID (map snd (best_runs rows)) = map fst (best_runs rows)"
    unfolding map_map
  proof (rule map_cong [OF refl])
    fix kv assume "kv \<in> set (best_runs rows)"
    then have "map_of (best_runs rows) (fst kv) = Some (snd kv)"
      using wf_best_runs [of rows] by (intro map_of_is_SomeI) auto
    from best_runs_best [OF assms(2) this] show "(SubmissionID \<circ> snd) kv = fst kv" by simp
  qed
  have "mset (map SubmissionID (ordered_rows visit rows)) = mset (map fst (best_runs rows))"
    unfolding e [symmetric] mset_map ordered_rows_mset [OF assms(1)] ..
  then show "distinct (map SubmissionID (ordered_rows visit rows))"
    using wf_best_runs [of rows] mset_eq_imp_distinct_iff by blast
  have "set (map SubmissionID (ordered_rows visit rows)) = set (map fst (best_runs rows))"
    using \<open>mset (map SubmissionID (ordered_rows visit rows)) = mset (map fst (best_runs rows))\<close>
    by (rule mset_eq_setD)
  then show "SubmissionID ` set (ordered_rows visit rows) = SubmissionID ` set rows"
    using dom_best_runs [of rows] by simp
qed

lemma ordered_rows_best:
  assumes "permutes_keys visit" "\<forall>r \<in> set rows. Score r \<noteq> FNaN" "v \<in> set (ordered_rows visit rows)"
  shows "v \<in> set rows" and "\<forall>r \<in> set rows. SubmissionID r = SubmissionID v \<longrightarrow> \<not> row_less r v"
proof -
  have "v \<in> set (map snd (best_runs rows))"
    using mset_eq_setD [OF ordered_rows_mset [OF assms(1)]] assms(3) by simp
  then obtain k where "(k, v) \<in> set (best_runs rows)" by auto
  then have "map_of (best_runs rows) k = Some v" using set_alist_map_of [OF wf_best_runs] by blast
  from best_runs_best [OF assms(2) this]
  show "v \<in> set rows" and "\<forall>r \<in> set rows. SubmissionID r = SubmissionID v \<longrightarrow> \<not> row_less r v"
    by auto
qed

text \<open>The specification of a ranking: what both leaderboard handlers promise of their rows.\<close>

definition is_ranking :: "LeaderboardRow list \<Rightarrow> LeaderboardRow list \<Rightarrow> bool" where
  "is_ranking rows board \<longleftrightarrow>
     length board = min 100 (card (SubmissionID ` set rows)) \<and>
     map Rank board = map int [1..<Suc (length board)] \<and>
     distinct (map SubmissionID board) \<and>
     (\<forall>i j. i < j \<and> j < length board \<longrightarrow> \<not> row_less (board ! j) (board ! i)) \<and>
     (\<forall>b \<in> set board. \<exists>r \<in> set rows. b = r\<lparr>Rank := Rank b\<rparr> \<and>
        (\<forall>r' \<in> set rows. SubmissionID r' = SubmissionID b \<longrightarrow> \<not> row_less r' b)) \<and>
     (\<forall>r \<in> set rows. SubmissionID r \<notin> SubmissionID ` set board \<longrightarrow>
        (\<exists>r' \<in> set rows. SubmissionID r' = SubmissionID r \<and> (\<forall>b \<in> set board. \<not> row_less r' b)))"

lemma row_rank_id [simp]: "r\<lparr>Rank := i, Rank := j\<rparr> = r\<lparr>Rank := j\<rparr>"
  by simp

text \<open>The board holds the first 100 of the ordered rows; what is left out is no better.\<close>

lemma board_members:
  "x \<in> set (build_board visit rows) \<Longrightarrow> \<exists>r \<in> set (take 100 (ordered_rows visit rows)). \<exists>i. x = r\<lparr>Rank := i\<rparr>"
proof -
  assume "x \<in> set (build_board visit rows)"
  then obtain i where i: "i < length (take 100 (ordered_rows visit rows))"
    "x = (take 100 (ordered_rows visit rows) ! i)\<lparr>Rank := int i + 1\<rparr>"
    unfolding build_board_def by (auto simp: in_set_conv_nth nth_set_ranks)
  from nth_mem [OF i(1)] i(2) show ?thesis by blast
qed

lemma board_left_out:
  assumes "permutes_keys visit" "\<forall>r \<in> set rows. Score r \<noteq> FNaN"
    and "r \<in> set rows" "SubmissionID r \<notin> SubmissionID ` set (build_board visit rows)"
  shows "\<exists>r' \<in> set rows. SubmissionID r' = SubmissionID r \<and> (\<forall>b \<in> set (build_board visit rows). \<not> row_less r' b)"
proof -
  let ?s = "ordered_rows visit rows" and ?b = "build_board visit rows"
  note ids = ordered_rows_ids [OF assms(1,2)] and best = ordered_rows_best [OF assms(1,2)]
  have ok: "\<forall>v \<in> set (visited visit (best_runs rows)). Score v \<noteq> FNaN"
    using best(1) assms(2) by auto
  have "SubmissionID r \<in> SubmissionID ` set ?s" unfolding ids(2) using assms(3) by (rule imageI)
  then obtain v where v: "v \<in> set ?s" "SubmissionID v = SubmissionID r" by (metis imageE)
  have "map SubmissionID ?b = map SubmissionID (take 100 ?s)"
    unfolding build_board_def by (rule map_set_ranks) simp
  from arg_cong [OF this, of set] have "SubmissionID ` set ?b = SubmissionID ` set (take 100 ?s)"
    by (simp only: set_map)
  then have "v \<notin> set (take 100 ?s)" using assms(4) v(2) by (metis imageI)
  moreover have "set ?s = set (take 100 ?s) \<union> set (drop 100 ?s)"
    by (metis append_take_drop_id set_append)
  ultimately have d: "v \<in> set (drop 100 ?s)" using v(1) by blast
  have "\<not> row_less v x" if "x \<in> set ?b" for x
    using board_members [OF that] row_order.top_no_worse [OF ok _ d] by fastforce
  then show ?thesis using best(1) [OF v(1)] v(2) by blast
qed

lemma build_board_ranking:
  assumes "permutes_keys visit" "\<forall>r \<in> set rows. Score r \<noteq> FNaN"
  shows "is_ranking rows (build_board visit rows)"
proof -
  let ?s = "ordered_rows visit rows" and ?b = "build_board visit rows"
  note ids = ordered_rows_ids [OF assms] and best = ordered_rows_best [OF assms]
  have b: "?b = set_ranks (take 100 ?s)" by (simp add: build_board_def)
  have len: "length (visited visit (best_runs rows)) = card (SubmissionID ` set rows)"
    using distinct_card [OF ids(1)] ids(2) by (simp del: set_sort_slice)
  have nth: "?b ! i = (?s ! i)\<lparr>Rank := int i + 1\<rparr>" if "i < length ?b" for i
    using that by (simp add: b nth_set_ranks)
  have ok: "\<forall>v \<in> set (visited visit (best_runs rows)). Score v \<noteq> FNaN"
    using best(1) assms(2) by auto
  have srt: "sorted_wrt (\<lambda>a b. \<not> row_less b a) ?s" using row_order.sort_slice_sorted [OF ok] .
  have idb: "map SubmissionID ?b = map SubmissionID (take 100 ?s)"
    unfolding b by (rule map_set_ranks) simp
  show ?thesis unfolding is_ranking_def
  proof (intro conjI allI impI ballI)
    show "length ?b = min 100 (card (SubmissionID ` set rows))" by (simp add: b len min.commute)
    show "map Rank ?b = map int [1..<Suc (length ?b)]"
      by (rule nth_equalityI) (simp_all add: nth del: upt_Suc)
    show "distinct (map SubmissionID ?b)"
      unfolding idb using ids(1) by (metis distinct_take take_map)
    fix i j assume "i < j \<and> j < length ?b"
    then show "\<not> row_less (?b ! j) (?b ! i)"
      using srt by (simp add: sorted_wrt_iff_nth_less b nth_set_ranks)
  next
    fix x assume "x \<in> set ?b"
    then obtain r i where r: "r \<in> set ?s" "x = r\<lparr>Rank := i\<rparr>" using board_members in_set_takeD by metis
    then show "\<exists>r \<in> set rows. x = r\<lparr>Rank := Rank x\<rparr> \<and>
        (\<forall>r' \<in> set rows. SubmissionID r' = SubmissionID x \<longrightarrow> \<not> row_less r' x)"
      using best [OF r(1)] by (intro bexI [of _ r]) auto
  next
    fix r assume "r \<in> set rows" "SubmissionID r \<notin> SubmissionID ` set ?b"
    with assms show "\<exists>r' \<in> set rows. SubmissionID r' = SubmissionID r \<and> (\<forall>b \<in> set ?b. \<not> row_less r' b)"
      by (rule board_left_out)
  qed
qed

section \<open>Well-formed data\<close>

text \<open>
  What the columns' types give: \<open>BIGINT\<close> values are \<open>int64\<close>. A healthy row also has a
  success rate between 0 and 1, which is what the load generator reports.
\<close>

definition typed_row :: "metric_row \<Rightarrow> bool" where
  "typed_row r \<longleftrightarrow> int64_ok (coalesce [p50_col r] 0) \<and> int64_ok (coalesce [p99_col r] 0) \<and>
     int64_ok (coalesce [total_orders_col r] 0)"

definition healthy_row :: "metric_row \<Rightarrow> bool" where
  "healthy_row r \<longleftrightarrow> typed_row r \<and> unit_rate (coalesce [success_rate_col r] (Fin 0))"

lemma row_of_run_sel [simp]:
  "SubmissionID (row_of_run n (scan_run r)) = submission_id_col r"
  "P99Micros (row_of_run n (scan_run r)) = coalesce [p99_col r] 0"
  "Score (row_of_run n (scan_run r)) =
     lb_calculateScore (coalesce [p50_col r] 0) (coalesce [p99_col r] 0) (coalesce [success_rate_col r] (Fin 0))"
  "SuccessRate (row_of_run n (scan_run r)) = roundFloat (coalesce [success_rate_col r] (Fin 0)) 4"
  by (simp_all add: row_of_run_def scan_run_def Let_def)

lemma pow10_4: "math_Pow10 4 = Fin 10000"
  using f64_round_int [of 10000] by (simp add: math_Pow10_def)

lemma fbound_unit: "unit_rate r \<Longrightarrow> fbound 0 r"
  using f64_between [of 0 r 1] by (fastforce simp: fbound_def)

lemma fbound_10k: "fbound 14 (Fin 10000)" "fbound 7 (Fin 100)" "fbound 20 (Fin 1000000)"
  by (simp_all add: fbound_def)

lemma round4_finite: "unit_rate r \<Longrightarrow> is_finite (roundFloat r 4)"
  unfolding roundFloat_def pow10_4 Let_def
  by (rule fbound_finite [OF fbound_div [OF fbound_Round [OF fbound_mul [OF fbound_unit fbound_10k(1)]]]])
     simp_all

lemma est_tps_bound:
  assumes "int64_ok n" "0 < p" "p < 2 ^ 63"
  shows "fbound 83 (est_tps n p)"
proof -
  obtain b where b: "f64_of_int p = Fin b" "1 \<le> b"
    using pos64_of_int [of p] assms f64_between by metis
  have "fbound 63 (f64_of_int n)" using assms by (intro fbound_of_int) auto
  from fbound_mul [OF this fbound_10k(3)]
  have "fbound 83 (f64_div (f64_mul (f64_of_int n) (Fin 1000000)) (f64_of_int p))"
    using b by (auto intro: fbound_div)
  then show ?thesis unfolding est_tps_def
    by (rule fbound_Min) (rule fbound_mono [OF fbound_10k(3)], simp)
qed

lemma round2_finite: "fbound 83 x \<Longrightarrow> is_finite (roundFloat x 2)"
  unfolding roundFloat_2
  by (rule fbound_finite [OF fbound_div [OF fbound_Round [OF fbound_mul [of 83, OF _ fbound_10k(2)]]]])
     simp_all

lemma lb_score_pct:
  assumes "int64_ok p50" "int64_ok p99" "unit_rate r"
  shows "pct (lb_calculateScore p50 p99 r)"
proof (cases "p99 \<le> 0 \<or> p50 \<le> 0")
  case True
  then show ?thesis by (auto simp: lb_calculateScore_def)
next
  case False
  with assms have "pct (sub_calculateScore p50 p99 r)" by (intro sub_score_mono_all(2)) auto
  then show ?thesis by (simp add: sub_lb_score)
qed

lemma pct_finite: "pct x \<Longrightarrow> is_finite x"
  using f64_between [of 0 x 100] by (fastforce simp: is_finite_def)

lemma pct_fbound: "pct x \<Longrightarrow> fbound 83 x"
  using f64_between [of 0 x 100] by (fastforce simp: fbound_def)

lemma healthy_encodable:
  assumes "healthy_row r"
  shows "encodable (row_json (row_of_run n (scan_run r)))"
proof -
  have "is_finite (Score (row_of_run n (scan_run r)))"
    using assms lb_score_pct unfolding healthy_row_def typed_row_def row_of_run_sel
    by (blast intro: pct_finite)
  moreover have "is_finite (SuccessRate (row_of_run n (scan_run r)))"
    using assms by (simp add: healthy_row_def round4_finite del: coalesce.simps)
  moreover have "is_finite (TPS (row_of_run n (scan_run r)))"
    using assms est_tps_bound
    by (auto simp: row_of_run_def scan_run_def Let_def healthy_row_def typed_row_def fbound_def [of _ "Fin 0"]
        simp del: coalesce.simps intro!: round2_finite)
  ultimately show ?thesis by (simp add: row_json_def)
qed

lemma score_not_nan_typed:
  "typed_row r \<Longrightarrow> coalesce [success_rate_col r] (Fin 0) \<noteq> FNaN \<Longrightarrow>
   Score (row_of_run n (scan_run r)) \<noteq> FNaN"
  unfolding typed_row_def row_of_run_sel sub_lb_score [symmetric]
  by (rule sub_score_not_nan) simp_all

section \<open>Latest run, order-only view, details\<close>

lemma sql_latest_iff:
  assumes "distinct (map id_col tbl)"
  shows "r \<in> set (sql_latest tbl) \<longleftrightarrow> r \<in> set tbl \<and>
    (\<forall>r' \<in> set tbl. submission_id_col r' = submission_id_col r \<longrightarrow> id_col r' \<le> id_col r)"
  using assms by (auto simp: sql_latest_def is_group_max_def distinct_map dest: inj_onD)

lemma scanned_subset: "set (scanned d rows) \<subseteq> set rows"
  by (auto simp: scanned_def split: option.splits dest: in_set_takeD)

lemma sql_latest_subset: "set (sql_latest tbl) \<subseteq> set tbl"
  by (auto simp: sql_latest_def)

lemma scores_rows_not_nan:
  assumes "\<forall>r \<in> set (metrics d). typed_row r \<and> coalesce [success_rate_col r] (Fin 0) \<noteq> FNaN"
  shows "\<forall>r \<in> set (scores_rows d). Score r \<noteq> FNaN"
  using assms scanned_subset [of d "sql_latest (metrics d)"] sql_latest_subset [of "metrics d"]
    score_not_nan_typed unfolding scores_rows_def by fastforce

text \<open>What the ranking reads of a row.\<close>

definition core :: "LeaderboardRow \<Rightarrow> string \<times> f64 \<times> int" where
  "core r = (SubmissionID r, Score r, P99Micros r)"

definition core_less :: "string \<times> f64 \<times> int \<Rightarrow> string \<times> f64 \<times> int \<Rightarrow> bool" where
  "core_less a b =
     (if \<not> f64_eq (fst (snd a)) (fst (snd b)) then f64_gt (fst (snd a)) (fst (snd b))
      else snd (snd a) < snd (snd b))"

lemma core_less [simp]: "core_less (core a) (core b) = row_less a b"
  by (simp add: core_def core_less_def row_less_def)

abbreviation map_core :: "(string \<times> LeaderboardRow) list \<Rightarrow> (string \<times> string \<times> f64 \<times> int) list" where
  "map_core \<equiv> map (map_prod id core)"

lemma map_of_map_core: "map_of (map_core m) k = map_option core (map_of m k)"
  by (induction m) auto

lemma update_map_core: "AList.update k (core v) (map_core m) = map_core (AList.update k v m)"
  by (induction m) auto

lemma keep_best_core: "keep_best core_less k (core v) (map_core m) = map_core (keep_best row_better k v m)"
  by (simp add: keep_best_def map_of_map_core update_map_core row_better_less split: option.split)

lemma best_runs_core:
  "map_core (best_runs rows) = fold (\<lambda>c. keep_best core_less (fst c) c) (map core rows) []"
proof -
  have fst: "fst (core r) = SubmissionID r" for r by (simp add: core_def)
  have "map_core (fold (\<lambda>(k, v). keep_best row_better k v) (map (\<lambda>r. (SubmissionID r, r)) rows) m)
      = fold (\<lambda>c. keep_best core_less (fst c) c) (map core rows) (map_core m)" for m
    by (induction rows arbitrary: m) (simp_all add: keep_best_core fst)
  from this [of "[]"] show ?thesis by (simp add: best_runs_def)
qed

lemma visited_core:
  assumes "permutes_keys visit"
  shows "map core (visited visit m) = visited visit (map_core m)"
proof -
  have "set (visit (map fst m)) = fst ` set m"
    using assms by (metis mset_eq_setD set_map)
  then have "core (the (map_of m k)) = the (map_of (map_core m) k)" if "k \<in> set (visit (map fst m))" for k
    using that by (cases "map_of m k") (auto simp: map_of_map_core map_of_eq_None)
  then show ?thesis by (simp add: visited_def comp_def)
qed

lemma board_core:
  assumes "permutes_keys visit"
  shows "map core (build_board visit rows)
    = take 100 (sort_slice core_less (visited visit
        (fold (\<lambda>c. keep_best core_less (fst c) c) (map core rows) [])))"
proof -
  have "map core (build_board visit rows) = take 100 (map core (ordered_rows visit rows))"
    unfolding build_board_def take_map by (rule map_set_ranks) (simp add: core_def)
  also have "map core (ordered_rows visit rows) = sort_slice core_less (map core (visited visit (best_runs rows)))"
    by (rule sort_slice_map [symmetric]) simp
  finally show ?thesis by (simp only: visited_core [OF assms] best_runs_core)
qed

lemma ranks_build_board: "map Rank (build_board visit rows) = map int [1..<Suc (length (build_board visit rows))]"
  by (rule nth_equalityI) (simp_all add: build_board_def nth_set_ranks del: upt_Suc)

text \<open>The running maximum and minimum of the detail loop.\<close>

lemma detail_fold:
  assumes "\<forall>r \<in> set rs. rr_Score r \<noteq> FNaN" "bestScore a \<noteq> FNaN"
  shows "runs (fold detail_step rs a) = runs a @ rs"
    and "bestScore (fold detail_step rs a) = Max (insert (bestScore a) (rr_Score ` set rs))"
    and "bestP99 (fold detail_step rs a) = Min (insert (bestP99 a) {p \<in> rr_P99Micros ` set rs. 0 < p})"
  using assms
proof (induction rs arbitrary: a)
  case (Cons r rs)
  { case 1 then show ?case using Cons.IH(1) [of "detail_step r a"] by (simp add: detail_step_def) }
  { case 2
    have "bestScore (detail_step r a) = max (bestScore a) (rr_Score r)"
      using 2 by (auto simp: detail_step_def f64_lt_iff max_def)
    moreover from this 2 have "bestScore (detail_step r a) \<noteq> FNaN" by (simp add: max_def)
    ultimately show ?case using Cons.IH(2) [of "detail_step r a"] 2
      by (cases "rs = []") (simp_all add: max.assoc max.left_commute) }
  { case 3
    have "bestP99 (detail_step r a) = (if 0 < rr_P99Micros r then min (bestP99 a) (rr_P99Micros r) else bestP99 a)"
      by (auto simp: detail_step_def min_def)
    moreover have "bestScore (detail_step r a) \<noteq> FNaN" using 3 by (simp add: detail_step_def)
    moreover have "{p \<in> rr_P99Micros ` set (r # rs). 0 < p}
        = (if 0 < rr_P99Micros r then {rr_P99Micros r} else {}) \<union> {p \<in> rr_P99Micros ` set rs. 0 < p}"
      by auto
    moreover have "Min (insert (min x y) A) = Min (insert x (insert y A))" if "finite A" for x y :: int and A
      using that by (cases "A = {}") (simp_all add: min.assoc)
    ultimately show ?case using Cons.IH(3) [of "detail_step r a"] 3 by simp }
qed simp_all

section \<open>Properties\<close>

lemma healthy_scores:
  assumes "\<forall>r \<in> set (metrics d). healthy_row r"
  shows "\<forall>r \<in> set (scores_rows d). Score r \<noteq> FNaN \<and> encodable (row_json r)"
proof
  fix x assume "x \<in> set (scores_rows d)"
  then obtain r where r: "r \<in> set (metrics d)" "x = row_of_run (now d) (scan_run r)"
    using scanned_subset [of d "sql_latest (metrics d)"] sql_latest_subset [of "metrics d"]
    unfolding scores_rows_def by auto
  have "encodable (row_json x)" using assms r healthy_encodable by blast
  moreover from this have "Score x \<noteq> FNaN" by (auto simp: row_json_def is_finite_def)
  ultimately show "Score x \<noteq> FNaN \<and> encodable (row_json x)" by blast
qed

lemma ranking_encodable:
  assumes "is_ranking rows board" "\<forall>r \<in> set rows. encodable (row_json r)"
  shows "encodable (scores_json n board)"
proof -
  have "encodable (row_json b)" if "b \<in> set board" for b
  proof -
    from that assms(1) obtain r where "r \<in> set rows" "b = r\<lparr>Rank := Rank b\<rparr>"
      unfolding is_ranking_def by blast
    moreover have "encodable (row_json (r\<lparr>Rank := i\<rparr>)) = encodable (row_json r)" for i
      by (simp add: row_json_def)
    ultimately show ?thesis using assms(2) by metis
  qed
  then show ?thesis by (simp add: scores_json_def list_all_iff)
qed

lemma lb_writeJSON_fresh:
  "resp_status (lb_writeJSON st p fresh_rw) = st"
  "encodable p \<Longrightarrow> rw_body (lb_writeJSON st p fresh_rw) = [BJson p]"
  "\<not> encodable p \<Longrightarrow> rw_body (lb_writeJSON st p fresh_rw) = [BText (''json encoding failure'' @ [CHR 0x0A])]"
  unfolding lb_writeJSON_def by (simp_all add: writeJSON_response fresh_rw_def)

lemma handleScores_healthy:
  assumes "permutes_keys visit" "req_method req = ''GET''" "\<not> query_fails d" "iter_stop d = None"
    and "\<forall>r \<in> set (metrics d). healthy_row r"
  shows "handleScores visit req d fresh_rw =
      (d, lb_writeJSON 200 (scores_json (now d) (build_board visit (scores_rows d))) fresh_rw, False)"
    and "rw_body (lb_writeJSON 200 (scores_json (now d) (build_board visit (scores_rows d))) fresh_rw) =
      [BJson (scores_json (now d) (build_board visit (scores_rows d)))]"
    and "is_ranking (scores_rows d) (build_board visit (scores_rows d))"
proof -
  note ok = healthy_scores [OF assms(5)]
  show r: "is_ranking (scores_rows d) (build_board visit (scores_rows d))"
    using assms(1) ok by (intro build_board_ranking) auto
  show "rw_body (lb_writeJSON 200 (scores_json (now d) (build_board visit (scores_rows d))) fresh_rw) =
      [BJson (scores_json (now d) (build_board visit (scores_rows d)))]"
    using ranking_encodable [OF r] ok by (simp add: lb_writeJSON_fresh)
qed (use assms(2-4) in \<open>simp add: handleScores_def\<close>)


definition row_a :: metric_row where
  "row_a = \<lparr>id_col = 1, submission_id_col = ''sub-a'', p50_col = Some 40, p90_col = None,
            p99_col = Some 180, success_rate_col = Some (Fin 1), total_orders_col = Some 1000,
            timestamp_col = Some 1700000000\<rparr>"

definition row_b :: metric_row where
  "row_b = \<lparr>id_col = 2, submission_id_col = ''sub-b'', p50_col = Some 90, p90_col = Some 120,
            p99_col = Some 700, success_rate_col = Some (Fin (1/2)), total_orders_col = Some 10,
            timestamp_col = None\<rparr>"

definition row_a2 :: metric_row where
  "row_a2 = row_a\<lparr>id_col := 3, p99_col := Some 500\<rparr>"

definition db_ab :: lb_db where
  "db_ab = \<lparr>metrics = [row_a, row_b, row_a2], query_fails = False, scan_fails = (\<lambda>_. False),
            iter_stop = None, now = 1700000100\<rparr>"

lemma db_ab_healthy: "\<forall>r \<in> set (metrics db_ab). healthy_row r"
  by (auto simp: db_ab_def row_a_def row_b_def row_a2_def healthy_row_def typed_row_def)

abbreviation get_req :: "string \<Rightarrow> http_request" where
  "get_req p \<equiv> \<lparr>req_method = ''GET'', req_path = p, req_escaped = p\<rparr>"


text \<open>The run a submission is ranked by: its row with the largest id.\<close>

definition latest_run :: "metric_row list \<Rightarrow> metric_row \<Rightarrow> bool" where
  "latest_run tbl r \<longleftrightarrow> r \<in> set tbl \<and>
     (\<forall>r' \<in> set tbl. submission_id_col r' = submission_id_col r \<longrightarrow> id_col r' \<le> id_col r)"

lemma set_sql_latest: "distinct (map id_col tbl) \<Longrightarrow> set (sql_latest tbl) = {r. latest_run tbl r}"
  by (auto simp: sql_latest_iff latest_run_def)

lemma latest_distinct:
  assumes "distinct (map id_col tbl)"
  shows "distinct (map submission_id_col (sql_latest tbl))"
proof -
  have "inj_on submission_id_col (set (sql_latest tbl))"
  proof (rule inj_onI)
    fix r s assume "r \<in> set (sql_latest tbl)" "s \<in> set (sql_latest tbl)"
      "submission_id_col r = submission_id_col s"
    then have "id_col r = id_col s" "r \<in> set tbl" "s \<in> set tbl"
      using assms by (auto simp: sql_latest_iff intro: order_antisym)
    then show "r = s" using assms by (metis distinct_map inj_onD)
  qed
  then show ?thesis
    using assms by (simp add: distinct_map sql_latest_def)
qed

lemma latest_exists:
  assumes "r \<in> set tbl"
  shows "\<exists>s. latest_run tbl s \<and> submission_id_col s = submission_id_col r"
proof -
  let ?S = "{s \<in> set tbl. submission_id_col s = submission_id_col r}"
  have fin: "finite (id_col ` ?S)" "id_col ` ?S \<noteq> {}" using assms by auto
  from Max_in [OF fin] obtain s where "s \<in> ?S" "id_col s = Max (id_col ` ?S)" by auto
  with Max_ge [OF fin(1)] show ?thesis unfolding latest_run_def by (intro exI [of _ s]) auto
qed

lemma scanned_all: "iter_stop d = None \<Longrightarrow> \<forall>r \<in> set rows. \<not> scan_fails d r \<Longrightarrow> scanned d rows = rows"
  by (simp add: scanned_def filter_id_conv)

lemma board_from_distinct:
  assumes "permutes_keys visit" "distinct (map SubmissionID rows)"
  shows "mset (ordered_rows visit rows) = mset rows"
proof -
  have "best_runs rows = [] @ map (\<lambda>r. (SubmissionID r, r)) rows"
    unfolding best_runs_def by (rule keep_fold_new) (simp_all add: assms(2) comp_def)
  then have "map snd (best_runs rows) = rows" by (simp add: comp_def)
  with ordered_rows_mset [OF assms(1), of rows] show ?thesis by simp
qed

lemma set_board_all:
  assumes "permutes_keys visit" "distinct (map SubmissionID rows)" "length rows \<le> 100"
  shows "(\<lambda>r. r\<lparr>Rank := 0\<rparr>) ` set (build_board visit rows) = (\<lambda>r. r\<lparr>Rank := 0\<rparr>) ` set rows"
proof -
  note m = board_from_distinct [OF assms(1,2)]
  have "length (ordered_rows visit rows) = length rows" by (metis m size_mset)
  then have "map (\<lambda>r. r\<lparr>Rank := 0\<rparr>) (build_board visit rows) = map (\<lambda>r. r\<lparr>Rank := 0\<rparr>) (ordered_rows visit rows)"
    unfolding build_board_def using assms(3) by (subst map_set_ranks) simp_all
  from arg_cong [OF this, of set] show ?thesis using mset_eq_setD [OF m] by (simp only: set_map)
qed

lemma scores_rows_distinct:
  "distinct (map id_col (metrics d)) \<Longrightarrow> distinct (map SubmissionID (scores_rows d))"
proof -
  assume "distinct (map id_col (metrics d))"
  then have "distinct (map submission_id_col (sql_latest (metrics d)))" by (rule latest_distinct)
  then have "distinct (map submission_id_col (scanned d (sql_latest (metrics d))))"
    unfolding scanned_def
    by (cases "iter_stop d") (simp_all add: distinct_map_filter take_map [symmetric])
  then show ?thesis by (simp add: scores_rows_def comp_def)
qed

lemma scores_rows_all:
  assumes "distinct (map id_col (metrics d))" "iter_stop d = None" "\<forall>r \<in> set (metrics d). \<not> scan_fails d r"
  shows "set (scores_rows d) = (\<lambda>r. row_of_run (now d) (scan_run r)) ` {r. latest_run (metrics d) r}"
proof -
  have "scanned d (sql_latest (metrics d)) = sql_latest (metrics d)"
    using assms(2,3) sql_latest_subset [of "metrics d"] by (intro scanned_all) auto
  then show ?thesis by (simp add: scores_rows_def set_sql_latest [OF assms(1)] image_image)
qed

lemma length_scores_rows:
  assumes "distinct (map id_col (metrics d))"
  shows "length (scores_rows d) \<le> card (submission_id_col ` set (metrics d))"
proof -
  have "length (scores_rows d) = card (SubmissionID ` set (scores_rows d))"
    using distinct_card [OF scores_rows_distinct [OF assms]] by simp
  also have "\<dots> \<le> card (submission_id_col ` set (metrics d))"
    using scanned_subset [of d "sql_latest (metrics d)"] sql_latest_subset [of "metrics d"]
    by (intro card_mono) (auto simp: scores_rows_def)
  finally show ?thesis .
qed

lemma board_of_latest:
  assumes "permutes_keys visit" "distinct (map id_col (metrics d))" "iter_stop d = None"
    and "\<forall>r \<in> set (metrics d). \<not> scan_fails d r"
    and "card (submission_id_col ` set (metrics d)) \<le> 100"
  shows "(\<lambda>b. b\<lparr>Rank := 0\<rparr>) ` set (build_board visit (scores_rows d))
    = (\<lambda>r. row_of_run (now d) (scan_run r)) ` {r. latest_run (metrics d) r}"
proof -
  have "(row_of_run n x)\<lparr>Rank := 0\<rparr> = row_of_run n x" for n x
    by (simp add: row_of_run_def Let_def)
  then show ?thesis
    using set_board_all [OF assms(1) scores_rows_distinct [OF assms(2)]] length_scores_rows [OF assms(2)]
      assms(5) scores_rows_all [OF assms(2-4)] by (simp add: image_image)
qed



text \<open>The two columns the comparator reads determine the order of the board.\<close>

abbreviation sort_key :: "LeaderboardRow \<Rightarrow> f64 \<times> int" where
  "sort_key r \<equiv> (Score r, P99Micros r)"

lemma ordered_keys_unique:
  assumes "permutes_keys v" "permutes_keys w" "\<forall>r \<in> set rows. Score r \<noteq> FNaN"
  shows "map sort_key (ordered_rows v rows) = map sort_key (ordered_rows w rows)"
proof (rule sorted_wrt_unique)
  let ?P = "\<lambda>k l. \<not> (fst k < fst l \<or> fst l = fst k \<and> snd l < snd (k :: f64 \<times> int))"
  have sorted: "sorted_wrt ?P (map sort_key (ordered_rows u rows))" if u: "permutes_keys u" for u
  proof -
    have ok: "\<forall>r \<in> set (ordered_rows u rows). Score r \<noteq> FNaN"
      using ordered_rows_best(1) [OF u assms(3)] assms(3) by blast
    then have "\<forall>r \<in> set (visited u (best_runs rows)). Score r \<noteq> FNaN" by simp
    from row_order.sort_slice_sorted [OF this] show ?thesis
      unfolding sorted_wrt_map by (rule sorted_wrt_mono_rel [rotated]) (use ok in \<open>auto simp: row_less_iff\<close>)
  qed
  show "sorted_wrt ?P (map sort_key (ordered_rows v rows))" by (rule sorted [OF assms(1)])
  show "sorted_wrt ?P (map sort_key (ordered_rows w rows))" by (rule sorted [OF assms(2)])
  show "mset (map sort_key (ordered_rows v rows)) = mset (map sort_key (ordered_rows w rows))"
    using ordered_rows_mset [OF assms(1)] ordered_rows_mset [OF assms(2)] by (simp del: mset_sort_slice)
  show "k = l" if "?P k l" "?P l k" for k l using that by (cases k; cases l) auto
qed

lemma board_keys_unique:
  assumes "permutes_keys v" "permutes_keys w" "\<forall>r \<in> set rows. Score r \<noteq> FNaN"
  shows "map (\<lambda>b. (Rank b, sort_key b)) (build_board v rows) = map (\<lambda>b. (Rank b, sort_key b)) (build_board w rows)"
proof -
  have k: "map sort_key (build_board u rows) = take 100 (map sort_key (ordered_rows u rows))" for u
    unfolding build_board_def take_map by (rule map_set_ranks) simp
  have e: "map sort_key (build_board v rows) = map sort_key (build_board w rows)"
    unfolding k ordered_keys_unique [OF assms] ..
  from arg_cong [OF e, of length] have l: "length (build_board v rows) = length (build_board w rows)" by simp
  have "map Rank (build_board v rows) = map Rank (build_board w rows)"
    unfolding ranks_build_board l ..
  then show ?thesis by (rule map_eq_combine [OF e]) simp
qed

lemma legacy_core: "map core (legacy_rows d) = map core (scores_rows d)"
  by (simp add: legacy_rows_def scores_rows_def core_def legacy_row_def Let_def del: coalesce.simps)

lemma legacy_same_board:
  assumes "permutes_keys visit"
  shows "map core (build_board visit (legacy_rows d)) = map core (build_board visit (scores_rows d))"
  unfolding board_core [OF assms] legacy_core ..

text \<open>
  C21. The legacy board shows the ranks, scores and p99s of the rich board. The order in
  which Go ranges over the maps can only swap submissions with equal score and p99: when
  both handlers meet the same order, the submissions are the same too.
\<close>

theorem legacy_agrees:
  assumes "permutes_keys v" "permutes_keys w"
    and "\<forall>r \<in> set (metrics d). typed_row r \<and> coalesce [success_rate_col r] (Fin 0) \<noteq> FNaN"
  shows "map (\<lambda>b. (Rank b, Score b, P99Micros b)) (build_board v (scores_rows d))
      = map (\<lambda>b. (Rank b, Score b, P99Micros b)) (build_board w (legacy_rows d)) \<and>
    map (\<lambda>b. (SubmissionID b, Score b, P99Micros b)) (build_board v (scores_rows d))
      = map (\<lambda>b. (SubmissionID b, Score b, P99Micros b)) (build_board v (legacy_rows d))"
proof
  have e: "map core (build_board w (legacy_rows d)) = map core (build_board w (scores_rows d))"
    by (rule legacy_same_board [OF assms(2)])
  from arg_cong [OF e, of length]
  have l: "length (build_board w (legacy_rows d)) = length (build_board w (scores_rows d))" by simp
  have "map Rank (build_board w (legacy_rows d)) = map Rank (build_board w (scores_rows d))"
    unfolding ranks_build_board l ..
  then have "map (\<lambda>b. (Rank b, sort_key b)) (build_board w (legacy_rows d))
      = map (\<lambda>b. (Rank b, sort_key b)) (build_board w (scores_rows d))"
    by (rule map_eq_combine [OF e]) (simp add: core_def)
  then show "map (\<lambda>b. (Rank b, sort_key b)) (build_board v (scores_rows d))
      = map (\<lambda>b. (Rank b, sort_key b)) (build_board w (legacy_rows d))"
    using board_keys_unique [OF assms(1,2) scores_rows_not_nan [OF assms(3)]] by simp
  show "map (\<lambda>b. (SubmissionID b, sort_key b)) (build_board v (scores_rows d))
      = map (\<lambda>b. (SubmissionID b, sort_key b)) (build_board v (legacy_rows d))"
    using legacy_same_board [OF assms(1)] unfolding core_def by (rule sym)
qed

theorem legacy_agrees_witness:
  "map (\<lambda>b. (Rank b, Score b, P99Micros b)) (build_board rev (scores_rows db_ab))
      = map (\<lambda>b. (Rank b, Score b, P99Micros b)) (build_board id (legacy_rows db_ab)) \<and>
    map (\<lambda>b. (SubmissionID b, Score b, P99Micros b)) (build_board rev (scores_rows db_ab))
      = map (\<lambda>b. (SubmissionID b, Score b, P99Micros b)) (build_board rev (legacy_rows db_ab))"
  by (rule legacy_agrees)
    (auto simp: db_ab_def row_a_def row_b_def row_a2_def typed_row_def)

interpretation ts_order: weak_order ts_before "\<lambda>_. True"
  by unfold_locales (auto simp: ts_before_def split: option.splits)

lemma sql_runs_of_props:
  "mset (sql_runs_of sid tbl) = mset (filter (\<lambda>r. submission_id_col r = sid) tbl)"
  "sorted_wrt (\<lambda>a b. \<not> ts_before b a) (sql_runs_of sid tbl)"
  unfolding sql_runs_of_def by (simp, rule ts_order.sort_slice_sorted, simp)

lemma run_of_row_sel:
  "rr_P99Micros (run_of_row n r) = coalesce [p99_col r] 0"
  "rr_Score (run_of_row n r) = Score (row_of_run n (scan_run r))"
  "rr_SuccessRate (run_of_row n r) = SuccessRate (row_of_run n (scan_run r))"
  unfolding row_of_run_sel by (simp_all add: run_of_row_def Let_def del: coalesce.simps)

lemma healthy_run_encodable:
  assumes "healthy_row r"
  shows "encodable (run_json (run_of_row n r))"
proof -
  have "is_finite (rr_Score (run_of_row n r))" "is_finite (rr_SuccessRate (run_of_row n r))"
    using healthy_encodable [OF assms, of n] unfolding run_of_row_sel by (simp_all add: row_json_def)
  moreover have "is_finite (rr_TPS (run_of_row n r))"
    using assms est_tps_bound
    by (auto simp: run_of_row_def Let_def healthy_row_def typed_row_def fbound_def [of _ "Fin 0"]
        simp del: coalesce.simps intro!: round2_finite)
  ultimately show ?thesis by (simp add: run_json_def)
qed

text \<open>The summary of the runs, as sets.\<close>

definition best_score_of :: "RunRecord list \<Rightarrow> f64" where
  "best_score_of rs = Max (insert (Fin 0) (rr_Score ` set rs))"

definition best_p99_of :: "RunRecord list \<Rightarrow> int" where
  "best_p99_of rs =
     (let ps = {p \<in> rr_P99Micros ` set rs. 0 < p \<and> p < math_MaxInt64} in if ps = {} then 0 else Min ps)"

lemma detail_of_summary:
  assumes "\<forall>r \<in> set rs. rr_Score r \<noteq> FNaN \<and> rr_P99Micros r \<le> math_MaxInt64"
  shows "detail_of rs = \<lparr>runs = rs, bestScore = best_score_of rs, bestP99 = best_p99_of rs\<rparr>"
proof -
  let ?a = "\<lparr>runs = [], bestScore = Fin 0, bestP99 = math_MaxInt64\<rparr>"
  let ?ps = "{p \<in> rr_P99Micros ` set rs. 0 < p}"
  let ?qs = "{p \<in> rr_P99Micros ` set rs. 0 < p \<and> p < math_MaxInt64}"
  have nn: "\<forall>r \<in> set rs. rr_Score r \<noteq> FNaN" "bestScore ?a \<noteq> FNaN" using assms by auto
  note f = detail_fold [OF nn]
  have same: "insert math_MaxInt64 ?ps = insert math_MaxInt64 ?qs"
    using assms by fastforce
  have lt: "Min ?qs < math_MaxInt64" if "?qs \<noteq> {}"
    using Min_in [of ?qs] that by simp
  have "Min (insert math_MaxInt64 ?qs) = (if ?qs = {} then math_MaxInt64 else Min ?qs)"
  proof (cases "?qs = {}")
    case False
    then have "Min (insert math_MaxInt64 ?qs) = min math_MaxInt64 (Min ?qs)" by (intro Min_insert) simp_all
    with lt [OF False] False show ?thesis by simp
  next
    case True
    then show ?thesis unfolding True by simp
  qed
  with f(3) same have p: "bestP99 (fold detail_step rs ?a) = (if ?qs = {} then math_MaxInt64 else Min ?qs)"
    by simp
  show ?thesis
  proof (cases "?qs = {}")
    case True
    with p f(1,2) show ?thesis by (simp add: detail_of_def best_score_of_def best_p99_of_def Let_def)
  next
    case False
    then have b: "best_p99_of rs = Min ?qs" unfolding best_p99_of_def Let_def by (rule if_not_P)
    from False p lt [OF False] have "bestP99 (fold detail_step rs ?a) = Min ?qs"
      "bestP99 (fold detail_step rs ?a) \<noteq> math_MaxInt64" by simp_all
    with f(1,2) show ?thesis unfolding detail_of_def Let_def b best_score_of_def by simp
  qed
qed



text \<open>
  What a client of the API sees of its method, its path and the database's faults: \<open>e\<close> is
  the path as it was sent, \<open>req_path\<close> the decoded one.
\<close>

definition api_status :: "http_request \<Rightarrow> lb_db \<Rightarrow> int" where
  "api_status req d =
     (let e = req_escaped req; id_missing = (TrimSpace (TrimPrefix (req_path req) ''/api/scores/'') = '''');
          scores = (e = ''/api/scores''); legacy = (e = ''/api/leaderboard'')
      in if req_method req = ''OPTIONS'' then 204
         else if cleanPath e \<noteq> e \<and> req_method req \<noteq> ''CONNECT'' then 301
         else if e = ''/health'' then 200
         else if req_method req \<noteq> ''GET'' then 405
         else if \<not> scores \<and> \<not> legacy \<and> id_missing then 400
         else if query_fails d \<or> iter_stop d \<noteq> None \<and> \<not> legacy then 500
         else 200)"

lemma cors_sent: "rw_sent (Header_Set k v w) = rw_sent w" "rw_body (Header_Set k v w) = rw_body w"
  by (simp_all add: Header_Set_def)

lemma resp_lb_writeJSON:
  "rw_sent w = None \<Longrightarrow> resp_status (lb_writeJSON st p w) = st"
  "rw_sent w = None \<Longrightarrow> resp_status (lb_writeError st m w) = st"
  "rw_sent w = None \<Longrightarrow> resp_status (WriteHeader st w) = st"
  by (auto simp: rw_defs resp_status_def Let_def)

lemma resp_header_lb:
  assumes "rw_sent w = None" "k \<noteq> ''Content-Type''" "k \<noteq> ''Cache-Control''"
  shows "resp_header (lb_writeJSON st p w) k = map_of (rw_headers w) k"
    and "resp_header (lb_writeError st m w) k = map_of (rw_headers w) k"
    and "resp_header (WriteHeader st w) k = map_of (rw_headers w) k"
  using assms by (auto simp: rw_defs resp_header_def Let_def)

text \<open>The elements of the paths of the API, and that the three fixed ones are clean.\<close>

lemma api_segments:
  "path_segments ''/health'' = [''health'']"
  "path_segments ''/api/scores'' = [''api'', ''scores'']"
  "path_segments ''/api/leaderboard'' = [''api'', ''leaderboard'']"
  "cleanPath ''/health'' = ''/health''"
  "cleanPath ''/api/scores'' = ''/api/scores''"
  "cleanPath ''/api/leaderboard'' = ''/api/leaderboard''"
  by code_simp+

lemma abs_path_api: "''/api/scores/'' = abs_path [''api'', ''scores''] @ ''/''"
  by (simp add: abs_path_def)

lemma detail_segments:
  assumes "HasPrefix e ''/api/scores/''"
  shows "take 2 (path_segments e) = [''api'', ''scores'']" "2 < length (path_segments e)"
proof -
  have "length ''/api/scores/'' = (12 :: nat)" by simp
  then have "take 12 e = ''/api/scores/''" using assms unfolding HasPrefix_def by metis
  moreover have "e = take 12 e @ drop 12 e" by simp
  ultimately have e: "e = abs_path [''api'', ''scores''] @ CHR ''/'' # drop 12 e"
    by (metis abs_path_api append.assoc append_Cons append_Nil)
  have "path_segments e = [''api'', ''scores''] @ map pathUnescape (split_on CHR ''/'' (drop 12 e))"
    by (subst e, rule segments_below) (simp_all add: plain_def)
  moreover have "split_on CHR ''/'' s \<noteq> []" for s by (cases s) (auto split: list.split)
  ultimately show "take 2 (path_segments e) = [''api'', ''scores'']" "2 < length (path_segments e)" by simp_all
qed

text \<open>
  C23. The whole server on the API's paths as they come in, middlewares included. The
  status is the one the table above gives, in every case: 204 for a preflight, 301 for a
  path that is not clean, and otherwise 405, 400, 500 or 200 by the method, the id and the
  faults of the database; a break in the iteration is a 500 everywhere but on the legacy
  path, which answers 200 with what it has read. The database is left alone, nothing
  panics, every response carries the CORS header, a redirect names its location, and every
  request but a preflight is logged once.
\<close>

theorem api_statuses:
  assumes "req_escaped req \<in> {''/health'', ''/api/scores'', ''/api/leaderboard''} \<or>
    HasPrefix (req_escaped req) ''/api/scores/''"
  shows "case lb_server visit start static moved req (d, lg) fresh_rw of ((d', lg'), w, panicked) \<Rightarrow>
    d' = d \<and> \<not> panicked \<and> resp_status w = api_status req d \<and>
    resp_header w ''Access-Control-Allow-Origin'' = Some ''*'' \<and>
    (api_status req d = 301 \<longrightarrow> resp_header w ''Location'' = Some (fst (moved req))) \<and>
    lg' = (if req_method req = ''OPTIONS'' then lg else lg @ [(req_method req, req_path req)])"
proof -
  let ?w = "Header_Set ''Access-Control-Allow-Headers'' ''Content-Type''
    (Header_Set ''Access-Control-Allow-Methods'' ''GET, OPTIONS''
      (Header_Set ''Access-Control-Allow-Origin'' ''*'' fresh_rw))"
  let ?e = "req_escaped req"
  have w: "rw_sent ?w = None" "map_of (rw_headers ?w) ''Access-Control-Allow-Origin'' = Some ''*''"
    by (simp_all add: Header_Set_def fresh_rw_def)
  note resp = resp_lb_writeJSON [OF w(1)] resp_header_lb [OF w(1)] w(2)
    redirect_response [OF w(1)]
  have np: "\<not> HasPrefix ''/health'' ''/api/scores/''" "\<not> HasPrefix ''/api/scores'' ''/api/scores/''"
    "\<not> HasPrefix ''/api/leaderboard'' ''/api/scores/''" "\<not> HasPrefix ''*'' ''/api/scores/''"
    by (simp_all add: HasPrefix_def)
  have star: "?e \<noteq> ''*''" using assms np(4) by auto
  have mux: "case lb_mux visit start static moved req d ?w of (d', w, panicked) \<Rightarrow>
      d' = d \<and> \<not> panicked \<and> resp_status w = api_status req d \<and>
      resp_header w ''Access-Control-Allow-Origin'' = Some ''*'' \<and>
      (api_status req d = 301 \<longrightarrow> resp_header w ''Location'' = Some (fst (moved req)))"
    if o: "req_method req \<noteq> ''OPTIONS''"
  proof (cases "cleanPath ?e \<noteq> ?e \<and> req_method req \<noteq> ''CONNECT''")
    case True
    then show ?thesis using star o by (simp add: lb_mux_def serve_mux_def api_status_def resp Let_def)
  next
    case clean: False
    have m: "lb_mux visit start static moved req d ?w =
        lb_routes visit start static moved (path_segments ?e) req d ?w"
      using clean star by (auto simp: lb_mux_def serve_mux_def Let_def)
    show ?thesis using assms
    proof (elim disjE insertE emptyE)
      assume p: "HasPrefix ?e ''/api/scores/''"
      then have "lb_mux visit start static moved req d ?w = handleSubmissionDetail req d ?w"
        using detail_segments [OF p] unfolding m lb_routes_def by auto
      moreover have "?e \<noteq> ''/health''" "?e \<noteq> ''/api/scores''" "?e \<noteq> ''/api/leaderboard''"
        using p np by auto
      ultimately show ?thesis using o clean
        by (auto simp: handleSubmissionDetail_def api_status_def Let_def resp)
    qed (use o clean in \<open>simp_all add: m lb_routes_def api_segments lb_healthHandler_def handleScores_def
        handleLegacyLeaderboard_def api_status_def resp Let_def\<close>)
  qed
  show ?thesis
  proof (cases "req_method req = ''OPTIONS''")
    case True
    then show ?thesis by (simp add: lb_server_def withCORS_def Let_def resp api_status_def)
  next
    case False
    with mux [OF False] show ?thesis
      by (auto simp: lb_server_def withCORS_def with_recovery_def with_logging_def lb_log_line_def Let_def
          split: prod.splits)
  qed
qed

theorem api_statuses_witness:
  "case lb_server id 0 (\<lambda>_ s w. (s, w, False)) (\<lambda>_. (''/api/scores/x'', '''')) (get_req ''/api/scores//x'') (db_ab, [])
      fresh_rw of ((d', lg'), w, panicked) \<Rightarrow>
    d' = db_ab \<and> \<not> panicked \<and> resp_status w = 301 \<and>
    resp_header w ''Access-Control-Allow-Origin'' = Some ''*'' \<and>
    resp_header w ''Location'' = Some ''/api/scores/x'' \<and> lg' = [(''GET'', ''/api/scores//x'')]"
proof -
  have "api_status (get_req ''/api/scores//x'') db_ab = 301"
    by (simp add: api_status_def cleanPath_samples)
  then show ?thesis
    using api_statuses [where req = "get_req ''/api/scores//x''" and visit = id and start = 0
        and static = "\<lambda>_ s w. (s, w, False)" and moved = "\<lambda>_. (''/api/scores/x'', '''')" and d = db_ab and lg = "[]"]
    by (simp add: HasPrefix_def)
qed

text \<open>
  One submission whose latest run has a success rate that overflows in the rounding
  to four digits (2^1020 does, and JSON can carry it) takes the whole rich leaderboard
  down: the status 200 and the JSON content type have gone out when the encoder refuses
  the infinite value, so the client gets status 200 with a body that is not JSON.
\<close>

theorem poisoned_board:
  assumes "permutes_keys visit" "req_method req = ''GET''" "\<not> query_fails d" "iter_stop d = None"
    and "\<forall>r \<in> set (metrics d). \<not> scan_fails d r" "distinct (map id_col (metrics d))"
    and "card (submission_id_col ` set (metrics d)) \<le> 100"
    and "latest_run (metrics d) r" "success_rate_col r = Some x" "\<not> is_finite (roundFloat x 4)"
  shows "\<exists>w. handleScores visit req d fresh_rw = (d, w, False) \<and> resp_status w = 200 \<and>
    resp_header w ''Content-Type'' = Some ''application/json'' \<and>
    rw_body w = [BText (''json encoding failure'' @ [CHR 0x0A])]"
proof -
  let ?row = "row_of_run (now d) (scan_run r)"
  let ?board = "build_board visit (scores_rows d)"
  have sr: "\<not> is_finite (SuccessRate ?row)"
    unfolding row_of_run_sel using assms(10) by (simp add: assms(9))
  have "?row \<in> set (scores_rows d)" using scores_rows_all [OF assms(6,4,5)] assms(8) by blast
  then have "?row\<lparr>Rank := 0\<rparr> \<in> (\<lambda>b. b\<lparr>Rank := 0\<rparr>) ` set ?board"
    using set_board_all [OF assms(1) scores_rows_distinct [OF assms(6)]] length_scores_rows [OF assms(6)]
      assms(7) by simp
  then obtain b where b: "b \<in> set ?board" "b\<lparr>Rank := 0\<rparr> = ?row\<lparr>Rank := 0\<rparr>" by auto
  have "SuccessRate (b\<lparr>Rank := 0\<rparr>) = SuccessRate ?row" by (simp only: b(2)) simp
  with sr have "\<not> encodable (row_json b)" by (simp add: row_json_def)
  with b(1) have e: "\<not> encodable (scores_json (now d) ?board)" by (auto simp: scores_json_def list_all_iff)
  have "resp_header (lb_writeJSON 200 p fresh_rw) ''Content-Type'' = Some ''application/json''" for p
    by (simp add: rw_defs resp_header_def fresh_rw_def Let_def)
  with e show ?thesis using assms(2-4) by (simp add: handleScores_def lb_writeJSON_fresh)
qed

lemma huge_rate: "\<not> is_finite (roundFloat (Fin (2 ^ 1020)) 4)"
proof -
  have "(2::rat) ^ 1024 \<le> 2 ^ 1020 * 10000" by simp
  from f64_round_overflow [OF this] show ?thesis
    unfolding roundFloat_def pow10_4 Let_def by (simp add: is_finite_def)
qed

definition db_inf :: lb_db where
  "db_inf = db_ab\<lparr>metrics := [row_a, row_b\<lparr>success_rate_col := Some (Fin (2 ^ 1020))\<rparr>]\<rparr>"

theorem poisoned_board_witness:
  "\<exists>w. handleScores id (get_req ''/api/scores'') db_inf fresh_rw = (db_inf, w, False) \<and>
    resp_status w = 200 \<and> resp_header w ''Content-Type'' = Some ''application/json'' \<and>
    rw_body w = [BText (''json encoding failure'' @ [CHR 0x0A])]"
  by (rule poisoned_board [where r = "row_b\<lparr>success_rate_col := Some (Fin (2 ^ 1020))\<rparr>" and x = "Fin (2 ^ 1020)"])
    (use huge_rate in \<open>simp_all add: db_inf_def db_ab_def row_a_def row_b_def latest_run_def card_insert_if\<close>)

end
