(* ===== verification/Pipeline.thy ===== *)
theory Pipeline
  imports Ingester Leaderboard
begin

text \<open>
  The path of a result, from the Kafka topic to the ranking: what the ingester has stored
  is what the leaderboard reads. The two services share the table
  \<open>benchmark_metrics\<close> and nothing else; the ingester's \<open>INSERT\<close> leaves the column
  \<open>id\<close> to the sequence of its \<open>SERIAL\<close>, whose values grow with every row inserted
  (with gaps, after a rollback). The ids are the argument \<open>ids\<close>: the row at position
  \<open>i\<close> of the table has the id \<open>ids i\<close>.
\<close>

section \<open>The rows of the table\<close>

text \<open>The columns of the \<open>INSERT\<close> in \<open>persistBatch\<close>.\<close>

definition stored_row :: "int \<Rightarrow> TelemetryPayload \<Rightarrow> metric_row" where
  "stored_row i p =
     \<lparr>id_col = i, submission_id_col = TelemetryPayload.SubmissionID p,
      p50_col = Some (TelemetryPayload.P50Micros p), p90_col = Some (TelemetryPayload.P90Micros p),
      p99_col = Some (TelemetryPayload.P99Micros p),
      success_rate_col = Some (TelemetryPayload.SuccessRate p),
      total_orders_col = Some (TelemetryPayload.TotalOrders p),
      timestamp_col = Some (TelemetryPayload.Timestamp p)\<rparr>"

definition metrics_of :: "(nat \<Rightarrow> int) \<Rightarrow> TelemetryPayload list \<Rightarrow> metric_row list" where
  "metrics_of ids ps = map (\<lambda>i. stored_row (ids i) (ps ! i)) [0..<length ps]"

text \<open>The leaderboard's view of a table: the database that holds it and answers.\<close>

definition reads_table :: "(nat \<Rightarrow> int) \<Rightarrow> TelemetryPayload list \<Rightarrow> lb_db \<Rightarrow> bool" where
  "reads_table ids ps d \<longleftrightarrow> metrics d = metrics_of ids ps \<and> \<not> query_fails d \<and> iter_stop d = None \<and>
     (\<forall>r \<in> set (metrics d). \<not> scan_fails d r)"

definition result_ids :: "TelemetryPayload list \<Rightarrow> string set" where
  "result_ids ps = TelemetryPayload.SubmissionID ` set ps"

text \<open>The result a submission is ranked by: the last one that was stored for it.\<close>

definition last_result :: "TelemetryPayload list \<Rightarrow> string \<Rightarrow> TelemetryPayload" where
  "last_result ps sid = last (filter (\<lambda>p. TelemetryPayload.SubmissionID p = sid) ps)"

text \<open>The line of the board for a result, before it has a rank.\<close>

definition result_line :: "int \<Rightarrow> TelemetryPayload \<Rightarrow> LeaderboardRow" where
  "result_line now_secs p =
     \<lparr>Rank = 0, SubmissionID = TelemetryPayload.SubmissionID p,
      P50Micros = TelemetryPayload.P50Micros p, P90Micros = TelemetryPayload.P90Micros p,
      P99Micros = TelemetryPayload.P99Micros p,
      SuccessRate = roundFloat (TelemetryPayload.SuccessRate p) 4,
      Score = lb_calculateScore (TelemetryPayload.P50Micros p) (TelemetryPayload.P99Micros p)
        (TelemetryPayload.SuccessRate p),
      TotalOrders = TelemetryPayload.TotalOrders p, CorrectnessViolations = 0,
      TPS = roundFloat (if TelemetryPayload.P99Micros p > 0
        then est_tps (TelemetryPayload.TotalOrders p) (TelemetryPayload.P99Micros p) else Fin 0) 2,
      Timestamp = ts_string now_secs (TelemetryPayload.Timestamp p)\<rparr>"

lemma stored_row_sel [simp]:
  "id_col (stored_row i p) = i" "submission_id_col (stored_row i p) = TelemetryPayload.SubmissionID p"
  "success_rate_col (stored_row i p) = Some (TelemetryPayload.SuccessRate p)"
  by (simp_all add: stored_row_def)

lemma line_of_stored: "row_of_run n (scan_run (stored_row i p)) = result_line n p"
  by (simp add: row_of_run_def scan_run_def stored_row_def result_line_def Let_def)

lemma metrics_distinct: "strict_mono ids \<Longrightarrow> distinct (map id_col (metrics_of ids ps))"
  by (simp add: metrics_of_def comp_def distinct_map strict_mono_imp_inj_on)

lemma in_metrics_of: "r \<in> set (metrics_of ids ps) \<longleftrightarrow> (\<exists>i < length ps. r = stored_row (ids i) (ps ! i))"
  by (auto simp: metrics_of_def)

lemma metrics_of_submissions: "submission_id_col ` set (metrics_of ids ps) = result_ids ps"
  by (simp add: metrics_of_def result_ids_def image_image)
    (metis (no_types) list.set_map map_nth set_upt image_image)

text \<open>The last entry of a list that has a property, by its position.\<close>

lemma last_filter_nth:
  assumes "i < length xs" "P (xs ! i)" "\<forall>j < length xs. P (xs ! j) \<longrightarrow> j \<le> i"
  shows "last (filter P xs) = xs ! i"
proof -
  have "\<not> P (drop (Suc i) xs ! k)" if "k < length (drop (Suc i) xs)" for k
  proof -
    have "Suc i + k < length xs" using that by simp
    with assms(3) [rule_format, of "Suc i + k"] that show ?thesis by auto
  qed
  then have "filter P (drop (Suc i) xs) = []" by (auto simp: filter_empty_conv in_set_conv_nth)
  moreover have "xs = take i xs @ xs ! i # drop (Suc i) xs" using assms(1) by (rule id_take_nth_drop)
  ultimately have "filter P xs = filter P (take i xs) @ [xs ! i]"
    using assms(2) by (metis filter.simps(2) filter_append)
  then show ?thesis by simp
qed

lemma latest_is_last:
  assumes "strict_mono ids" "latest_run (metrics_of ids ps) r"
  shows "\<exists>i. r = stored_row i (last_result ps (submission_id_col r))"
proof -
  obtain i where i: "i < length ps" "r = stored_row (ids i) (ps ! i)"
    using assms(2) by (auto simp: latest_run_def in_metrics_of)
  have "j \<le> i" if j: "j < length ps"
    "TelemetryPayload.SubmissionID (ps ! j) = TelemetryPayload.SubmissionID (ps ! i)" for j
  proof -
    have "stored_row (ids j) (ps ! j) \<in> set (metrics_of ids ps)" using j(1) by (auto simp: in_metrics_of)
    with assms(2) j(2) i(2) have "ids j \<le> ids i" by (auto simp: latest_run_def)
    with assms(1) show ?thesis by (simp add: strict_mono_less_eq)
  qed
  then have "last_result ps (TelemetryPayload.SubmissionID (ps ! i)) = ps ! i"
    unfolding last_result_def using i(1) by (intro last_filter_nth) auto
  with i(2) show ?thesis by auto
qed

lemma latest_lines:
  assumes "strict_mono ids"
  shows "(\<lambda>r. row_of_run n (scan_run r)) ` {r. latest_run (metrics_of ids ps) r}
    = (\<lambda>sid. result_line n (last_result ps sid)) ` result_ids ps" (is "?line ` ?L = ?f ` _")
proof -
  have line: "?line r = ?f (submission_id_col r)" if "r \<in> ?L" for r
  proof -
    from that latest_is_last [OF assms] obtain i where "r = stored_row i (last_result ps (submission_id_col r))"
      by blast
    then have "?line r = ?line (stored_row i (last_result ps (submission_id_col r)))" by (rule arg_cong)
    then show ?thesis by (simp only: line_of_stored)
  qed
  have "submission_id_col ` ?L = result_ids ps"
    unfolding metrics_of_submissions [of ids ps, symmetric]
  proof (intro equalityI subsetI)
    fix sid assume "sid \<in> submission_id_col ` set (metrics_of ids ps)"
    then obtain r where r: "r \<in> set (metrics_of ids ps)" "sid = submission_id_col r" by blast
    from latest_exists [OF r(1)] r(2) show "sid \<in> submission_id_col ` ?L" by (metis imageI mem_Collect_eq)
  qed (auto simp: latest_run_def)
  moreover have "?line ` ?L = ?f ` (submission_id_col ` ?L)"
    unfolding image_image using line by (intro image_cong) auto
  ultimately show ?thesis by simp
qed


section \<open>Nothing is made up\<close>

text \<open>Every row of the table is the payload of a record of the topic.\<close>

definition from_topic :: "(nat \<Rightarrow> string list) \<Rightarrow> TelemetryPayload \<Rightarrow> bool" where
  "from_topic lg x \<longleftrightarrow> (\<exists>p i. i < length (lg p) \<and> parseTelemetryRecord (lg p ! i) = Inr x)"

definition sourced :: "ing \<Rightarrow> bool" where
  "sourced s \<longleftrightarrow> delivery_inv s \<and> (\<forall>x \<in> set (table s). from_topic (topic_log s) x)"

lemma from_topic_produce: "from_topic lg x \<Longrightarrow> from_topic (lg(p := lg p @ [v])) x"
  unfolding from_topic_def by (elim exE conjE, rename_tac q i) (rule_tac x = q in exI, rule_tac x = i in exI,
      auto simp: nth_append)

lemma held_from_topic:
  assumes "delivery_inv s" "sr \<in> set (buffer s @ recordChan s)"
  shows "from_topic (topic_log s) (Payload sr)"
proof -
  let ?r = "Record sr"
  have d: "fetched (topic_log s) (position s) (flight s)" "position s q \<le> length (topic_log s q)" for q
    using assms(1) by (simp_all add: delivery_inv_def delivering_def)
  have "?r \<in> set (flight s)" using assms(2) by (auto simp: flight_def)
  with d(1) have "Offset ?r < position s (Partition ?r)" "Value ?r = topic_log s (Partition ?r) ! Offset ?r"
    by (auto simp: fetched_def)
  moreover have "parseTelemetryRecord (Value ?r) = Inr (Payload sr)"
    using assms by (simp add: delivery_inv_def parsed_def)
  ultimately show ?thesis unfolding from_topic_def using d(2) by (metis order.strict_trans2)
qed

lemma flush_adds: "set (table (flush a offs s)) \<subseteq> set (table s) \<union> Payload ` set (buffer s)"
  by (auto simp: flush_def split: prod.splits option.splits dest!: persistBatch_cases(1))

lemma flush_topic: "topic_log (flush a offs s) = topic_log s"
  by (auto simp: flush_def split: prod.splits option.splits)

lemma step_adds:
  assumes "ing_step e s = Some t"
  shows "set (table t) \<subseteq> set (table s) \<union> Payload ` set (buffer s @ recordChan s)"
proof (cases e)
  case (Receive a offs)
  then obtain r rs where r: "recordChan s = r # rs" using assms by (auto simp: receive_def split: list.splits)
  from flush_adds [of a offs "s\<lparr>recordChan := rs, buffer := buffer s @ [r]\<rparr>"] show ?thesis
    using Receive assms r by (auto simp: receive_def Let_def split: if_splits)
next
  case (Tick a offs)
  with assms flush_adds [of a offs s] show ?thesis by (auto simp: tick_def split: if_splits)
next
  case (WorkerExit a offs)
  with assms flush_adds [of a offs s] show ?thesis by (auto simp: worker_exit_def split: if_splits)
qed (use assms in \<open>auto simp: restart_def dest: consumer_frame\<close>)

lemma step_topic:
  assumes "ing_step e s = Some t" "from_topic (topic_log s) x"
  shows "from_topic (topic_log t) x"
proof (cases e)
  case (Produce p v)
  with assms from_topic_produce show ?thesis by auto
qed (use assms in \<open>auto simp: receive_def tick_def worker_exit_def restart_def poll_def iterate_def stop_loop_def
      flush_topic Let_def split: if_splits list.splits fetch.splits option.splits consumer_pc.splits sum.splits\<close>)

lemma sourced_step:
  assumes "sourced s" "no_drop e" "ing_step e s = Some t"
  shows "sourced t"
proof -
  have "from_topic (topic_log t) x" if "from_topic (topic_log s) x" for x
    using assms(3) that by (rule step_topic)
  moreover have "from_topic (topic_log s) x" if "x \<in> set (table t)" for x
    using that step_adds [OF assms(3)] assms(1) held_from_topic [of s] by (auto simp: sourced_def)
  moreover have "delivery_inv t"
    by (rule delivery_inv_step [OF _ assms(2,3)]) (use assms(1) in \<open>simp add: sourced_def\<close>)
  ultimately show ?thesis by (simp add: sourced_def)
qed

lemma sourced_init: "sourced ing_init"
  unfolding sourced_def using delivery_inv_init by (simp add: ing_init_def)

interpretation sources: step_system "\<lambda>s. s = ing_init" "ing_rel no_drop" sourced
  by unfold_locales (auto simp: event_rel_def sourced_init intro: sourced_step)


section \<open>Properties\<close>

lemma stored_healthy:
  assumes "ing_reaches no_drop s" "\<forall>x. from_topic (topic_log s) x \<longrightarrow> unit_rate (TelemetryPayload.SuccessRate x)"
    and "r \<in> set (metrics_of ids (table s))"
  shows "healthy_row r"
proof -
  obtain i where i: "i < length (table s)" "r = stored_row (ids i) (table s ! i)"
    using assms(3) by (auto simp: in_metrics_of)
  then have x: "table s ! i \<in> set (table s)" by simp
  have "storable (table s ! i)"
    using stored.inv_reachable [OF refl ing_reaches_mono [OF assms(1)], of "\<lambda>_. True"] x
    by (simp add: storable_inv_def list_all_iff)
  moreover have "from_topic (topic_log s) (table s ! i)"
    using sources.inv_reachable [OF refl assms(1)] x by (simp add: sourced_def)
  ultimately show ?thesis using assms(2) i(2)
    by (simp add: healthy_row_def typed_row_def stored_row_def storable_def typed_payload_def)
qed

lemma last_result_in: "sid \<in> result_ids ps \<Longrightarrow> last_result ps sid \<in> set ps"
proof -
  assume "sid \<in> result_ids ps"
  then have "filter (\<lambda>p. TelemetryPayload.SubmissionID p = sid) ps \<noteq> []"
    by (auto simp: result_ids_def filter_empty_conv)
  from last_in_set [OF this] show ?thesis by (simp add: last_result_def)
qed

lemma board_of_results:
  assumes "permutes_keys visit" "strict_mono ids" "reads_table ids ps d" "card (result_ids ps) \<le> 100"
  shows "(\<lambda>b. b\<lparr>Rank := 0\<rparr>) ` set (build_board visit (scores_rows d))
    = (\<lambda>sid. result_line (now d) (last_result ps sid)) ` result_ids ps"
proof -
  have d: "metrics d = metrics_of ids ps" "iter_stop d = None" "\<forall>r \<in> set (metrics d). \<not> scan_fails d r"
    using assms(3) by (simp_all add: reads_table_def)
  have "distinct (map id_col (metrics d))" unfolding d(1) using assms(2) by (rule metrics_distinct)
  moreover have "card (submission_id_col ` set (metrics d)) \<le> 100"
    using assms(4) unfolding d(1) metrics_of_submissions .
  ultimately show ?thesis
    using board_of_latest [OF assms(1) _ d(2,3)] latest_lines [OF assms(2)] by (simp only: d(1))
qed


definition demo_board_db :: "TelemetryPayload list \<Rightarrow> lb_db" where
  "demo_board_db ps = db_ab\<lparr>metrics := metrics_of int ps\<rparr>"

lemma demo_reads: "reads_table int ps (demo_board_db ps)"
  by (simp add: reads_table_def demo_board_db_def db_ab_def)



text \<open>A record with a success rate that is a finite number, but far from a rate.\<close>

definition pill :: "string \<Rightarrow> TelemetryPayload" where
  "pill sid = demo_payload\<lparr>TelemetryPayload.SubmissionID := sid, TelemetryPayload.SuccessRate := Fin (2 ^ 1020)\<rparr>"

definition pill_text :: "string \<Rightarrow> string" where
  "pill_text sid = telemetry_json (pill sid) (Itoa (2 ^ 1020))"

lemma num_value_Itoa: "num_value (Itoa (int n)) = of_nat n"
proof -
  let ?ds = "map digit_char (nat_digits 10 n)"
  obtain d ds where e: "nat_digits 10 n = d # ds" by (cases "nat_digits 10 n") auto
  have "d < 10" using nat_digits_less [of 10 d n] e by simp
  then have "\<not> HasPrefix ?ds ''-''" using digit_not_sign by (auto simp: HasPrefix_def e)
  then show ?thesis using read_digits_Itoa [of "[]" n]
    by (simp add: num_value_def Itoa_def HasPrefix_def Let_def)
qed

lemma parse_pill_rate: "ParseFloat (Itoa (2 ^ 1020)) = Some (Fin (2 ^ 1020))"
proof -
  have "num_value (Itoa (2 ^ 1020)) = 2 ^ 1020" using num_value_Itoa [of "2 ^ 1020"] by simp
  moreover have "rnd (2 ^ 1020) = 2 ^ 1020" using rnd_pow2 [of 1020] by simp
  then have "f64_round (2 ^ 1020) = Fin (2 ^ 1020)" by (rule f64_round_eval) simp
  ultimately show ?thesis by (simp only: ParseFloat_def f64.simps)
qed

lemma parse_pill:
  assumes "plain_str sid" "sid \<noteq> ''''"
  shows "parseTelemetryRecord (pill_text sid) = Inr (pill sid)"
  unfolding pill_text_def
proof (rule telemetry_read_back)
  show "ParseFloat (Itoa (2 ^ 1020)) = Some (TelemetryPayload.SuccessRate (pill sid))"
    unfolding parse_pill_rate by (simp only: pill_def TelemetryPayload.select_convs TelemetryPayload.update_convs
        demo_payload_def)
qed (use assms in \<open>simp_all only: lex_num_Itoa\<close>, simp_all add: pill_def demo_payload_def typed_payload_def is_finite_def)

definition pill_trace :: "string \<Rightarrow> ing \<Rightarrow> ing_event list" where
  "pill_trace sid s =
     [Produce 0 (pill_text sid),
      Poll (Fetches [\<lparr>Partition = 0, Offset = position s 0, Value = pill_text sid\<rparr>] 0),
      Iterate False, Receive db_up True, Tick db_up True]"

lemma pill_run:
  assumes "idle_with 0 s" "\<not> ctx_done s" "plain_str sid" "sid \<noteq> ''''"
  shows "\<exists>t. ing_run (pill_trace sid s) s = Some t \<and> table t = table s @ [pill sid]"
  using assms(1,2)
  by (simp add: pill_trace_def idle_with_def poll_def iterate_def receive_def tick_def flush_def persistBatch_def
      db_up_def parse_pill [OF assms(3,4)] chan_cap_def MaxBatchSize_def Let_def)

text \<open>
  C33. One record takes the public board down. Whoever can write to the topic sends, for
  any submission id, a result with the success rate 2^1020, which is valid JSON and a
  finite float. An ingester at rest stores it without an error in five turns, and from
  then on \<open>GET /api/scores\<close> answers status 200 with a body that is not JSON, for as
  long as this stays the last result of its submission.
\<close>

theorem poison_pill:
  assumes "idle_with 0 s" "\<not> ctx_done s" "plain_str sid" "sid \<noteq> ''''"
    and "card (insert sid (result_ids (table s))) \<le> 100" "strict_mono ids"
  shows "\<exists>t. ing_run (pill_trace sid s) s = Some t \<and>
    (\<forall>visit req d. permutes_keys visit \<and> req_method req = ''GET'' \<and> reads_table ids (table t) d \<longrightarrow>
      (\<exists>w. handleScores visit req d fresh_rw = (d, w, False) \<and> resp_status w = 200 \<and>
        resp_header w ''Content-Type'' = Some ''application/json'' \<and>
        rw_body w = [BText (''json encoding failure'' @ [CHR 0x0A])]))"
proof -
  obtain t where t: "ing_run (pill_trace sid s) s = Some t" "table t = table s @ [pill sid]"
    using pill_run [OF assms(1-4)] by blast
  let ?r = "stored_row (ids (length (table s))) (pill sid)"
  have sub: "TelemetryPayload.SubmissionID (pill sid) = sid" "TelemetryPayload.SuccessRate (pill sid) = Fin (2 ^ 1020)"
    unfolding pill_def by (simp_all only: TelemetryPayload.select_convs TelemetryPayload.update_convs demo_payload_def)
  have latest: "latest_run (metrics_of ids (table t)) ?r"
    using strict_mono_less_eq [OF assms(6)]
    by (auto simp: latest_run_def in_metrics_of t(2) less_Suc_eq_le intro!: exI [of _ "length (table s)"])
  have "result_ids (table t) = insert sid (result_ids (table s))" using sub(1) by (simp add: result_ids_def t(2))
  with assms(5) have c: "card (result_ids (table t)) \<le> 100" by simp
  have "\<exists>w. handleScores visit req d fresh_rw = (d, w, False) \<and> resp_status w = 200 \<and>
        resp_header w ''Content-Type'' = Some ''application/json'' \<and>
        rw_body w = [BText (''json encoding failure'' @ [CHR 0x0A])]"
    if "permutes_keys visit" "req_method req = ''GET''" "reads_table ids (table t) d" for visit req d
  proof (rule poisoned_board [OF that(1,2)])
    show "latest_run (metrics d) ?r" using latest that(3) by (simp add: reads_table_def)
    show "success_rate_col ?r = Some (Fin (2 ^ 1020))" by (simp only: stored_row_sel sub(2))
    show "distinct (map id_col (metrics d))" "card (submission_id_col ` set (metrics d)) \<le> 100"
      using that(3) metrics_distinct [OF assms(6)] c by (simp_all add: reads_table_def metrics_of_submissions)
    show "\<not> is_finite (roundFloat (Fin (2 ^ 1020)) 4)" by (rule huge_rate)
  qed (use that(3) in \<open>auto simp: reads_table_def\<close>)
  with t(1) show ?thesis by blast
qed

theorem poison_pill_witness:
  "\<exists>t. ing_run (pill_trace ''sub-x'' ing_init) ing_init = Some t \<and>
    (\<exists>w. handleScores id (get_req ''/api/scores'') (demo_board_db (table t)) fresh_rw
        = (demo_board_db (table t), w, False) \<and> resp_status w = 200 \<and>
      rw_body w = [BText (''json encoding failure'' @ [CHR 0x0A])])"
proof -
  have i: "idle_with 0 ing_init" "\<not> ctx_done ing_init" "plain_str ''sub-x''" "''sub-x'' \<noteq> ''''"
    "card (insert ''sub-x'' (result_ids (table ing_init))) \<le> 100" "strict_mono int"
    by (simp_all add: idle_with_def ing_init_def plain_str_def result_ids_def strict_mono_def)
  have "permutes_keys id" "req_method (get_req ''/api/scores'') = ''GET''" by simp_all
  with poison_pill [OF i] demo_reads show ?thesis by blast
qed

end
