(* ===== verification/Go_OS.thy ===== *)
theory Go_OS
  imports Prelude "HOL-Library.Word"
begin

text \<open>
  The host as the orchestrator sees it: the calls of \<open>os\<close>, \<open>os/exec\<close> and \<open>net\<close> that the
  code makes, in a state monad whose state is the history of the calls made so far, each
  with its success. The host's answers are an environment, arbitrary functions of the
  history and the call; a theorem that holds for every environment holds whatever the
  host does. \<^typ>\<open>'x\<close> stands for the calls of an SDK that a component adds.
\<close>

section \<open>Calls and answers\<close>

text \<open>The context a command runs under: detached, or bounded by a request or a timeout.\<close>

datatype ctx = Background | Request | Timeout ctx

datatype 'x host_call = Stat string | Remove string | RemoveAll string | MkdirAll string
  | MkdirTemp string | WriteFile string string | ReadFile string | ReadDir string
  | OpenFile string | Interfaces | Command ctx string "string list" | LookPath string
  | Getenv string | Sdk 'x

type_synonym 'x history = "('x host_call \<times> bool) list"

record 'x env =
  env_err :: "'x history \<Rightarrow> 'x host_call \<Rightarrow> gerr option"
  env_str :: "'x history \<Rightarrow> 'x host_call \<Rightarrow> string result"
  env_names :: "'x history \<Rightarrow> 'x host_call \<Rightarrow> string list result"
  env_bool :: "'x history \<Rightarrow> 'x host_call \<Rightarrow> bool result"
  env_int :: "'x history \<Rightarrow> 'x host_call \<Rightarrow> int result"
  env_u64s :: "'x history \<Rightarrow> 'x host_call \<Rightarrow> 64 word list result"
  env_cmd :: "'x history \<Rightarrow> 'x host_call \<Rightarrow> string \<times> gerr option"

type_synonym ('x, 'a) io = "('x history, 'a) state"

definition is_ok :: "'a result \<Rightarrow> bool" where
  "is_ok r = (case r of Inl _ \<Rightarrow> False | Inr _ \<Rightarrow> True)"

definition perform :: "('x history \<Rightarrow> 'x host_call \<Rightarrow> 'a) \<Rightarrow> ('a \<Rightarrow> bool) \<Rightarrow> 'x host_call \<Rightarrow> ('x, 'a) io" where
  "perform answer ok c = State (\<lambda>h. (answer h c, h @ [(c, ok (answer h c))]))"

definition call_err :: "'x env \<Rightarrow> 'x host_call \<Rightarrow> ('x, gerr option) io" where
  "call_err E = perform (env_err E) (\<lambda>r. r = None)"

definition call_str :: "'x env \<Rightarrow> 'x host_call \<Rightarrow> ('x, string result) io" where
  "call_str E = perform (env_str E) is_ok"

definition call_names :: "'x env \<Rightarrow> 'x host_call \<Rightarrow> ('x, string list result) io" where
  "call_names E = perform (env_names E) is_ok"

definition call_bool :: "'x env \<Rightarrow> 'x host_call \<Rightarrow> ('x, bool result) io" where
  "call_bool E = perform (env_bool E) is_ok"

definition call_int :: "'x env \<Rightarrow> 'x host_call \<Rightarrow> ('x, int result) io" where
  "call_int E = perform (env_int E) is_ok"

definition call_u64s :: "'x env \<Rightarrow> 'x host_call \<Rightarrow> ('x, 64 word list result) io" where
  "call_u64s E = perform (env_u64s E) is_ok"

definition call_cmd :: "'x env \<Rightarrow> ctx \<Rightarrow> string \<Rightarrow> string list \<Rightarrow> ('x, string \<times> gerr option) io" where
  "call_cmd E c name args = perform (env_cmd E) (\<lambda>r. snd r = None) (Command c name args)"

section \<open>Go's error handling\<close>

text \<open>
  \<open>if err := m; err != nil { return h(err) }; k\<close>, and the same for a call with a value.
\<close>

definition if_err ::
  "('s, gerr option) state \<Rightarrow> (gerr \<Rightarrow> ('s, 'b) state) \<Rightarrow> ('s, 'b) state \<Rightarrow> ('s, 'b) state" where
  "if_err m h k = State_Monad.bind m (\<lambda>r. case r of None \<Rightarrow> k | Some err \<Rightarrow> h err)"

definition with_val ::
  "('s, 'a result) state \<Rightarrow> (gerr \<Rightarrow> ('s, 'b) state) \<Rightarrow> ('a \<Rightarrow> ('s, 'b) state) \<Rightarrow> ('s, 'b) state" where
  "with_val m h k = State_Monad.bind m (\<lambda>r. case r of Inl err \<Rightarrow> h err | Inr x \<Rightarrow> k x)"

text \<open>\<open>_ = m; k\<close>, and \<open>defer m\<close> around \<open>k\<close>.\<close>

definition and_then :: "('s, 'a) state \<Rightarrow> ('s, 'b) state \<Rightarrow> ('s, 'b) state" where
  "and_then m k = State_Monad.bind m (\<lambda>_. k)"

definition deferring :: "('s, 'a) state \<Rightarrow> ('s, 'b) state \<Rightarrow> ('s, 'b) state" where
  "deferring m k = State_Monad.bind k (\<lambda>r. State_Monad.bind m (\<lambda>_. State_Monad.return r))"

abbreviation ret :: "'a \<Rightarrow> ('s, 'a) state" where
  "ret \<equiv> State_Monad.return"

abbreviation fails :: "gerr \<Rightarrow> ('s, gerr option) state" where
  "fails err \<equiv> ret (Some err)"

lemma run_perform [simp]: "run_state (perform f ok c) h = (f h c, h @ [(c, ok (f h c))])"
  by (simp add: perform_def)

lemma run_ret [simp]: "run_state (ret x) h = (x, h)"
  by (simp add: State_Monad.return_def)

lemma run_if_err [simp]:
  "run_state (if_err m e k) h =
     (case run_state m h of (None, h') \<Rightarrow> run_state k h' | (Some err, h') \<Rightarrow> run_state (e err) h')"
  by (auto simp: if_err_def State_Monad.bind_def split: prod.splits option.splits)

lemma run_with_val [simp]:
  "run_state (with_val m e k) h =
     (case run_state m h of (Inr x, h') \<Rightarrow> run_state (k x) h' | (Inl err, h') \<Rightarrow> run_state (e err) h')"
  by (auto simp: with_val_def State_Monad.bind_def split: prod.splits sum.splits)

lemma run_and_then [simp]: "run_state (and_then m k) h = run_state k (snd (run_state m h))"
  by (auto simp: and_then_def State_Monad.bind_def split: prod.splits)

lemma run_deferring [simp]:
  "run_state (deferring m k) h = (fst (run_state k h), snd (run_state m (snd (run_state k h))))"
  by (auto simp: deferring_def State_Monad.bind_def State_Monad.return_def split: prod.splits)

lemma run_bind [simp]:
  "run_state (State_Monad.bind m f) h = (case run_state m h of (x, h') \<Rightarrow> run_state (f x) h')"
  by (auto simp: State_Monad.bind_def split: prod.splits)

lemma run_call [simp]:
  "run_state (call_err E c) h = (env_err E h c, h @ [(c, env_err E h c = None)])"
  "run_state (call_str E c) h = (env_str E h c, h @ [(c, is_ok (env_str E h c))])"
  "run_state (call_names E c) h = (env_names E h c, h @ [(c, is_ok (env_names E h c))])"
  "run_state (call_bool E c) h = (env_bool E h c, h @ [(c, is_ok (env_bool E h c))])"
  "run_state (call_int E c) h = (env_int E h c, h @ [(c, is_ok (env_int E h c))])"
  "run_state (call_u64s E c) h = (env_u64s E h c, h @ [(c, is_ok (env_u64s E h c))])"
  "run_state (call_cmd E x n as) h =
     (env_cmd E h (Command x n as), h @ [(Command x n as, snd (env_cmd E h (Command x n as)) = None)])"
  by (simp_all add: call_err_def call_str_def call_names_def call_bool_def call_int_def call_u64s_def
      call_cmd_def)

lemma bool_result_cases:
  fixes r :: "bool result"
  obtains err where "r = Inl err" | "r = Inr False" | "r = Inr True"
proof (cases r)
  case (Inr b)
  with that show ?thesis by (cases b) simp_all
qed (rule that(1))

lemma is_ok_simps [simp]: "is_ok (Inr x)" "\<not> is_ok (Inl e)"
  by (simp_all add: is_ok_def)

text \<open>A host on which every call succeeds.\<close>

definition quiet_env :: "'x env" where
  "quiet_env =
     \<lparr>env_err = (\<lambda>_ _. None), env_str = (\<lambda>_ _. Inr ''''), env_names = (\<lambda>_ _. Inr []),
      env_bool = (\<lambda>_ _. Inr False), env_int = (\<lambda>_ _. Inr 1), env_u64s = (\<lambda>_ _. Inr []),
      env_cmd = (\<lambda>_ _. ('''', None))\<rparr>"

section \<open>Traces\<close>

text \<open>
  \<open>adds Q m\<close>: whatever the history, \<open>m\<close> only appends to it, and what it appends
  satisfies \<open>Q\<close>. For a property of traces that holds of the empty trace and of the
  concatenation of two such traces, the rules follow the structure of a program.
\<close>

definition adds :: "('x history \<Rightarrow> bool) \<Rightarrow> ('x, 'a) io \<Rightarrow> bool" where
  "adds Q m \<longleftrightarrow> (\<forall>h. \<exists>l. snd (run_state m h) = h @ l \<and> Q l)"

lemma addsI: "(\<And>h. \<exists>l. snd (run_state m h) = h @ l \<and> Q l) \<Longrightarrow> adds Q m"
  by (simp add: adds_def)

lemma addsE:
  assumes "adds Q m"
  obtains l where "snd (run_state m h) = h @ l" "Q l"
  using assms by (auto simp: adds_def)

lemma adds_mono: "adds P m \<Longrightarrow> (\<And>l. P l \<Longrightarrow> Q l) \<Longrightarrow> adds Q m"
  unfolding adds_def by blast

lemma adds_conj: "adds P m \<Longrightarrow> adds Q m \<Longrightarrow> adds (\<lambda>l. P l \<and> Q l) m"
  unfolding adds_def by (metis same_append_eq)

lemma adds_call:
  "(\<And>b. Q [(c, b)]) \<Longrightarrow> adds Q (call_err E c)"
  "(\<And>b. Q [(c, b)]) \<Longrightarrow> adds Q (call_str E c)"
  "(\<And>b. Q [(c, b)]) \<Longrightarrow> adds Q (call_names E c)"
  "(\<And>b. Q [(c, b)]) \<Longrightarrow> adds Q (call_bool E c)"
  "(\<And>b. Q [(c, b)]) \<Longrightarrow> adds Q (call_int E c)"
  "(\<And>b. Q [(c, b)]) \<Longrightarrow> adds Q (call_u64s E c)"
  "(\<And>b. Q [(Command x n as, b)]) \<Longrightarrow> adds Q (call_cmd E x n as)"
  unfolding adds_def by simp_all

locale trace_law =
  fixes Q :: "'x history \<Rightarrow> bool"
  assumes Q_nil: "Q []" and Q_append: "Q k \<Longrightarrow> Q l \<Longrightarrow> Q (k @ l)"
begin

lemma adds_ret: "adds Q (ret x)"
  by (rule addsI) (simp add: Q_nil)

lemma adds_bind:
  assumes "adds Q m" "\<And>x. adds Q (f x)"
  shows "adds Q (State_Monad.bind m f)"
proof (rule addsI)
  fix h
  obtain x h' where r: "run_state m h = (x, h')" by fastforce
  obtain l where l: "h' = h @ l" "Q l" using addsE [OF assms(1), of h] r by auto
  obtain k where "snd (run_state (f x) h') = h' @ k" "Q k" using addsE [OF assms(2), of x h'] by auto
  with l r show "\<exists>l. snd (run_state (State_Monad.bind m f) h) = h @ l \<and> Q l"
    by (intro exI [of _ "l @ k"]) (simp add: Q_append)
qed

lemma adds_flow:
  "adds Q m \<Longrightarrow> (\<And>err. adds Q (e err)) \<Longrightarrow> adds Q k \<Longrightarrow> adds Q (if_err m e k)"
  "adds Q v \<Longrightarrow> (\<And>err. adds Q (e err)) \<Longrightarrow> (\<And>x. adds Q (f x)) \<Longrightarrow> adds Q (with_val v e f)"
  "adds Q p \<Longrightarrow> adds Q n \<Longrightarrow> adds Q (and_then p n)"
  "adds Q q \<Longrightarrow> adds Q i \<Longrightarrow> adds Q (deferring q i)"
  unfolding if_err_def with_val_def and_then_def deferring_def
  by (auto intro!: adds_bind adds_ret split: option.split sum.split)

lemma adds_cases:
  "(b \<Longrightarrow> adds Q m) \<Longrightarrow> (\<not> b \<Longrightarrow> adds Q k) \<Longrightarrow> adds Q (if b then m else k)"
  "adds Q k \<Longrightarrow> (\<And>y. adds Q (f y)) \<Longrightarrow> adds Q (case r of None \<Rightarrow> k | Some y \<Rightarrow> f y)"
  "(\<And>x y. adds Q (g x y)) \<Longrightarrow> adds Q (case pr of (x, y) \<Rightarrow> g x y)"
  by (auto split: option.split prod.split)

lemmas intros = adds_ret adds_bind adds_flow adds_cases adds_call

end

text \<open>The simplest trace property: every event satisfies a predicate.\<close>

interpretation every: trace_law "list_all P" for P
  by unfold_locales simp_all

text \<open>The events of a program are among those that satisfy a predicate.\<close>

lemma every_event:
  "adds (list_all P) m \<Longrightarrow> snd (run_state m h) = h @ l \<Longrightarrow> e \<in> set l \<Longrightarrow> P e"
  unfolding adds_def list_all_iff by (metis same_append_eq)

section \<open>Results\<close>

text \<open>\<open>yields R m\<close>: whatever the host answers, the result of \<open>m\<close> satisfies \<open>R\<close>.\<close>

definition yields :: "('a \<Rightarrow> bool) \<Rightarrow> ('s, 'a) state \<Rightarrow> bool" where
  "yields R m \<longleftrightarrow> (\<forall>h. R (fst (run_state m h)))"

lemma yieldsD: "yields R m \<Longrightarrow> run_state m h = (r, h') \<Longrightarrow> R r"
  unfolding yields_def by (metis fst_conv)

lemma yields_intros:
  "R x \<Longrightarrow> yields R (ret x)"
  "(\<And>x. yields R (f x)) \<Longrightarrow> yields R (State_Monad.bind m f)"
  "(\<And>err. yields R (e err)) \<Longrightarrow> yields R k \<Longrightarrow> yields R (if_err p e k)"
  "(\<And>err. yields R (e err)) \<Longrightarrow> (\<And>y. yields R (g y)) \<Longrightarrow> yields R (with_val v e g)"
  "yields R k \<Longrightarrow> yields R (and_then q k)"
  "yields R k \<Longrightarrow> yields R (deferring q k)"
  by (auto simp: yields_def split: prod.splits option.splits sum.splits)

lemma yields_cases:
  "(b \<Longrightarrow> yields R m) \<Longrightarrow> (\<not> b \<Longrightarrow> yields R k) \<Longrightarrow> yields R (if b then m else k)"
  "yields R k \<Longrightarrow> (\<And>y. yields R (f y)) \<Longrightarrow> yields R (case r of None \<Rightarrow> k | Some y \<Rightarrow> f y)"
  by (auto split: option.split)


section \<open>Results and traces together\<close>

text \<open>
  \<open>does R m\<close>: whatever the history and the host's answers, \<open>m\<close> appends a trace, and its
  result and this trace are related by \<open>R\<close>. The rules push \<open>R\<close> through a program, call by
  call.
\<close>

definition does :: "('a \<Rightarrow> 'x history \<Rightarrow> bool) \<Rightarrow> ('x, 'a) io \<Rightarrow> bool" where
  "does R m \<longleftrightarrow> (\<forall>h. \<exists>r l. run_state m h = (r, h @ l) \<and> R r l)"

lemma doesE:
  assumes "does R m"
  obtains r l where "run_state m h = (r, h @ l)" "R r l"
  using assms unfolding does_def by blast

lemma doesD: "does R m \<Longrightarrow> run_state m h = (r, h @ l) \<Longrightarrow> R r l"
  unfolding does_def by (metis Pair_inject same_append_eq)

lemma does_run: "does R m \<Longrightarrow> run_state m h = (r, h') \<Longrightarrow> \<exists>l. h' = h @ l \<and> R r l"
  unfolding does_def by (metis Pair_inject)

lemma does_mono: "does P m \<Longrightarrow> (\<And>r l. P r l \<Longrightarrow> Q r l) \<Longrightarrow> does Q m"
  unfolding does_def by blast

lemma does_adds: "adds Q m \<Longrightarrow> does (\<lambda>_. Q) m"
  unfolding adds_def does_def by (metis prod.collapse)

lemma adds_does: "does R m \<Longrightarrow> (\<And>r l. R r l \<Longrightarrow> Q l) \<Longrightarrow> adds Q m"
  unfolding adds_def does_def by (metis snd_conv)

lemma does_ret: "R x [] \<Longrightarrow> does R (ret x)"
  by (simp add: does_def)

lemma does_call_err: "(\<And>r. R r [(c, r = None)]) \<Longrightarrow> does R (call_err E c)"
  by (simp add: does_def)

lemma does_call_val:
  "(\<And>r. R r [(c, is_ok r)]) \<Longrightarrow> does R (call_int E c)"
  "(\<And>r. Q r [(c, is_ok r)]) \<Longrightarrow> does Q (call_names E c)"
  "(\<And>r. P r [(c, is_ok r)]) \<Longrightarrow> does P (call_str E c)"
  by (simp_all add: does_def)

lemma does_bind:
  assumes "does P m" "\<And>x l. P x l \<Longrightarrow> does (\<lambda>r k. R r (l @ k)) (f x)"
  shows "does R (State_Monad.bind m f)"
  unfolding does_def
proof
  fix h
  obtain x l where x: "run_state m h = (x, h @ l)" "P x l" using assms(1) by (rule doesE)
  obtain r k where "run_state (f x) (h @ l) = (r, (h @ l) @ k)" "R r (l @ k)"
    using assms(2) [OF x(2)] by (rule doesE)
  with x show "\<exists>r l. run_state (State_Monad.bind m f) h = (r, h @ l) \<and> R r l" by auto
qed

lemma does_flow:
  "does P m \<Longrightarrow> (\<And>err l. P (Some err) l \<Longrightarrow> does (\<lambda>r k. R r (l @ k)) (e err)) \<Longrightarrow>
   (\<And>l. P None l \<Longrightarrow> does (\<lambda>r k. R r (l @ k)) n) \<Longrightarrow> does R (if_err m e n)"
  "does Q v \<Longrightarrow> (\<And>err l. Q (Inl err) l \<Longrightarrow> does (\<lambda>r k. R r (l @ k)) (e err)) \<Longrightarrow>
   (\<And>x l. Q (Inr x) l \<Longrightarrow> does (\<lambda>r k. R r (l @ k)) (f x)) \<Longrightarrow> does R (with_val v e f)"
  "does P' p \<Longrightarrow> (\<And>x l. P' x l \<Longrightarrow> does (\<lambda>r k. R r (l @ k)) n) \<Longrightarrow> does R (and_then p n)"
  unfolding if_err_def with_val_def and_then_def
  by (auto intro!: does_bind [where P = P] does_bind [where P = Q] does_bind [where P = P']
      split: option.split sum.split)

lemma does_if_call:
  "(\<And>err. does (\<lambda>r k. R r ((c, False) # k)) (e err)) \<Longrightarrow> does (\<lambda>r k. R r ((c, True) # k)) n \<Longrightarrow>
   does R (if_err (call_err E c) e n)"
  "(\<And>b. does (\<lambda>r k. R r ((c, b) # k)) n) \<Longrightarrow> does R (and_then (call_err E c) n)"
  by (rule does_flow(1) [where P = "\<lambda>r l. l = [(c, r = None)]"], rule does_call_err; simp)
    (rule does_flow(3) [where P' = "\<lambda>r l. l = [(c, r = None)]"], rule does_call_err; auto)

lemma does_bind_call:
  "(\<And>x. does (\<lambda>r k. R r ((c, x = None) # k)) (f x)) \<Longrightarrow> does R (State_Monad.bind (call_err E c) f)"
  by (rule does_bind [where P = "\<lambda>r l. l = [(c, r = None)]"], rule does_call_err; simp)

lemma does_with_call:
  "(\<And>err. does (\<lambda>r k. R r ((c, False) # k)) (e err)) \<Longrightarrow>
   (\<And>x. does (\<lambda>r k. R r ((c, True) # k)) (f x)) \<Longrightarrow> does R (with_val (call_int E c) e f)"
  "(\<And>err. does (\<lambda>r k. R r ((c, False) # k)) (e err)) \<Longrightarrow>
   (\<And>xs. does (\<lambda>r k. R r ((c, True) # k)) (g xs)) \<Longrightarrow> does R (with_val (call_names E c) e g)"
  "(\<And>err. does (\<lambda>r k. R r ((c, False) # k)) (e err)) \<Longrightarrow>
   (\<And>s. does (\<lambda>r k. R r ((c, True) # k)) (u s)) \<Longrightarrow> does R (with_val (call_str E c) e u)"
  by (rule does_flow(2) [where Q = "\<lambda>r l. l = [(c, is_ok r)]"], rule does_call_val; simp)
    (rule does_flow(2) [where Q = "\<lambda>r l. l = [(c, is_ok r)]"], rule does_call_val; simp)+

lemma does_cases:
  "(b \<Longrightarrow> does R m) \<Longrightarrow> (\<not> b \<Longrightarrow> does R k) \<Longrightarrow> does R (if b then m else k)"
  "(r = None \<Longrightarrow> does R k) \<Longrightarrow> (\<And>y. r = Some y \<Longrightarrow> does R (f y)) \<Longrightarrow> does R (case r of None \<Rightarrow> k | Some y \<Rightarrow> f y)"
  by (auto split: option.split)


section \<open>Programs with a shared table\<close>

text \<open>
  A service that keeps a table beside the host: \<open>locked f\<close> is a critical section of its
  mutex, or one statement of its database; \<open>on_host m\<close> leaves the table alone.
\<close>

definition locked :: "('r \<Rightarrow> 'a \<times> 'r) \<Rightarrow> ('r \<times> 'x history, 'a) state" where
  "locked f = State (\<lambda>(reg, h). case f reg of (x, reg') \<Rightarrow> (x, (reg', h)))"

definition on_host :: "('x, 'a) io \<Rightarrow> ('r \<times> 'x history, 'a) state" where
  "on_host m = State (\<lambda>(reg, h). case run_state m h of (x, h') \<Rightarrow> (x, (reg, h')))"

lemma run_locked [simp]: "run_state (locked f) (reg, h) = (fst (f reg), (snd (f reg), h))"
  by (simp add: locked_def split: prod.split)

lemma run_on_host [simp]:
  "run_state (on_host m) (reg, h) = (fst (run_state m h), (reg, snd (run_state m h)))"
  by (simp add: on_host_def split: prod.split)

end
