(* ===== verification/Vm_Api.thy ===== *)
theory Vm_Api
  imports Main
begin

text \<open>
  The gRPC messages between the submission API and the orchestrator, as their Go structs
  have them, and the two gRPC status codes that the orchestrator answers with.
\<close>

record SpawnRequest =
  SubmissionId :: string
  VcpuCount :: int
  MemoryMib :: int

record SpawnResponse =
  sr_VmId :: string
  sr_IpAddress :: string
  sr_Success :: bool
  sr_ErrorMessage :: string
  sr_VsockPath :: string

record TeardownResponse =
  td_Success :: bool
  td_ErrorMessage :: string

datatype grpc_status = InvalidArgument string | Internal string

type_synonym 'a rpc = "grpc_status + 'a"

end
