(* ===== verification/Submission.thy ===== *)
theory Submission
  imports Scoring Go_Mux Go_OS Go_Sort Metrics_Table Vm_Api
begin

text \<open>
  \<open>services/submission-api/main.go\<close>: the HTTP API that queues submissions as rows of the
  table \<open>benchmark_jobs\<close>, and the workers that take them from there. The state is the
  table, with the history of the calls that the service makes: its files, its SQL
  statements, its RPCs to the orchestrator and to the bot fleet. Whether a call succeeds,
  and what an RPC or the metrics table answers, is up to the environment; a statement that
  fails has had no effect.
\<close>

section \<open>The table of jobs\<close>

record job =
  job_status :: string
  job_score :: f64
  job_p99 :: int
  job_rate :: f64

type_synonym jobs = "(string \<times> job) list"

text \<open>
  The statements that write the table: the upsert of \<open>handleSubmit\<close>, and the three updates
  of a worker. The columns \<open>created_at\<close> and \<open>updated_at\<close> are never read.
\<close>

datatype stmt = InsertJob string | SetRunning string | SetFailed string
  | SetCompleted string f64 int f64

fun apply_stmt :: "stmt \<Rightarrow> jobs \<Rightarrow> jobs" where
  "apply_stmt (InsertJob sid) jobs =
     AList.update sid \<lparr>job_status = ''PENDING'', job_score = Fin 0, job_p99 = 0, job_rate = Fin 0\<rparr> jobs"
| "apply_stmt (SetRunning sid) jobs = AList.map_entry sid (\<lambda>j. j\<lparr>job_status := ''RUNNING''\<rparr>) jobs"
| "apply_stmt (SetFailed sid) jobs = AList.map_entry sid (\<lambda>j. j\<lparr>job_status := ''FAILED''\<rparr>) jobs"
| "apply_stmt (SetCompleted sid score p99 rate) jobs =
     AList.map_entry sid
       (\<lambda>_. \<lparr>job_status = ''COMPLETED'', job_score = score, job_p99 = p99, job_rate = rate\<rparr>) jobs"

text \<open>\<open>SELECT submission_id FROM benchmark_jobs WHERE status = 'PENDING'\<close>\<close>

definition pending_jobs :: "jobs \<Rightarrow> string list" where
  "pending_jobs jobs = map fst (filter (\<lambda>(_, j). job_status j = ''PENDING'') jobs)"

section \<open>The bot fleet and the calls of the service\<close>

record LatencyPercentiles =
  lp_P50Micros :: "64 word"
  lp_P90Micros :: "64 word"
  lp_P99Micros :: "64 word"

record BenchmarkRequest =
  bq_VmId :: string
  bq_TargetIp :: string
  bq_Port :: int
  bq_TotalOrders :: int
  bq_Concurrency :: int
  bq_Mode :: string
  bq_VsockPath :: string

record BenchmarkResponse =
  bs_Success :: bool
  bs_SuccessfulAcks :: "32 word"
  bs_FailedOrders :: "32 word"
  bs_Latencies :: "LatencyPercentiles option"

datatype sub_call = Exec stmt | QueryJob string
  | BeginTx | SelectPending | TxExec stmt | Commit | Rollback
  | SelectMaxId | SelectMetrics string int
  | SpawnRPC SpawnRequest | StartBenchmark BenchmarkRequest | TeardownRPC string

text \<open>The cases of the \<open>select\<close> of the polling loop, apart from its timeout.\<close>

datatype poll_case = CtxDone | Tick

text \<open>
  \<open>pick\<close>: which pending row the database hands out. \<open>metrics_at\<close>: the table
  \<open>benchmark_metrics\<close>. \<open>poll_cases\<close>: the cases that \<open>select\<close> takes before the timeout of
  the polling loop is taken; it fires after 5 seconds, the ticks are 250 milliseconds
  apart.
\<close>

record sub_env =
  host :: "sub_call env"
  temp_dir :: string
  spawn_rpc :: "sub_call history \<Rightarrow> SpawnRequest \<Rightarrow> SpawnResponse result"
  bench_rpc :: "sub_call history \<Rightarrow> BenchmarkRequest \<Rightarrow> BenchmarkResponse result"
  pick :: "sub_call history \<Rightarrow> nat"
  metrics_at :: "sub_call history \<Rightarrow> metric_row list"
  poll_cases :: "sub_call history \<Rightarrow> poll_case list"

type_synonym 'a sub = "(jobs \<times> sub_call history, 'a) state"

text \<open>\<open>db.Exec\<close>, and \<open>tx.Commit\<close> of a transaction that executed one statement.\<close>

definition exec :: "sub_env \<Rightarrow> stmt \<Rightarrow> gerr option sub" where
  "exec E st =
     if_err (on_host (call_err (host E) (Sdk (Exec st)))) (\<lambda>err. ret (Some err))
       (and_then (locked (\<lambda>jobs. ((), apply_stmt st jobs))) (ret None))"

definition tx_commit :: "sub_env \<Rightarrow> stmt \<Rightarrow> gerr option sub" where
  "tx_commit E st =
     if_err (on_host (call_err (host E) (Sdk Commit))) (\<lambda>err. ret (Some err))
       (and_then (locked (\<lambda>jobs. ((), apply_stmt st jobs))) (ret None))"

section \<open>POST /submit\<close>

record sub_request =
  sq_method :: string
  sq_path :: string
  sq_escaped :: string
  multipart_ok :: bool
  form_id :: string
  form_binary :: "string option"
  query_id :: string

definition upload_path :: "sub_env \<Rightarrow> string \<Rightarrow> string" where
  "upload_path E sid = path_Join [temp_dir E, ''submission-'' @ sid @ ''.bin'']"

text \<open>\<open>io.Copy\<close> into the opened file is \<^const>\<open>WriteFile\<close>.\<close>

definition saveUploadedBinary :: "sub_env \<Rightarrow> string \<Rightarrow> string \<Rightarrow> (sub_call, string result) io" where
  "saveUploadedBinary E sid data =
     (let tempPath = upload_path E sid in
      if_err (call_err (host E) (OpenFile tempPath)) (\<lambda>err. ret (Inl err))
        (if_err (call_err (host E) (WriteFile tempPath data)) (\<lambda>err. ret (Inl err))
          (ret (Inr tempPath))))"

text \<open>\<open>map[string]string\<close> and \<open>map[string]interface{}\<close> encode with their keys sorted.\<close>

definition accepted_json :: "string \<Rightarrow> json" where
  "accepted_json sid = JObj
     [(''message'', JStr ''Benchmark job queued successfully''), (''status'', JStr ''PENDING''),
      (''submission_id'', JStr sid)]"

definition submit_body :: "sub_env \<Rightarrow> sub_request \<Rightarrow> rw \<Rightarrow> rw sub" where
  "submit_body E req w =
     (if sq_method req \<noteq> ''POST'' then ret (sub_writeError 405 ''method not allowed'' w)
      else if \<not> multipart_ok req then ret (sub_writeError 400 ''invalid multipart payload'' w)
      else let submissionID = TrimSpace (form_id req) in
        if submissionID = '''' then ret (sub_writeError 400 ''submission_id required'' w)
        else case form_binary req of
          None \<Rightarrow> ret (sub_writeError 400 ''binary payload missing'' w)
        | Some data \<Rightarrow>
            with_val (on_host (saveUploadedBinary E submissionID data))
              (\<lambda>_. ret (sub_writeError 500 ''failed storing binary'' w))
              (\<lambda>tempBinaryPath. deferring (on_host (call_err (host E) (Remove tempBinaryPath)))
                (if_err (exec E (InsertJob submissionID))
                  (\<lambda>_. ret (sub_writeError 500 ''failed to queue job'' w))
                  (ret (sub_writeJSON 202 (accepted_json submissionID) w)))))"

text \<open>A handler of \<open>net/http\<close> from a program that writes the response; none of them panics.\<close>

definition handler_of :: "('r \<Rightarrow> rw \<Rightarrow> ('s, rw) state) \<Rightarrow> ('r, 's) handler" where
  "handler_of body req s w = (case run_state (body req w) s of (w', s') \<Rightarrow> (s', w', False))"

definition handleSubmit :: "sub_env \<Rightarrow> (sub_request, jobs \<times> sub_call history) handler" where
  "handleSubmit E = handler_of (submit_body E)"

section \<open>GET /status and /health\<close>

text \<open>\<open>p99_micros\<close> is scanned into a \<open>float64\<close>. Every error of the query answers 404.\<close>

definition status_json :: "string \<Rightarrow> job \<Rightarrow> json" where
  "status_json sid j = JObj
     [(''p99_micros'', JFloat (f64_of_int (job_p99 j))), (''score'', JFloat (job_score j)),
      (''status'', JStr (job_status j)), (''submission_id'', JStr sid),
      (''success_rate'', JFloat (job_rate j))]"

definition status_body :: "sub_env \<Rightarrow> sub_request \<Rightarrow> rw \<Rightarrow> rw sub" where
  "status_body E req w =
     (if sq_method req \<noteq> ''GET'' then ret (sub_writeError 405 ''method not allowed'' w)
      else if query_id req = '''' then ret (sub_writeError 400 ''submission_id required'' w)
      else if_err (on_host (call_err (host E) (Sdk (QueryJob (query_id req)))))
        (\<lambda>_. ret (sub_writeError 404 ''submission not found'' w))
        (State_Monad.bind (locked (\<lambda>jobs. (map_of jobs (query_id req), jobs))) (\<lambda>row.
          case row of
            None \<Rightarrow> ret (sub_writeError 404 ''submission not found'' w)
          | Some j \<Rightarrow> ret (sub_writeJSON 200 (status_json (query_id req) j) w))))"

definition handleStatus :: "sub_env \<Rightarrow> (sub_request, jobs \<times> sub_call history) handler" where
  "handleStatus E = handler_of (status_body E)"

definition sub_healthHandler :: "(sub_request, jobs \<times> sub_call history) handler" where
  "sub_healthHandler = handler_of (\<lambda>_ w. ret (sub_writeJSON 200 (JObj [(''status'', JStr ''ok'')]) w))"

text \<open>The routes of \<open>main\<close>; every other path is answered by \<open>http.NotFound\<close>.\<close>

definition sub_routes :: "sub_env \<Rightarrow> string list \<Rightarrow> (sub_request, jobs \<times> sub_call history) handler" where
  "sub_routes E segs =
     (if segs = [''health''] then sub_healthHandler
      else if segs = [''submit''] then handleSubmit E
      else if segs = [''status''] then handleStatus E
      else (\<lambda>req s w. (s, http_Error ''404 page not found'' 404 w, False)))"

definition sub_server ::
  "sub_env \<Rightarrow> (sub_request \<Rightarrow> string \<times> string) \<Rightarrow> (sub_request, (jobs \<times> sub_call history) \<times> access_log) handler"
where
  "sub_server E moved =
     with_recovery sub_writeError (with_logging (\<lambda>req. (sq_method req, sq_path req))
       (serve_mux sq_method sq_escaped moved (sub_routes E)))"


section \<open>Workers\<close>

text \<open>
  The newest metrics row of the submission with an id above \<open>minID\<close>. A NULL column does
  not scan into an \<open>int64\<close> or \<open>float64\<close>.
\<close>

definition newest_metrics :: "string \<Rightarrow> int \<Rightarrow> metric_row list \<Rightarrow> metric_row option" where
  "newest_metrics sid minID tbl =
     (case sort_slice (\<lambda>a b. id_col a > id_col b)
        (filter (\<lambda>r. submission_id_col r = sid \<and> id_col r > minID) tbl) of
        [] \<Rightarrow> None
      | r # _ \<Rightarrow> Some r)"

definition scan_metrics :: "metric_row \<Rightarrow> (int \<times> int \<times> f64) result" where
  "scan_metrics r =
     (case (p50_col r, p99_col r, success_rate_col r) of
        (Some p50, Some p99, Some rate) \<Rightarrow> Inr (p50, p99, rate)
      | _ \<Rightarrow> Inl (errors_New ''converting NULL is unsupported''))"

definition query_metrics :: "sub_env \<Rightarrow> string \<Rightarrow> int \<Rightarrow> (sub_call, (int \<times> int \<times> f64) result) io" where
  "query_metrics E sid minID =
     perform (\<lambda>h c. case env_err (host E) h c of
         Some err \<Rightarrow> Inl err
       | None \<Rightarrow> (case newest_metrics sid minID (metrics_at E h) of
           None \<Rightarrow> Inl (errors_New ''sql: no rows in result set'')
         | Some r \<Rightarrow> scan_metrics r)) is_ok (Sdk (SelectMetrics sid minID))"

fun poll_loop ::
  "sub_env \<Rightarrow> string \<Rightarrow> int \<Rightarrow> poll_case list \<Rightarrow> (sub_call, (int \<times> int \<times> f64) result) io"
where
  "poll_loop E sid minID [] = ret (Inl (errors_New ''benchmark polling timeout''))"
| "poll_loop E sid minID (CtxDone # cases) = ret (Inl (errors_New ''context canceled''))"
| "poll_loop E sid minID (Tick # cases) =
     with_val (query_metrics E sid minID) (\<lambda>_. poll_loop E sid minID cases) (\<lambda>m. ret (Inr m))"

definition pollBenchmarkMetrics ::
  "sub_env \<Rightarrow> string \<Rightarrow> int \<Rightarrow> (sub_call, (int \<times> int \<times> f64) result) io"
where
  "pollBenchmarkMetrics E sid minID =
     State (\<lambda>h. run_state (poll_loop E sid minID (poll_cases E h)) h)"

text \<open>\<open>SELECT COALESCE(MAX(id), 0)\<close>; an error leaves the variable 0.\<close>

definition max_metrics_id :: "metric_row list \<Rightarrow> int" where
  "max_metrics_id tbl = coalesce [if tbl = [] then None else Some (Max (set (map id_col tbl)))] 0"

definition query_max_id :: "sub_env \<Rightarrow> (sub_call, int) io" where
  "query_max_id E =
     State_Monad.bind (perform (\<lambda>h c. case env_err (host E) h c of
         Some err \<Rightarrow> Inl err
       | None \<Rightarrow> Inr (max_metrics_id (metrics_at E h))) is_ok (Sdk SelectMaxId))
       (\<lambda>r. ret (case r of Inl _ \<Rightarrow> 0 | Inr m \<Rightarrow> m))"

definition spawn_request :: "string \<Rightarrow> SpawnRequest" where
  "spawn_request sid = \<lparr>SubmissionId = sid, VcpuCount = 1, MemoryMib = 256\<rparr>"

definition benchmark_request :: "string \<Rightarrow> SpawnResponse \<Rightarrow> BenchmarkRequest" where
  "benchmark_request sid resp =
     \<lparr>bq_VmId = sid, bq_TargetIp = (if sr_IpAddress resp = '''' then ''172.16.0.2'' else sr_IpAddress resp),
      bq_Port = 8080, bq_TotalOrders = 1000, bq_Concurrency = 1, bq_Mode = ''burst'',
      bq_VsockPath = sr_VsockPath resp\<rparr>"

text \<open>An RPC counts as done when it answers with \<open>Success\<close>.\<close>

definition spawn_vm :: "sub_env \<Rightarrow> string \<Rightarrow> (sub_call, SpawnResponse option) io" where
  "spawn_vm E sid =
     perform (\<lambda>h _. case spawn_rpc E h (spawn_request sid) of
         Inr resp \<Rightarrow> if sr_Success resp then Some resp else None
       | Inl _ \<Rightarrow> None) (\<lambda>r. r \<noteq> None) (Sdk (SpawnRPC (spawn_request sid)))"

definition start_benchmark :: "sub_env \<Rightarrow> string \<Rightarrow> SpawnResponse \<Rightarrow> (sub_call, BenchmarkResponse option) io" where
  "start_benchmark E sid vm =
     perform (\<lambda>h _. case bench_rpc E h (benchmark_request sid vm) of
         Inr resp \<Rightarrow> if bs_Success resp then Some resp else None
       | Inl _ \<Rightarrow> None) (\<lambda>r. r \<noteq> None) (Sdk (StartBenchmark (benchmark_request sid vm)))"

text \<open>
  The numbers of the bot fleet's answer, used when the metrics did not arrive: the
  percentiles are converted from \<open>uint64\<close>, the counts from \<open>int32\<close>.
\<close>

definition fallback_metrics :: "BenchmarkResponse \<Rightarrow> int \<times> int \<times> f64" where
  "fallback_metrics resp =
     (let (p50, p99) = (case bs_Latencies resp of
            None \<Rightarrow> (0, 0)
          | Some l \<Rightarrow> (sint (lp_P50Micros l), sint (lp_P99Micros l)));
          totalAcks = sint (bs_SuccessfulAcks resp) + sint (bs_FailedOrders resp)
      in (p50, p99,
          if totalAcks > 0 then f64_div (f64_of_int (sint (bs_SuccessfulAcks resp))) (f64_of_int totalAcks)
          else Fin 1))"

definition completion :: "string \<Rightarrow> int \<times> int \<times> f64 \<Rightarrow> stmt" where
  "completion sid m =
     (case m of (p50, p99, rate) \<Rightarrow> SetCompleted sid (sub_calculateScore p50 p99 rate) p99 rate)"

text \<open>From the spawned VM to the update of the job.\<close>

definition measure_job :: "sub_env \<Rightarrow> string \<Rightarrow> SpawnResponse \<Rightarrow> stmt sub" where
  "measure_job E sid vm =
     State_Monad.bind (on_host (start_benchmark E sid vm)) (\<lambda>r. case r of
       None \<Rightarrow> ret (SetFailed sid)
     | Some resp \<Rightarrow>
         State_Monad.bind (on_host (query_max_id E)) (\<lambda>minID.
         State_Monad.bind (on_host (pollBenchmarkMetrics E sid minID)) (\<lambda>m.
           ret (completion sid (case m of Inr x \<Rightarrow> x | Inl _ \<Rightarrow> fallback_metrics resp)))))"

definition runBenchmarkSync :: "sub_env \<Rightarrow> string \<Rightarrow> unit sub" where
  "runBenchmarkSync E sid =
     State_Monad.bind (on_host (spawn_vm E sid)) (\<lambda>r. case r of
       None \<Rightarrow> and_then (exec E (SetFailed sid)) (ret ())
     | Some vm \<Rightarrow>
         deferring (on_host (call_err (host E) (Sdk (TeardownRPC (sr_VmId vm)))))
           (State_Monad.bind (measure_job E sid vm) (\<lambda>st. and_then (exec E st) (ret ()))))"

text \<open>
  \<open>SELECT ... FOR UPDATE SKIP LOCKED LIMIT 1\<close>: any pending row whose lock is free. The
  row stays locked until the transaction ends.
\<close>

definition select_pending :: "sub_env \<Rightarrow> string list \<Rightarrow> string result sub" where
  "select_pending E held =
     State_Monad.bind (locked (\<lambda>jobs. (filter (\<lambda>sid. sid \<notin> set held) (pending_jobs jobs), jobs))) (\<lambda>sids.
       on_host (perform (\<lambda>h c. case env_err (host E) h c of
           Some err \<Rightarrow> Inl err
         | None \<Rightarrow> if sids = [] then Inl (errors_New ''sql: no rows in result set'')
             else Inr (sids ! (pick E h mod length sids))) is_ok (Sdk SelectPending)))"

text \<open>The commit's error is not looked at. The deferred rollback comes when all is over.\<close>

definition processNextJob :: "sub_env \<Rightarrow> unit sub" where
  "processNextJob E =
     if_err (on_host (call_err (host E) (Sdk BeginTx))) (\<lambda>_. ret ())
       (deferring (on_host (call_err (host E) (Sdk Rollback)))
         (with_val (select_pending E []) (\<lambda>_. ret ()) (\<lambda>sid.
           if_err (on_host (call_err (host E) (Sdk (TxExec (SetRunning sid))))) (\<lambda>_. ret ())
             (and_then (tx_commit E (SetRunning sid)) (runBenchmarkSync E sid)))))"

text \<open>A worker of the pool, for its first \<open>n\<close> turns.\<close>

fun worker_turns :: "sub_env \<Rightarrow> nat \<Rightarrow> unit sub" where
  "worker_turns E 0 = ret ()"
| "worker_turns E (Suc n) = and_then (processNextJob E) (worker_turns E n)"

section \<open>Runs\<close>

lemma run_exec [simp]:
  "run_state (exec E st) (jobs, h) =
     (env_err (host E) h (Sdk (Exec st)),
      (if env_err (host E) h (Sdk (Exec st)) = None then apply_stmt st jobs else jobs,
       h @ [(Sdk (Exec st), env_err (host E) h (Sdk (Exec st)) = None)]))"
  by (auto simp: exec_def split: option.split)

lemma run_tx_commit [simp]:
  "run_state (tx_commit E st) (jobs, h) =
     (env_err (host E) h (Sdk Commit),
      (if env_err (host E) h (Sdk Commit) = None then apply_stmt st jobs else jobs,
       h @ [(Sdk Commit, env_err (host E) h (Sdk Commit) = None)]))"
  by (auto simp: tx_commit_def split: option.split)

lemma map_of_apply_stmt:
  "map_of (apply_stmt (InsertJob sid) jobs) k =
     (if k = sid then Some \<lparr>job_status = ''PENDING'', job_score = Fin 0, job_p99 = 0, job_rate = Fin 0\<rparr>
      else map_of jobs k)"
  "map_of (apply_stmt (SetRunning sid) jobs) k =
     (if k = sid then map_option (job_status_update (\<lambda>_. ''RUNNING'')) (map_of jobs k) else map_of jobs k)"
  "map_of (apply_stmt (SetFailed sid) jobs) k =
     (if k = sid then map_option (job_status_update (\<lambda>_. ''FAILED'')) (map_of jobs k) else map_of jobs k)"
  "map_of (apply_stmt (SetCompleted sid score p99 rate) jobs) k =
     (if k = sid then map_option (\<lambda>_. \<lparr>job_status = ''COMPLETED'', job_score = score, job_p99 = p99,
        job_rate = rate\<rparr>) (map_of jobs k) else map_of jobs k)"
  by (simp_all add: map_of_map_entry split: option.split)

lemma wf_apply_stmt: "wf_alist jobs \<Longrightarrow> wf_alist (apply_stmt st jobs)"
  by (cases st) (simp_all add: distinct_update distinct_map_entry)

declare apply_stmt.simps [simp del]

lemma in_pending_jobs:
  "wf_alist jobs \<Longrightarrow>
   sid \<in> set (pending_jobs jobs) \<longleftrightarrow> (\<exists>j. map_of jobs sid = Some j \<and> job_status j = ''PENDING'')"
  by (force simp: pending_jobs_def)

text \<open>The calls between a spawn and the update of the job.\<close>

fun measuring :: "sub_call host_call \<times> bool \<Rightarrow> bool" where
  "measuring (Sdk (StartBenchmark _), _) = True"
| "measuring (Sdk SelectMaxId, _) = True"
| "measuring (Sdk (SelectMetrics _ _), _) = True"
| "measuring _ = False"

lemma poll_loop_adds: "adds (list_all measuring) (poll_loop E sid minID cases)"
proof (induction E sid minID cases rule: poll_loop.induct)
  case (3 E sid minID cases)
  have "adds (list_all measuring) (query_metrics E sid minID)"
    by (rule addsI) (simp add: query_metrics_def)
  with 3 show ?case by (auto intro!: every.intros)
qed (simp_all add: every.adds_ret)

lemma poll_adds: "adds (list_all measuring) (pollBenchmarkMetrics E sid minID)"
  using poll_loop_adds unfolding pollBenchmarkMetrics_def adds_def by simp

text \<open>What a measurement decides: failed, or completed with some numbers.\<close>

definition decides :: "string \<Rightarrow> stmt \<Rightarrow> bool" where
  "decides sid st \<longleftrightarrow> st = SetFailed sid \<or> (\<exists>m. st = completion sid m)"

lemma decides_simps [simp]: "decides sid (SetFailed sid)" "decides sid (completion sid m)"
  unfolding decides_def by blast+

lemma measure_run:
  obtains st l where "run_state (measure_job E sid vm) (jobs, h) = (st, (jobs, h @ l))"
    "list_all measuring l" "decides sid st"
proof (cases "fst (run_state (start_benchmark E sid vm) h)")
  case None
  show thesis
    by (rule that [of "SetFailed sid" "[(Sdk (StartBenchmark (benchmark_request sid vm)), False)]"])
      (use None in \<open>simp_all add: measure_job_def start_benchmark_def\<close>)
next
  case (Some resp)
  let ?h1 = "h @ [(Sdk (StartBenchmark (benchmark_request sid vm)), True)]"
  obtain m b where m: "run_state (query_max_id E) ?h1 = (m, ?h1 @ [(Sdk SelectMaxId, b)])"
    by (simp add: query_max_id_def)
  obtain l where l: "snd (run_state (pollBenchmarkMetrics E sid m) (?h1 @ [(Sdk SelectMaxId, b)])) =
      (?h1 @ [(Sdk SelectMaxId, b)]) @ l" "list_all measuring l"
    by (rule addsE [OF poll_adds])
  show thesis
    by (rule that [of _ "(Sdk (StartBenchmark (benchmark_request sid vm)), True) # (Sdk SelectMaxId, b) # l"])
      (use Some m l in \<open>auto simp: measure_job_def start_benchmark_def split: prod.split\<close>)
qed

lemma run_benchmark_run:
  obtains st l b c where "decides sid st"
    "run_state (runBenchmarkSync E sid) (jobs, h) = ((), (if b then apply_stmt st jobs else jobs, h @ l))"
    "case fst (run_state (spawn_vm E sid) h) of
       None \<Rightarrow> st = SetFailed sid \<and> l = [(Sdk (SpawnRPC (spawn_request sid)), False), (Sdk (Exec st), b)]
     | Some vm \<Rightarrow> \<exists>mid. list_all measuring mid \<and>
         l = (Sdk (SpawnRPC (spawn_request sid)), True) # mid @
             [(Sdk (Exec st), b), (Sdk (TeardownRPC (sr_VmId vm)), c)]"
proof (cases "fst (run_state (spawn_vm E sid) h)")
  case None
  show thesis
    by (rule that [of "SetFailed sid" _ "[_, _]"])
      (use None in \<open>auto simp: runBenchmarkSync_def spawn_vm_def\<close>)
next
  case (Some vm)
  let ?h1 = "h @ [(Sdk (SpawnRPC (spawn_request sid)), True)]"
  obtain st mid where m: "run_state (measure_job E sid vm) (jobs, ?h1) = (st, (jobs, ?h1 @ mid))"
    "list_all measuring mid" "decides sid st"
    by (rule measure_run)
  let ?b = "env_err (host E) (?h1 @ mid) (Sdk (Exec st)) = None"
  show thesis
    by (rule that [of st ?b "(Sdk (SpawnRPC (spawn_request sid)), True) # mid @
        [(Sdk (Exec st), ?b), (Sdk (TeardownRPC (sr_VmId vm)), _)]"])
      (use Some m in \<open>auto simp: runBenchmarkSync_def spawn_vm_def\<close>)
qed

section \<open>What the handlers do\<close>

lemma sub_write [simp]:
  "resp_status (sub_writeJSON st p fresh_rw) = st"
  "resp_status (sub_writeError st msg fresh_rw) = st"
  "encodable p \<Longrightarrow> rw_body (sub_writeJSON st p fresh_rw) = [BJson p]"
  by (simp_all add: sub_writeJSON_def sub_writeError_def writeJSON_response fresh_rw_def)

lemma run_save:
  "run_state (saveUploadedBinary E sid data) h =
     (let path = upload_path E sid; opened = env_err (host E) h (OpenFile path);
          h1 = h @ [(OpenFile path, opened = None)]; copied = env_err (host E) h1 (WriteFile path data)
      in case opened of Some err \<Rightarrow> (Inl err, h1)
         | None \<Rightarrow> (case copied of Some err \<Rightarrow> Inl err | None \<Rightarrow> Inr path,
             h1 @ [(WriteFile path data, copied = None)]))"
  by (auto simp: saveUploadedBinary_def Let_def split: option.split)

lemma submit_run:
  assumes "handleSubmit E req (jobs, h) fresh_rw = ((jobs', h'), w, p)"
  shows "\<not> p \<and> (\<exists>l. h' = h @ l \<and>
    (let sid = TrimSpace (form_id req); path = upload_path E sid in
     (if resp_status w = 202 then
        sq_method req = ''POST'' \<and> sid \<noteq> '''' \<and> jobs' = apply_stmt (InsertJob sid) jobs \<and>
        rw_body w = [BJson (accepted_json sid)] \<and>
        (\<exists>data b. form_binary req = Some data \<and>
           l = [(OpenFile path, True), (WriteFile path data, True), (Sdk (Exec (InsertJob sid)), True),
                (Remove path, b)])
      else resp_status w \<in> {400, 405, 500} \<and> jobs' = jobs) \<and>
     (\<exists>b. (Remove path, b) \<in> set l) = (\<exists>data. (WriteFile path data, True) \<in> set l)))"
proof -
  let ?sid = "TrimSpace (form_id req)"
  show ?thesis
  proof (cases "sq_method req = ''POST'' \<and> multipart_ok req \<and> ?sid \<noteq> '''' \<and> form_binary req \<noteq> None")
    case False
    with assms show ?thesis
      by (auto simp: handleSubmit_def handler_of_def submit_body_def Let_def split: if_splits option.splits)
  next
    case True
    then obtain data where d: "form_binary req = Some data" by auto
    have j: "encodable (accepted_json ?sid)" by (simp add: accepted_json_def)
    from assms True d j show ?thesis
      by (auto simp: handleSubmit_def handler_of_def submit_body_def Let_def run_save
          split: option.splits if_splits)
  qed
qed

text \<open>
  C16. A submission is queued exactly when it is answered with 202: then its job is
  PENDING with all numbers 0, whatever it was before, and the service has written the
  upload and removed it again in the same request. Every other answer is 400, 405 or 500
  and leaves the table alone. An upload is removed exactly when it was stored completely:
  one that breaks off stays on the disk.
\<close>

theorem submit_outcome:
  assumes "handleSubmit E req (jobs, h) fresh_rw = ((jobs', h'), w, p)"
  shows "\<not> p \<and> (\<exists>l. h' = h @ l \<and>
    (let sid = TrimSpace (form_id req); path = upload_path E sid in
     (if resp_status w = 202 then
        sq_method req = ''POST'' \<and> sid \<noteq> '''' \<and> jobs' = apply_stmt (InsertJob sid) jobs \<and>
        rw_body w = [BJson (accepted_json sid)] \<and>
        (\<exists>data b. form_binary req = Some data \<and>
           l = [(OpenFile path, True), (WriteFile path data, True), (Sdk (Exec (InsertJob sid)), True),
                (Remove path, b)])
      else resp_status w \<in> {400, 405, 500} \<and> jobs' = jobs) \<and>
     (\<exists>b. (Remove path, b) \<in> set l) = (\<exists>data. (WriteFile path data, True) \<in> set l)))"
  by (rule submit_run [OF assms])

text \<open>An API whose every call succeeds, with one upload.\<close>

definition calm_env :: sub_env where
  "calm_env =
     \<lparr>host = quiet_env, temp_dir = ''/tmp'',
      spawn_rpc = (\<lambda>_ req. Inr \<lparr>sr_VmId = ''vm-'' @ SubmissionId req, sr_IpAddress = ''172.16.0.2'',
        sr_Success = True, sr_ErrorMessage = '''', sr_VsockPath = ''/tmp/v''\<rparr>),
      bench_rpc = (\<lambda>_ _. Inr \<lparr>bs_Success = True, bs_SuccessfulAcks = 1, bs_FailedOrders = 0,
        bs_Latencies = Some \<lparr>lp_P50Micros = 300, lp_P90Micros = 300, lp_P99Micros = 300\<rparr>\<rparr>),
      pick = (\<lambda>_. 0), metrics_at = (\<lambda>_. []), poll_cases = (\<lambda>_. [])\<rparr>"

definition demo_submit :: sub_request where
  "demo_submit =
     \<lparr>sq_method = ''POST'', sq_path = ''/submit'', sq_escaped = ''/submit'', multipart_ok = True, form_id = ''a'',
      form_binary = Some ''elf'', query_id = ''''\<rparr>"

lemma trim_a [simp]: "TrimSpace ''a'' = ''a''"
  by (rule TrimSpace_visible) simp_all

lemma demo_submit_run:
  "\<exists>h w. handleSubmit calm_env demo_submit ([], []) fresh_rw =
     ((apply_stmt (InsertJob ''a'') [], h), w, False) \<and> resp_status w = 202"
  by (auto simp: handleSubmit_def handler_of_def submit_body_def run_save calm_env_def demo_submit_def
      quiet_env_def Let_def)

theorem submit_outcome_witness:
  "\<exists>h w b. handleSubmit calm_env demo_submit ([], []) fresh_rw =
     ((apply_stmt (InsertJob ''a'') [], h), w, False) \<and>
     h ! 3 = (Remove (upload_path calm_env ''a''), b)"
proof -
  obtain h w where r: "handleSubmit calm_env demo_submit ([], []) fresh_rw =
      ((apply_stmt (InsertJob ''a'') [], h), w, False)" "resp_status w = 202"
    using demo_submit_run by blast
  with submit_outcome [OF r(1)] have "\<exists>b. h ! 3 = (Remove (upload_path calm_env ''a''), b)"
    by (auto simp: demo_submit_def Let_def)
  with r show ?thesis by blast
qed

section \<open>What a worker does\<close>

lemma run_select:
  "run_state (select_pending E held) (jobs, h) =
     (let sids = filter (\<lambda>sid. sid \<notin> set held) (pending_jobs jobs); c = Sdk SelectPending;
          r = (case env_err (host E) h c of
             Some err \<Rightarrow> Inl err
           | None \<Rightarrow> if sids = [] then Inl (errors_New ''sql: no rows in result set'')
               else Inr (sids ! (pick E h mod length sids)))
      in (r, (jobs, h @ [(c, is_ok r)])))"
  by (simp add: select_pending_def Let_def)

lemma nth_mod_mem: "xs \<noteq> [] \<Longrightarrow> xs ! (n mod length xs) \<in> set xs"
  by simp

lemma select_cases:
  obtains err where "run_state (select_pending E held) (jobs, h) = (Inl err, (jobs, h @ [(Sdk SelectPending, False)]))"
  | sid where "run_state (select_pending E held) (jobs, h) = (Inr sid, (jobs, h @ [(Sdk SelectPending, True)]))"
      "sid \<in> set (pending_jobs jobs)" "sid \<notin> set held"
proof (cases "fst (run_state (select_pending E held) (jobs, h))")
  case (Inl err)
  then show thesis by (intro that(1)) (auto simp: run_select Let_def)
next
  case (Inr sid)
  let ?sids = "filter (\<lambda>sid. sid \<notin> set held) (pending_jobs jobs)"
  from Inr have "sid \<in> set ?sids"
    using nth_mod_mem [of ?sids "pick E h"]
    by (auto simp only: run_select Let_def fst_conv split: option.splits if_splits)
  then have s: "sid \<in> set (pending_jobs jobs)" "sid \<notin> set held" by auto
  show thesis by (rule that(2) [OF _ s]) (use Inr in \<open>auto simp: run_select Let_def\<close>)
qed

text \<open>The status that a decided statement leaves.\<close>

definition status_after :: "string \<Rightarrow> stmt \<Rightarrow> bool \<Rightarrow> bool \<Rightarrow> string" where
  "status_after sid st committed finished =
     (if finished then (if st = SetFailed sid then ''FAILED'' else ''COMPLETED'')
      else if committed then ''RUNNING'' else ''PENDING'')"

lemma map_of_decided:
  assumes "decides sid st"
  shows "k \<noteq> sid \<Longrightarrow> map_of (apply_stmt st jobs) k = map_of jobs k"
    and "map_of jobs sid = Some j \<Longrightarrow>
      \<exists>j'. map_of (apply_stmt st jobs) sid = Some j' \<and>
        job_status j' = (if st = SetFailed sid then ''FAILED'' else ''COMPLETED'')"
  using assms by (auto simp: decides_def completion_def map_of_apply_stmt)

fun vm_rpc :: "sub_call host_call \<times> bool \<Rightarrow> bool" where
  "vm_rpc (Sdk (SpawnRPC _), _) = True"
| "vm_rpc (Sdk (TeardownRPC _), _) = True"
| "vm_rpc _ = False"

text \<open>The calls of a turn that takes up a job, up to the spawn.\<close>

abbreviation taking :: "string \<Rightarrow> bool \<Rightarrow> sub_call history" where
  "taking sid committed \<equiv> [(Sdk BeginTx, True), (Sdk SelectPending, True),
     (Sdk (TxExec (SetRunning sid)), True), (Sdk Commit, committed)]"

lemma process_run:
  obtains l where "run_state (processNextJob E) (jobs, h) = ((), (jobs, h @ l))" "\<not> list_ex vm_rpc l"
  | sid committed st finished l c where "sid \<in> set (pending_jobs jobs)" "decides sid st"
      "run_state (processNextJob E) (jobs, h) =
         ((), (if finished then apply_stmt st (if committed then apply_stmt (SetRunning sid) jobs else jobs)
               else if committed then apply_stmt (SetRunning sid) jobs else jobs,
               h @ taking sid committed @ l @ [(Sdk Rollback, c)]))"
      "case fst (run_state (spawn_vm E sid) (h @ taking sid committed)) of
         None \<Rightarrow> st = SetFailed sid \<and>
           l = [(Sdk (SpawnRPC (spawn_request sid)), False), (Sdk (Exec st), finished)]
       | Some vm \<Rightarrow> \<exists>mid b. list_all measuring mid \<and>
           l = (Sdk (SpawnRPC (spawn_request sid)), True) # mid @
               [(Sdk (Exec st), finished), (Sdk (TeardownRPC (sr_VmId vm)), b)]"
proof (cases "env_err (host E) h (Sdk BeginTx)")
  case (Some err)
  show thesis
    by (rule that(1) [of "[(Sdk BeginTx, False)]"]) (use Some in \<open>simp_all add: processNextJob_def\<close>)
next
  case begun: None
  let ?h1 = "h @ [(Sdk BeginTx, True)]"
  show thesis
  proof (rule select_cases [of E "[]" jobs ?h1])
    fix err
    assume "run_state (select_pending E []) (jobs, ?h1) = (Inl err, (jobs, ?h1 @ [(Sdk SelectPending, False)]))"
    with begun show thesis
      by (intro that(1) [of "[(Sdk BeginTx, True), (Sdk SelectPending, False), (Sdk Rollback, _)]"])
        (auto simp: processNextJob_def)
  next
    fix sid
    assume s: "run_state (select_pending E []) (jobs, ?h1) = (Inr sid, (jobs, ?h1 @ [(Sdk SelectPending, True)]))"
      and p: "sid \<in> set (pending_jobs jobs)"
    let ?h2 = "?h1 @ [(Sdk SelectPending, True)]"
    show thesis
    proof (cases "env_err (host E) ?h2 (Sdk (TxExec (SetRunning sid)))")
      case (Some err)
      with begun s show thesis
        by (intro that(1) [of "[(Sdk BeginTx, True), (Sdk SelectPending, True),
            (Sdk (TxExec (SetRunning sid)), False), (Sdk Rollback, _)]"]) (auto simp: processNextJob_def)
    next
      case None
      let ?h3 = "?h2 @ [(Sdk (TxExec (SetRunning sid)), True)]"
      define committed where "committed \<longleftrightarrow> env_err (host E) ?h3 (Sdk Commit) = None"
      let ?jobs = "if committed then apply_stmt (SetRunning sid) jobs else jobs"
      obtain st l b c where r: "decides sid st"
        "run_state (runBenchmarkSync E sid) (?jobs, h @ taking sid committed) =
           ((), (if b then apply_stmt st ?jobs else ?jobs, (h @ taking sid committed) @ l))"
        "case fst (run_state (spawn_vm E sid) (h @ taking sid committed)) of
           None \<Rightarrow> st = SetFailed sid \<and> l = [(Sdk (SpawnRPC (spawn_request sid)), False), (Sdk (Exec st), b)]
         | Some vm \<Rightarrow> \<exists>mid. list_all measuring mid \<and>
             l = (Sdk (SpawnRPC (spawn_request sid)), True) # mid @
                 [(Sdk (Exec st), b), (Sdk (TeardownRPC (sr_VmId vm)), c)]"
        by (rule run_benchmark_run)
      have t: "snd (run_state (tx_commit E (SetRunning sid)) (jobs, ?h3)) = (?jobs, h @ taking sid committed)"
        by (simp add: committed_def)
      have "run_state (processNextJob E) (jobs, h) =
          ((), (if b then apply_stmt st ?jobs else ?jobs, h @ taking sid committed @ l @ [(Sdk Rollback,
             env_err (host E) (h @ taking sid committed @ l) (Sdk Rollback) = None)]))"
        using begun s None r(2) t by (simp add: processNextJob_def del: run_tx_commit)
      from that(2) [OF p r(1) this] r(3) show thesis by (auto split: option.splits)
    qed
  qed
qed

text \<open>The table after a turn that took the pending job \<open>sid\<close>.\<close>

abbreviation turn_table :: "string \<Rightarrow> stmt \<Rightarrow> bool \<Rightarrow> bool \<Rightarrow> jobs \<Rightarrow> jobs" where
  "turn_table sid st committed finished jobs \<equiv>
     (if finished then apply_stmt st (if committed then apply_stmt (SetRunning sid) jobs else jobs)
      else if committed then apply_stmt (SetRunning sid) jobs else jobs)"

lemma turn_table_jobs:
  assumes "wf_alist jobs" "sid \<in> set (pending_jobs jobs)" "decides sid st"
  shows "wf_alist (turn_table sid st committed finished jobs)"
    and "k \<noteq> sid \<Longrightarrow> map_of (turn_table sid st committed finished jobs) k = map_of jobs k"
    and "\<exists>j'. map_of (turn_table sid st committed finished jobs) sid = Some j' \<and>
      job_status j' = status_after sid st committed finished"
proof -
  let ?jobs = "if committed then apply_stmt (SetRunning sid) jobs else jobs"
  show "wf_alist (turn_table sid st committed finished jobs)" using assms(1) by (simp add: wf_apply_stmt)
  show "map_of (turn_table sid st committed finished jobs) k = map_of jobs k" if "k \<noteq> sid"
    using map_of_decided(1) [OF assms(3) that, of ?jobs] that by (simp add: map_of_apply_stmt)
  from assms(1,2) obtain j where "map_of jobs sid = Some j" "job_status j = ''PENDING''"
    by (auto simp: in_pending_jobs)
  then have "\<exists>j1. map_of ?jobs sid = Some j1 \<and>
      job_status j1 = (if committed then ''RUNNING'' else ''PENDING'')"
    by (cases committed) (simp_all add: map_of_apply_stmt)
  then obtain j1 where j1: "map_of ?jobs sid = Some j1"
      "job_status j1 = (if committed then ''RUNNING'' else ''PENDING'')" by blast
  show "\<exists>j'. map_of (turn_table sid st committed finished jobs) sid = Some j' \<and>
      job_status j' = status_after sid st committed finished"
    using map_of_decided(2) [OF assms(3) j1(1)] j1 by (cases finished) (simp_all add: status_after_def)
qed

text \<open>
  C3. A turn of a worker. Either no RPC is made and the table stays as it is, or the
  worker takes up one pending job and touches no other. If its spawn is refused, the job
  is marked FAILED. If it gets a VM, it measures, writes the outcome, and then asks for
  the teardown of this VM, exactly once, whatever went wrong before. The job is COMPLETED
  or FAILED if the last statement succeeded; if it did not, the job stays RUNNING for
  good, or PENDING when the commit, whose error nobody looks at, had failed.
\<close>

theorem worker_turn:
  assumes "wf_alist jobs" "run_state (processNextJob E) (jobs, h) = (u, (jobs', h'))"
  shows "\<exists>l. h' = h @ l \<and> wf_alist jobs' \<and>
    (\<not> list_ex vm_rpc l \<and> jobs' = jobs \<or>
     (\<exists>sid st committed finished j' rest c.
        sid \<in> set (pending_jobs jobs) \<and> decides sid st \<and>
        l = taking sid committed @ rest @ [(Sdk Rollback, c)] \<and>
        (\<forall>k. k \<noteq> sid \<longrightarrow> map_of jobs' k = map_of jobs k) \<and>
        map_of jobs' sid = Some j' \<and> job_status j' = status_after sid st committed finished \<and>
        (st = SetFailed sid \<and>
           rest = [(Sdk (SpawnRPC (spawn_request sid)), False), (Sdk (Exec st), finished)] \<or>
         (\<exists>vm mid b. spawn_rpc E (h @ taking sid committed) (spawn_request sid) = Inr vm \<and> sr_Success vm \<and>
            list_all measuring mid \<and>
            rest = (Sdk (SpawnRPC (spawn_request sid)), True) # mid @
                   [(Sdk (Exec st), finished), (Sdk (TeardownRPC (sr_VmId vm)), b)]))))"
proof (rule process_run [of E jobs h])
  fix l
  assume "run_state (processNextJob E) (jobs, h) = ((), (jobs, h @ l))" "\<not> list_ex vm_rpc l"
  with assms show ?thesis by auto
next
  fix sid committed st finished l c
  let ?jobs = "if committed then apply_stmt (SetRunning sid) jobs else jobs"
  assume p: "sid \<in> set (pending_jobs jobs)" and d: "decides sid st"
    and r: "run_state (processNextJob E) (jobs, h) =
      ((), (if finished then apply_stmt st ?jobs else ?jobs, h @ taking sid committed @ l @ [(Sdk Rollback, c)]))"
    and s: "case fst (run_state (spawn_vm E sid) (h @ taking sid committed)) of
        None \<Rightarrow> st = SetFailed sid \<and>
          l = [(Sdk (SpawnRPC (spawn_request sid)), False), (Sdk (Exec st), finished)]
      | Some vm \<Rightarrow> \<exists>mid b. list_all measuring mid \<and> l = (Sdk (SpawnRPC (spawn_request sid)), True) # mid @
          [(Sdk (Exec st), finished), (Sdk (TeardownRPC (sr_VmId vm)), b)]"
  let ?left = "turn_table sid st committed finished jobs"
  note t = turn_table_jobs [OF assms(1) p d]
  obtain j' where j': "map_of ?left sid = Some j'"
    "job_status j' = status_after sid st committed finished" using t(3) by blast
  have o: "map_of ?left k = map_of jobs k" if "k \<noteq> sid" for k using t(2) that .
  have wf: "wf_alist ?left" by (rule t(1))
  have "fst (run_state (spawn_vm E sid) (h @ taking sid committed)) = Some vm \<Longrightarrow>
      spawn_rpc E (h @ taking sid committed) (spawn_request sid) = Inr vm \<and> sr_Success vm" for vm
    by (auto simp: spawn_vm_def split: sum.splits if_splits)
  with s have "st = SetFailed sid \<and>
        l = [(Sdk (SpawnRPC (spawn_request sid)), False), (Sdk (Exec st), finished)] \<or>
      (\<exists>vm mid b. spawn_rpc E (h @ taking sid committed) (spawn_request sid) = Inr vm \<and> sr_Success vm \<and>
        list_all measuring mid \<and> l = (Sdk (SpawnRPC (spawn_request sid)), True) # mid @
          [(Sdk (Exec st), finished), (Sdk (TeardownRPC (sr_VmId vm)), b)])"
    by (cases "fst (run_state (spawn_vm E sid) (h @ taking sid committed))") auto
  moreover have e: "jobs' = ?left" "h' = h @ taking sid committed @ l @ [(Sdk Rollback, c)]"
    using assms(2) r by auto
  ultimately have "sid \<in> set (pending_jobs jobs) \<and> decides sid st \<and>
      taking sid committed @ l @ [(Sdk Rollback, c)] = taking sid committed @ l @ [(Sdk Rollback, c)] \<and>
      (\<forall>k. k \<noteq> sid \<longrightarrow> map_of ?left k = map_of jobs k) \<and>
      map_of ?left sid = Some j' \<and> job_status j' = status_after sid st committed finished \<and>
      (st = SetFailed sid \<and> l = [(Sdk (SpawnRPC (spawn_request sid)), False), (Sdk (Exec st), finished)] \<or>
       (\<exists>vm mid b. spawn_rpc E (h @ taking sid committed) (spawn_request sid) = Inr vm \<and> sr_Success vm \<and>
          list_all measuring mid \<and> l = (Sdk (SpawnRPC (spawn_request sid)), True) # mid @
            [(Sdk (Exec st), finished), (Sdk (TeardownRPC (sr_VmId vm)), b)]))"
    using p d j' o by simp
  then show ?thesis
    unfolding e by (intro exI [of _ "taking sid committed @ l @ [(Sdk Rollback, c)]"] conjI refl wf disjI2)
      ((rule exI)+, assumption)
qed

text \<open>The row that the polling loop reads.\<close>

lemma newest_metrics_Some:
  assumes "newest_metrics sid minID tbl = Some r"
  shows "r \<in> set tbl \<and> submission_id_col r = sid \<and> id_col r > minID"
proof -
  let ?rows = "filter (\<lambda>r. submission_id_col r = sid \<and> id_col r > minID) tbl"
  from assms have "r \<in> set (sort_slice (\<lambda>a b. id_col a > id_col b) ?rows)"
    by (auto simp: newest_metrics_def simp del: set_sort_slice split: list.splits)
  then show ?thesis by auto
qed

lemma newest_metrics_stale: "newest_metrics sid (max_metrics_id tbl) tbl = None"
proof -
  have "id_col r \<le> max_metrics_id tbl" if "r \<in> set tbl" for r
    using that by (auto simp: max_metrics_id_def)
  then have "filter (\<lambda>r. submission_id_col r = sid \<and> id_col r > max_metrics_id tbl) tbl = []"
    unfolding filter_empty_conv using linorder_not_less by blast
  then show ?thesis by (simp add: newest_metrics_def sort_slice_def)
qed

lemma poll_loop_reads:
  "fst (run_state (poll_loop E sid minID cases) h) = Inr m \<Longrightarrow>
   \<exists>k r. newest_metrics sid minID (metrics_at E (h @ k)) = Some r \<and> scan_metrics r = Inr m"
proof (induction E sid minID cases arbitrary: h rule: poll_loop.induct)
  case (3 E sid minID cases)
  show ?case
  proof (cases "fst (run_state (query_metrics E sid minID) h)")
    case (Inl err)
    have q: "snd (run_state (query_metrics E sid minID) h) = h @ [(Sdk (SelectMetrics sid minID), False)]"
      using Inl by (simp add: query_metrics_def)
    have "fst (run_state (poll_loop E sid minID cases) (h @ [(Sdk (SelectMetrics sid minID), False)])) = Inr m"
      using "3.prems" Inl q by (simp split: prod.splits)
    from "3.IH" [OF this] show ?thesis by auto
  next
    case (Inr x)
    with "3.prems" have "x = m" by (simp split: prod.splits)
    with Inr obtain r where "newest_metrics sid minID (metrics_at E h) = Some r" "scan_metrics r = Inr m"
      by (auto simp: query_metrics_def split: option.splits)
    then have "newest_metrics sid minID (metrics_at E (h @ [])) = Some r \<and> scan_metrics r = Inr m"
      by simp
    then show ?thesis by blast
  qed
qed simp_all

text \<open>A turn in the calm environment.\<close>

definition calm_vm :: "string \<Rightarrow> SpawnResponse" where
  "calm_vm sid = \<lparr>sr_VmId = ''vm-'' @ sid, sr_IpAddress = ''172.16.0.2'', sr_Success = True,
     sr_ErrorMessage = '''', sr_VsockPath = ''/tmp/v''\<rparr>"

definition calm_bench :: BenchmarkResponse where
  "calm_bench = \<lparr>bs_Success = True, bs_SuccessfulAcks = 1, bs_FailedOrders = 0,
     bs_Latencies = Some \<lparr>lp_P50Micros = 300, lp_P90Micros = 300, lp_P99Micros = 300\<rparr>\<rparr>"

lemma calm_answers:
  "env_err (host calm_env) h c = None" "spawn_rpc calm_env h (spawn_request sid) = Inr (calm_vm sid)"
  "bench_rpc calm_env h r = Inr calm_bench" "poll_cases calm_env h = []" "metrics_at calm_env h = []"
  "sr_Success (calm_vm sid)" "sr_VmId (calm_vm sid) = ''vm-'' @ sid" "bs_Success calm_bench"
  by (simp_all add: calm_env_def calm_vm_def calm_bench_def spawn_request_def quiet_env_def)

lemma calm_measure:
  "run_state (measure_job calm_env sid vm) (jobs, h) =
     (completion sid (fallback_metrics calm_bench),
      (jobs, h @ [(Sdk (StartBenchmark (benchmark_request sid vm)), True), (Sdk SelectMaxId, True)]))"
  by (simp add: measure_job_def start_benchmark_def query_max_id_def pollBenchmarkMetrics_def calm_answers)

lemma calm_turn:
  assumes "pending_jobs jobs = [sid]"
  shows "run_state (processNextJob calm_env) (jobs, h) =
    ((), (apply_stmt (completion sid (fallback_metrics calm_bench)) (apply_stmt (SetRunning sid) jobs),
      h @ taking sid True @ [(Sdk (SpawnRPC (spawn_request sid)), True),
        (Sdk (StartBenchmark (benchmark_request sid (calm_vm sid))), True), (Sdk SelectMaxId, True),
        (Sdk (Exec (completion sid (fallback_metrics calm_bench))), True),
        (Sdk (TeardownRPC (''vm-'' @ sid)), True), (Sdk Rollback, True)]))"
  by (simp add: processNextJob_def run_select assms Let_def runBenchmarkSync_def spawn_vm_def
      calm_answers calm_measure)

theorem worker_turn_witness:
  "\<exists>jobs' h' b c. run_state (processNextJob calm_env) (apply_stmt (InsertJob ''a'') [], []) = ((), (jobs', h')) \<and>
     drop (length h' - 2) h' = [(Sdk (TeardownRPC ''vm-a''), b), (Sdk Rollback, c)]"
proof -
  let ?jobs = "apply_stmt (InsertJob ''a'') []"
  have p: "pending_jobs ?jobs = [''a'']" by (simp add: apply_stmt.simps pending_jobs_def)
  have wf: "wf_alist ?jobs" by (simp add: apply_stmt.simps)
  note r = calm_turn [OF p, of "[]"]
  from worker_turn [OF wf r] show ?thesis
    by (auto simp: r p calm_answers)
qed


text \<open>The run's own metrics, stored in time, are ignored.\<close>

definition early_row :: metric_row where
  "early_row = \<lparr>id_col = 7, submission_id_col = ''a'', p50_col = Some 100, p90_col = Some 100,
     p99_col = Some 100, success_rate_col = Some (Fin 1), total_orders_col = Some 1000,
     timestamp_col = Some 1\<rparr>"


text \<open>With the query for the largest id failing, the row of an earlier run is taken for this one's.\<close>

definition no_max_env :: sub_env where
  "no_max_env = calm_env\<lparr>metrics_at := \<lambda>_. [early_row], poll_cases := \<lambda>_. [Tick],
     host := quiet_env\<lparr>env_err := \<lambda>_ c. if c = Sdk SelectMaxId then Some (errors_New ''timeout'') else None\<rparr>\<rparr>"

lemma stale_numbers:
  "fst (run_state (measure_job no_max_env ''a'' (calm_vm ''a'')) ([], [])) = completion ''a'' (100, 100, Fin 1)"
proof -
  have "newest_metrics ''a'' 0 [early_row] = Some early_row"
    by (simp add: newest_metrics_def early_row_def sort_slice_def)
  moreover have "scan_metrics early_row = Inr (100, 100, Fin 1)" by (simp add: scan_metrics_def early_row_def)
  ultimately show ?thesis
    by (simp add: no_max_env_def measure_job_def start_benchmark_def query_max_id_def pollBenchmarkMetrics_def
        query_metrics_def calm_env_def quiet_env_def)
qed

section \<open>From the upload to the result\<close>

text \<open>Every call succeeds, every VM starts, every benchmark ends well.\<close>

definition healthy :: "sub_env \<Rightarrow> bool" where
  "healthy E \<longleftrightarrow> (\<forall>h c. env_err (host E) h c = None) \<and>
     (\<forall>h req. \<exists>vm. spawn_rpc E h req = Inr vm \<and> sr_Success vm) \<and>
     (\<forall>h req. \<exists>resp. bench_rpc E h req = Inr resp \<and> bs_Success resp)"

lemma healthy_measure:
  assumes "healthy E"
  shows "\<exists>m l. run_state (measure_job E sid vm) (jobs, h) = (completion sid m, (jobs, l))"
proof -
  obtain resp where "bench_rpc E h (benchmark_request sid vm) = Inr resp" "bs_Success resp"
    using assms unfolding healthy_def by blast
  with assms show ?thesis
    by (auto simp: measure_job_def start_benchmark_def query_max_id_def healthy_def
        simp del: split_paired_Ex split: prod.splits)
qed

lemma healthy_turn:
  assumes "healthy E" "pending_jobs jobs = [sid]"
  shows "\<exists>m h'. run_state (processNextJob E) (jobs, h) =
    ((), (apply_stmt (completion sid m) (apply_stmt (SetRunning sid) jobs), h'))"
proof -
  have ok: "env_err (host E) h c = None" for h c using assms(1) by (simp add: healthy_def)
  obtain vm where vm: "spawn_rpc E (h @ taking sid True) (spawn_request sid) = Inr vm" "sr_Success vm"
    using assms(1) unfolding healthy_def by blast
  obtain m l where "run_state (measure_job E sid vm) (apply_stmt (SetRunning sid) jobs,
      h @ taking sid True @ [(Sdk (SpawnRPC (spawn_request sid)), True)]) =
        (completion sid m, (apply_stmt (SetRunning sid) jobs, l))"
    using healthy_measure [OF assms(1)] by blast
  with vm assms(2) show ?thesis
    by (intro exI [of _ m]) (simp add: processNextJob_def ok run_select Let_def runBenchmarkSync_def spawn_vm_def)
qed

lemma pending_insert:
  "pending_jobs jobs = [] \<Longrightarrow> pending_jobs (apply_stmt (InsertJob sid) jobs) = [sid]"
  unfolding apply_stmt.simps pending_jobs_def by (induction jobs) (auto split: if_splits)


definition demo_status :: sub_request where
  "demo_status =
     \<lparr>sq_method = ''GET'', sq_path = ''/status'', sq_escaped = ''/status'', multipart_ok = False, form_id = '''',
      form_binary = None, query_id = ''a''\<rparr>"


end
