(* ===== verification/Platform.thy ===== *)
theory Platform
  imports Pipeline Submission
begin

text \<open>
  The three services that share the results: the ingester stores them, a worker of the
  submission API scores its job by them, the leaderboard ranks by them.
\<close>

interpretation newest_first: weak_order "\<lambda>a b. id_col a > id_col (b :: metric_row)" "\<lambda>_. True"
  by unfold_locales auto

text \<open>The row that the polling loop takes is the one the leaderboard ranks by.\<close>

lemma newest_is_latest:
  assumes "newest_metrics sid minID tbl = Some r"
  shows "latest_run tbl r \<and> submission_id_col r = sid"
proof -
  let ?rows = "filter (\<lambda>r. submission_id_col r = sid \<and> id_col r > minID) tbl"
  let ?less = "\<lambda>a b. id_col a > id_col (b :: metric_row)"
  note r = newest_metrics_Some [OF assms]
  obtain rest where rest: "sort_slice ?less ?rows = r # rest"
    using assms by (auto simp: newest_metrics_def split: list.splits)
  have sorted: "sorted_wrt (\<lambda>a b. \<not> ?less b a) (r # rest)"
    unfolding rest [symmetric] by (rule newest_first.sort_slice_sorted) simp
  have "id_col r' \<le> id_col r" if "r' \<in> set tbl" "submission_id_col r' = sid" for r'
  proof (cases "id_col r' > minID")
    case True
    with that have "r' \<in> set (r # rest)" unfolding rest [symmetric] by simp
    with sorted show ?thesis by auto
  next
    case False
    with r show ?thesis by simp
  qed
  with r show ?thesis by (simp add: latest_run_def)
qed

lemma last_result_append:
  "sid \<notin> result_ids qs \<Longrightarrow> last_result (ps @ qs) sid = last_result ps sid"
proof -
  assume "sid \<notin> result_ids qs"
  then have "filter (\<lambda>p. TelemetryPayload.SubmissionID p = sid) qs = []"
    by (auto simp: result_ids_def filter_empty_conv)
  then show ?thesis by (simp add: last_result_def)
qed

lemma scan_stored:
  "scan_metrics (stored_row i p) =
     Inr (TelemetryPayload.P50Micros p, TelemetryPayload.P99Micros p, TelemetryPayload.SuccessRate p)"
  by (simp add: scan_metrics_def stored_row_def)




end
