(* ===== verification/Quota.thy ===== *)
theory Quota
  imports Go_OS Go_Path "HOL-Library.Word"
begin

text \<open>
  \<open>sandbox/quota.go\<close>: cgroup limits for a sandbox. The numbers are \<open>int64\<close>, so the
  conversion of MiB to bytes wraps around at \<open>2^63\<close>; the theorems say where it is exact
  and what is written beyond.
\<close>

record SandboxLimits =
  VMID :: string
  MemoryMaxMiB :: int
  VCPUCount :: int

definition cgroupRoot :: string where "cgroupRoot = ''/sys/fs/cgroup/sandbox''"
definition cpuPeriodMicros :: int where "cpuPeriodMicros = 100000"
definition maxVCPUCount :: int where "maxVCPUCount = 64"
definition minMemoryMiB :: int where "minMemoryMiB = 16"

text \<open>The result of an \<open>int64\<close> operation.\<close>

definition int64 :: "int \<Rightarrow> int" where
  "int64 x = sint (word_of_int x :: 64 word)"

definition validateSandboxLimits :: "SandboxLimits \<Rightarrow> gerr option" where
  "validateSandboxLimits cfg =
     (if TrimSpace (VMID cfg) = '''' then Some (errors_New ''vm_id is required'')
      else if MemoryMaxMiB cfg < minMemoryMiB
        then Some (errors_New (''memory_mib must be at least '' @ Itoa minMemoryMiB))
      else if VCPUCount cfg \<le> 0 then Some (errors_New ''vcpu_count must be greater than 0'')
      else if VCPUCount cfg > maxVCPUCount
        then Some (errors_New (''vcpu_count exceeds maximum allowed: '' @ Itoa maxVCPUCount))
      else None)"

definition writeCgroupValue :: "'x env \<Rightarrow> string \<Rightarrow> string \<Rightarrow> ('x, gerr option) io" where
  "writeCgroupValue E path value =
     if_err (call_err E (WriteFile path value))
       (\<lambda>err. fails (errors_New
          (''failed writing cgroup value path='' @ path @ '' value='' @ value @ '' err='' @ err_msg err)))
       (ret None)"

definition EnforceSandboxLimits :: "'x env \<Rightarrow> SandboxLimits \<Rightarrow> ('x, gerr option) io" where
  "EnforceSandboxLimits E cfg =
     (case validateSandboxLimits cfg of
        Some err \<Rightarrow> fails err
      | None \<Rightarrow>
          let cgroupPath = path_Join [cgroupRoot, VMID cfg];
              memLimitBytes = int64 (int64 (MemoryMaxMiB cfg * 1024) * 1024);
              cpuQuota = int64 (VCPUCount cfg * cpuPeriodMicros);
              cpuMaxValue = Itoa cpuQuota @ '' '' @ Itoa cpuPeriodMicros
          in if_err (call_err E (MkdirAll cgroupPath))
               (\<lambda>err. fails (wrap_err (''failed creating cgroup directory '' @ cgroupPath) err))
             (if_err (writeCgroupValue E (path_Join [cgroupPath, ''memory.max'']) (Itoa memLimitBytes))
               (\<lambda>err. fails (wrap_err ''failed configuring memory.max'' err))
             (if_err (writeCgroupValue E (path_Join [cgroupPath, ''memory.swap.max'']) ''0'')
               (\<lambda>err. fails (wrap_err ''failed configuring memory.swap.max'' err))
             (if_err (writeCgroupValue E (path_Join [cgroupPath, ''cpu.max'']) cpuMaxValue)
               (\<lambda>err. fails (wrap_err ''failed configuring cpu.max'' err))
             (ret None)))))"

definition AttachProcessToSandbox :: "'x env \<Rightarrow> string \<Rightarrow> int \<Rightarrow> ('x, gerr option) io" where
  "AttachProcessToSandbox E vmID pid =
     (if TrimSpace vmID = '''' then fails (errors_New ''vm_id is required'')
      else if pid \<le> 0 then fails (errors_New ''invalid pid'')
      else
        let procsFile = path_Join [path_Join [cgroupRoot, vmID], ''cgroup.procs'']
        in if_err (writeCgroupValue E procsFile (Itoa pid))
             (\<lambda>err. fails (wrap_err (''failed attaching process pid='' @ Itoa pid @ '' to cgroup'') err))
             (ret None))"

definition CleanupSandboxLimits :: "'x env \<Rightarrow> string \<Rightarrow> ('x, gerr option) io" where
  "CleanupSandboxLimits E vmID =
     (if TrimSpace vmID = '''' then ret None
      else
        let cgroupPath = path_Join [cgroupRoot, vmID]
        in with_val (call_bool E (Stat cgroupPath))
             (\<lambda>err. if is_not_exist err then ret None
                    else fails (wrap_err ''failed checking cgroup existence'' err))
             (\<lambda>_. if_err (call_err E (Remove cgroupPath))
               (\<lambda>err. fails (wrap_err (''failed removing cgroup '' @ cgroupPath) err))
               (ret None)))"

section \<open>The limits written\<close>

lemma int64_exact: "- (2 ^ 63) \<le> x \<Longrightarrow> x < 2 ^ 63 \<Longrightarrow> int64 x = x"
  unfolding int64_def by (simp add: int_word_sint)

lemma int64_range: "- (2 ^ 63) \<le> int64 x \<and> int64 x < 2 ^ 63"
  unfolding int64_def
  using sint_greater_eq [of "word_of_int x :: 64 word"] sint_less [of "word_of_int x :: 64 word"] by simp

lemma int64_mult: "int64 (int64 x * y) = int64 (x * y)"
proof -
  have e: "int64 z = (z + 2 ^ 63) mod 2 ^ 64 - 2 ^ 63" for z by (simp add: int64_def int_word_sint)
  have "int64 x mod 2 ^ 64 = x mod 2 ^ 64" unfolding e by (simp add: mod_diff_left_eq)
  then have "(int64 x * y) mod 2 ^ 64 = (x * y) mod 2 ^ 64" by (metis mod_mult_left_eq)
  then show ?thesis unfolding e [of "int64 x * y"] e [of "x * y"] by (metis mod_add_left_eq)
qed

definition sandbox_dir :: "string \<Rightarrow> string list" where
  "sandbox_dir vmID = [''sys'', ''fs'', ''cgroup'', ''sandbox'', vmID]"

lemma sandbox_paths:
  assumes "plain vmID" "plain name"
  shows "path_Join [cgroupRoot, vmID] = abs_path (sandbox_dir vmID)"
    and "path_Join [abs_path (sandbox_dir vmID), name] = abs_path (sandbox_dir vmID @ [name])"
proof -
  have r: "cgroupRoot = abs_path [''sys'', ''fs'', ''cgroup'', ''sandbox'']"
    by (simp add: cgroupRoot_def abs_path_def)
  show "path_Join [cgroupRoot, vmID] = abs_path (sandbox_dir vmID)"
    unfolding r by (subst Join_plain) (use assms in \<open>auto simp: plain_def sandbox_dir_def\<close>)
  show "path_Join [abs_path (sandbox_dir vmID), name] = abs_path (sandbox_dir vmID @ [name])"
    by (subst Join_plain) (use assms in \<open>auto simp: plain_def sandbox_dir_def\<close>)
qed

text \<open>What an accepted configuration writes when the host does not fail.\<close>

definition quota_calls :: "SandboxLimits \<Rightarrow> int \<Rightarrow> ('x host_call \<times> bool) list" where
  "quota_calls cfg bytes =
     (let file = (\<lambda>n. abs_path (sandbox_dir (VMID cfg) @ [n]))
      in [(MkdirAll (abs_path (sandbox_dir (VMID cfg))), True),
          (WriteFile (file ''memory.max'') (Itoa bytes), True),
          (WriteFile (file ''memory.swap.max'') ''0'', True),
          (WriteFile (file ''cpu.max'') (Itoa (VCPUCount cfg * 100000) @ '' 100000''), True)])"

lemma enforce_run:
  assumes "plain (VMID cfg)" "fst (run_state (EnforceSandboxLimits E cfg) h) = None"
  shows "snd (run_state (EnforceSandboxLimits E cfg) h) = h @ quota_calls cfg (int64 (MemoryMaxMiB cfg * 1048576))
    \<and> 16 \<le> MemoryMaxMiB cfg \<and> 0 < VCPUCount cfg \<and> VCPUCount cfg \<le> 64"
proof -
  have v: "validateSandboxLimits cfg = None"
    using assms(2) by (auto simp: EnforceSandboxLimits_def split: option.splits)
  then have lim: "16 \<le> MemoryMaxMiB cfg" "0 < VCPUCount cfg" "VCPUCount cfg \<le> 64"
    by (auto simp: validateSandboxLimits_def minMemoryMiB_def maxVCPUCount_def split: if_splits)
  have q: "int64 (VCPUCount cfg * 100000) = VCPUCount cfg * 100000"
    using lim by (subst int64_exact) auto
  have m: "int64 (int64 (MemoryMaxMiB cfg * 1024) * 1024) = int64 (MemoryMaxMiB cfg * 1048576)"
    by (simp add: int64_mult mult.assoc)
  have p: "path_Join [cgroupRoot, VMID cfg] = abs_path (sandbox_dir (VMID cfg))"
    by (rule sandbox_paths(1) [OF assms(1), of "''x''"]) (simp add: plain_def)
  have n: "plain ''memory.max''" "plain ''memory.swap.max''" "plain ''cpu.max''" by (simp_all add: plain_def)
  have c: "Itoa 100000 = ''100000''" by (simp add: Itoa_def nat_digits.simps digit_char_def)
  show ?thesis
    using assms(2) lim
    by (auto simp: EnforceSandboxLimits_def v p sandbox_paths(2) [OF assms(1) n(1)]
        sandbox_paths(2) [OF assms(1) n(2)] sandbox_paths(2) [OF assms(1) n(3)] writeCgroupValue_def
        q m c cpuPeriodMicros_def quota_calls_def Let_def split: option.splits)
qed

text \<open>
  C29. When \<open>EnforceSandboxLimits\<close> succeeds for a VM id without slashes, it has made the
  cgroup directory of that VM and written its three limits, in this order and nothing
  else. The memory limit is the configured one exactly below 2^43 MiB; from there on the
  bytes overflow and another number is written.
\<close>

theorem limits_written:
  assumes "plain (VMID cfg)" "fst (run_state (EnforceSandboxLimits E cfg) h) = None"
  shows "\<exists>bytes. snd (run_state (EnforceSandboxLimits E cfg) h) = h @ quota_calls cfg bytes \<and>
    (bytes = MemoryMaxMiB cfg * 1048576 \<longleftrightarrow> MemoryMaxMiB cfg < 2 ^ 43) \<and>
    16 \<le> MemoryMaxMiB cfg \<and> 0 < VCPUCount cfg \<and> VCPUCount cfg \<le> 64"
proof -
  note r = enforce_run [OF assms]
  have "int64 (MemoryMaxMiB cfg * 1048576) = MemoryMaxMiB cfg * 1048576 \<longleftrightarrow> MemoryMaxMiB cfg < 2 ^ 43"
    using int64_exact [of "MemoryMaxMiB cfg * 1048576"] int64_range [of "MemoryMaxMiB cfg * 1048576"] r by auto
  with r show ?thesis by blast
qed

definition demo_limits :: "int \<Rightarrow> SandboxLimits" where
  "demo_limits m = \<lparr>VMID = ''vm1'', MemoryMaxMiB = m, VCPUCount = 2\<rparr>"

theorem limits_written_witness:
  "\<exists>bytes. snd (run_state (EnforceSandboxLimits quiet_env (demo_limits (2 ^ 44))) ([] :: unit history))
      = quota_calls (demo_limits (2 ^ 44)) bytes \<and> bytes \<noteq> 2 ^ 64"
proof -
  have "TrimSpace ''vm1'' = ''vm1''" by (simp add: TrimSpace_visible)
  then have "fst (run_state (EnforceSandboxLimits quiet_env (demo_limits (2 ^ 44))) ([] :: unit history)) = None"
    by (simp add: EnforceSandboxLimits_def validateSandboxLimits_def demo_limits_def minMemoryMiB_def
        maxVCPUCount_def writeCgroupValue_def quiet_env_def Let_def)
  from limits_written [OF _ this] show ?thesis by (simp add: demo_limits_def plain_def)
qed

end
