(* ===== verification/Network.thy ===== *)
theory Network
  imports Go_OS Go_Strings
begin

text \<open>
  \<open>services/sandbox-orchestrator/network.go\<close>: the TAP interface of a VM. The commands
  \<open>ip\<close> and \<open>tc\<close> are host calls. Which interfaces exist after a history is a parameter
  \<open>W\<close> of the model, tied to the host by \<open>ip_world\<close>: \<open>net.Interfaces\<close> lists what is there,
  a successful \<open>ip\<close> command has done its work, and a command that reports an error (the
  kill at the five seconds of \<open>networkCommandTimeout\<close> included) may or may not have done
  it. Theorems without that hypothesis hold whatever the commands do.
\<close>

record TAPConfig =
  TAPName :: string
  BridgeName :: string

text \<open>The verb \<open>%v\<close> on a string slice.\<close>

definition fmt_args :: "string list \<Rightarrow> string" where
  "fmt_args args = ''['' @ join_with '' '' args @ '']''"

definition runCommand :: "'x env \<Rightarrow> ctx \<Rightarrow> string \<Rightarrow> string list \<Rightarrow> ('x, gerr option) io" where
  "runCommand E c name args =
     State_Monad.bind (call_cmd E c name args) (\<lambda>(output, err).
       case err of
         None \<Rightarrow> ret None
       | Some e \<Rightarrow> fails (errors_New (''command failed cmd='' @ name @ '' args='' @ fmt_args args @
                          '' output='' @ output @ '' err='' @ err_msg e)))"

definition interfaceExists :: "'x env \<Rightarrow> string \<Rightarrow> ('x, bool result) io" where
  "interfaceExists E name =
     with_val (call_names E Interfaces) (\<lambda>err. ret (Inl err)) (\<lambda>interfaces. ret (Inr (name \<in> set interfaces)))"

definition validateTAPConfig :: "TAPConfig \<Rightarrow> gerr option" where
  "validateTAPConfig cfg =
     (if TrimSpace (TAPName cfg) = '''' then Some (errors_New ''tap_name is required'')
      else if TrimSpace (BridgeName cfg) = '''' then Some (errors_New ''bridge_name is required'')
      else None)"

abbreviation add_args :: "string \<Rightarrow> string list" where
  "add_args tap \<equiv> [''tuntap'', ''add'', ''dev'', tap, ''mode'', ''tap'']"
abbreviation master_args :: "string \<Rightarrow> string \<Rightarrow> string list" where
  "master_args tap bridge \<equiv> [''link'', ''set'', tap, ''master'', bridge]"
abbreviation up_args :: "string \<Rightarrow> string list" where
  "up_args tap \<equiv> [''link'', ''set'', tap, ''up'']"
abbreviation delete_args :: "string \<Rightarrow> string list" where
  "delete_args tap \<equiv> [''link'', ''delete'', tap]"
abbreviation egress_args :: "string \<Rightarrow> string list" where
  "egress_args tap \<equiv> [''qdisc'', ''add'', ''dev'', tap, ''root'', ''tbf'', ''rate'', ''100mbit'', ''burst'', ''32kbit'',
     ''latency'', ''400ms'']"
abbreviation ingress_args :: "string \<Rightarrow> string list" where
  "ingress_args tap \<equiv> [''qdisc'', ''add'', ''dev'', tap, ''handle'', ''ffff:'', ''ingress'']"
abbreviation police_args :: "string \<Rightarrow> string list" where
  "police_args tap \<equiv> [''filter'', ''add'', ''dev'', tap, ''parent'', ''ffff:'', ''protocol'', ''all'', ''u32'', ''match'',
     ''u32'', ''0'', ''0'', ''police'', ''rate'', ''100mbit'', ''burst'', ''32kbit'', ''drop'', ''flowid'', '':1'']"

definition CleanupTapInterface :: "'x env \<Rightarrow> ctx \<Rightarrow> string \<Rightarrow> ('x, gerr option) io" where
  "CleanupTapInterface E parentCtx tapName =
     (if tapName = '''' then fails (errors_New ''tap_name is required'')
      else with_val (interfaceExists E tapName)
        (\<lambda>err. fails (wrap_err (''failed checking tap existence '' @ tapName) err))
        (\<lambda>exists. if \<not> exists then ret None
          else if_err (runCommand E (Timeout parentCtx) ''ip'' (delete_args tapName))
            (\<lambda>err. fails (wrap_err (''failed deleting tap interface '' @ tapName) err))
            (ret None)))"

definition SetupTapInterface :: "'x env \<Rightarrow> ctx \<Rightarrow> TAPConfig \<Rightarrow> ('x, gerr option) io" where
  "SetupTapInterface E parentCtx cfg =
     (case validateTAPConfig cfg of
        Some err \<Rightarrow> fails err
      | None \<Rightarrow>
        let tap = TAPName cfg; bridge = BridgeName cfg; c = Timeout parentCtx
        in with_val (interfaceExists E tap)
          (\<lambda>err. fails (wrap_err (''failed checking existing interface '' @ tap) err))
          (\<lambda>exists.
            if exists then fails (errors_New (''tap interface already exists: '' @ tap))
            else
              if_err (runCommand E c ''ip'' (add_args tap))
                (\<lambda>err. fails (wrap_err (''failed creating tap interface '' @ tap) err))
             (if_err (runCommand E c ''ip'' (master_args tap bridge))
                (\<lambda>err. and_then (CleanupTapInterface E Background tap)
                  (fails (wrap_err (''failed attaching tap '' @ tap @ '' to bridge '' @ bridge) err)))
             (if_err (runCommand E c ''ip'' (up_args tap))
                (\<lambda>err. and_then (CleanupTapInterface E Background tap)
                  (fails (wrap_err (''failed bringing tap interface up '' @ tap) err)))
             (and_then (runCommand E c ''tc'' (egress_args tap))
             (if_err (runCommand E c ''tc'' (ingress_args tap))
                (\<lambda>err. ret None)
                (and_then (runCommand E c ''tc'' (police_args tap)) (ret None))))))))"

text \<open>\<open>net.ParseIP\<close> on a string without colons: four decimal fields without leading zeros.\<close>

definition ipv4_field :: "string \<Rightarrow> nat option" where
  "ipv4_field f =
     (case read_digits 0 f of (n, rest) \<Rightarrow>
        if f \<noteq> [] \<and> rest = [] \<and> n \<le> 255 \<and> (length f > 1 \<longrightarrow> hd f \<noteq> CHR ''0'') then Some n else None)"

definition ParseIPv4 :: "string \<Rightarrow> nat list option" where
  "ParseIPv4 s =
     (let fs = map ipv4_field (split_on CHR ''.'' s)
      in if length fs = 4 \<and> None \<notin> set fs then Some (map the fs) else None)"

definition GenerateIPFromIndex :: "int \<Rightarrow> string result" where
  "GenerateIPFromIndex index =
     (if index \<le> 0 then Inl (errors_New ''index must be greater than 0'')
      else if index > 254 then Inl (errors_New ''index exceeds available subnet range'')
      else let ip = ''172.16.0.'' @ Itoa index
           in if ParseIPv4 ip = None then Inl (errors_New (''generated invalid ip address: '' @ ip))
              else Inr ip)"

section \<open>Interfaces\<close>

text \<open>
  How a call may change whether an interface exists, from \<open>b\<close> to \<open>b'\<close>: an \<open>ip tuntap add\<close>
  that failed may still have created it, an \<open>ip link delete\<close> that failed may still have
  deleted it, and nothing else touches it.
\<close>

fun tap_effect :: "string \<Rightarrow> 'x host_call \<times> bool \<Rightarrow> bool \<Rightarrow> bool \<Rightarrow> bool" where
  "tap_effect tap (Command c name args, ok) b b' =
     (if name = ''ip'' \<and> args = add_args tap then (if ok then b' else b \<longrightarrow> b')
      else if name = ''ip'' \<and> args = delete_args tap then (if ok then \<not> b' else b' \<longrightarrow> b)
      else b' = b)"
| "tap_effect tap e b b' = (b' = b)"

fun tap_path :: "string \<Rightarrow> 'x history \<Rightarrow> bool \<Rightarrow> bool \<Rightarrow> bool" where
  "tap_path tap [] b b' = (b' = b)"
| "tap_path tap (e # l) b b' = (\<exists>m. tap_effect tap e b m \<and> tap_path tap l m b')"

definition ip_world :: "('x history \<Rightarrow> string \<Rightarrow> bool) \<Rightarrow> 'x env \<Rightarrow> bool" where
  "ip_world W E \<longleftrightarrow>
     (\<forall>h e tap. tap_effect tap e (W h tap) (W (h @ [e]) tap)) \<and>
     (\<forall>h names tap. env_names E h Interfaces = Inr names \<longrightarrow> (tap \<in> set names \<longleftrightarrow> W h tap))"

text \<open>A listing or a deletion that failed.\<close>

fun cleanup_trouble :: "string \<Rightarrow> 'x host_call \<times> bool \<Rightarrow> bool" where
  "cleanup_trouble tap (c, ok) \<longleftrightarrow> \<not> ok \<and> (c = Interfaces \<or> (\<exists>x. c = Command x ''ip'' (delete_args tap)))"

lemma world_path: "ip_world W E \<Longrightarrow> tap_path tap l (W h tap) (W (h @ l) tap)"
proof (induction l arbitrary: h)
  case (Cons e l)
  have "tap_effect tap e (W h tap) (W (h @ [e]) tap)" using Cons.prems unfolding ip_world_def by blast
  moreover have "tap_path tap l (W (h @ [e]) tap) (W ((h @ [e]) @ l) tap)" by (rule Cons.IH [OF Cons.prems])
  ultimately show ?case by auto
qed simp

lemma world_lists: "ip_world W E \<Longrightarrow> env_names E h Interfaces = Inr names \<Longrightarrow> tap \<in> set names \<longleftrightarrow> W h tap"
  by (simp add: ip_world_def)

lemma tap_effect_other:
  assumes "\<forall>x ok. e \<noteq> (Command x ''ip'' (add_args t), ok) \<and> e \<noteq> (Command x ''ip'' (delete_args t), ok)"
  shows "tap_effect t e b b' = (b' = b)"
proof (cases "\<exists>x n args ok. e = (Command x n args, ok)")
  case True
  then obtain x n args ok where e: "e = (Command x n args, ok)" by blast
  have "\<not> (n = ''ip'' \<and> args = add_args t)" "\<not> (n = ''ip'' \<and> args = delete_args t)"
    using assms unfolding e by blast+
  then show ?thesis unfolding e tap_effect.simps by (simp only: if_False)
next
  case False
  then show ?thesis by (cases "(t, e, b, b')" rule: tap_effect.cases) auto
qed

lemma tap_path_other:
  "\<forall>x ok. (Command x ''ip'' (add_args t), ok) \<notin> set l \<and> (Command x ''ip'' (delete_args t), ok) \<notin> set l \<Longrightarrow>
   tap_path t l b b' = (b' = b)"
proof (induction l arbitrary: b)
  case (Cons e l)
  have "tap_effect t e b m = (m = b)" for m
    by (rule tap_effect_other) (use Cons.prems in fastforce)
  moreover have "tap_path t l b b' = (b' = b)" by (rule Cons.IH) (use Cons.prems in simp)
  ultimately show ?case by simp
qed simp

lemma world_same:
  assumes "ip_world W E"
    "\<forall>x ok. (Command x ''ip'' (add_args t), ok) \<notin> set l \<and> (Command x ''ip'' (delete_args t), ok) \<notin> set l"
  shows "W (h @ l) t = W h t"
  using world_path [OF assms(1), of t l h] tap_path_other [OF assms(2)] by simp

text \<open>The calls of a trace concern the interface \<open>tap\<close> only.\<close>

definition about_tap :: "string \<Rightarrow> 'x history \<Rightarrow> bool" where
  "about_tap tap l \<longleftrightarrow> (\<forall>t x ok. (Command x ''ip'' (add_args t), ok) \<in> set l \<or>
     (Command x ''ip'' (delete_args t), ok) \<in> set l \<longrightarrow> t = tap)"

lemma about_tap_simps [simp]:
  "about_tap tap []"
  "about_tap tap (e # l) \<longleftrightarrow> about_tap tap [e] \<and> about_tap tap l"
  "about_tap tap (l @ k) \<longleftrightarrow> about_tap tap l \<and> about_tap tap k"
  by (auto simp: about_tap_def)

interpretation own_tap: trace_law "about_tap tap" for tap
  by unfold_locales simp_all

lemma about_tap_call:
  "about_tap tap [(Interfaces, ok)]"
  "name \<noteq> ''ip'' \<Longrightarrow> about_tap tap [(Command x name args, ok)]"
  "about_tap tap [(Command x ''ip'' (add_args tap), ok)]"
  "about_tap tap [(Command x ''ip'' (delete_args tap), ok)]"
  "about_tap tap [(Command x ''ip'' (master_args t b), ok)]"
  "about_tap tap [(Command x ''ip'' (up_args t), ok)]"
  by (auto simp: about_tap_def)

lemma world_others: "ip_world W E \<Longrightarrow> about_tap tap l \<Longrightarrow> t \<noteq> tap \<Longrightarrow> W (h @ l) t = W h t"
  by (rule world_same) (auto simp: about_tap_def)

lemma runCommand_adds: "(\<And>ok. Q [(Command c name args, ok)]) \<Longrightarrow> trace_law Q \<Longrightarrow> adds Q (runCommand E c name args)"
  unfolding runCommand_def
  by (rule trace_law.adds_bind, assumption, rule adds_call) (auto intro!: trace_law.adds_ret split: option.split)

lemma cleanup_about: "adds (about_tap tap) (CleanupTapInterface E c tap)"
  unfolding CleanupTapInterface_def interfaceExists_def
  by (intro own_tap.intros runCommand_adds own_tap.trace_law_axioms about_tap_call)

lemma setup_about: "adds (about_tap (TAPName cfg)) (SetupTapInterface E c cfg)"
  unfolding SetupTapInterface_def Let_def interfaceExists_def
  by (intro own_tap.intros runCommand_adds own_tap.trace_law_axioms about_tap_call cleanup_about) auto

lemma run_runCommand [simp]:
  "snd (run_state (runCommand E c name args) h)
    = h @ [(Command c name args, snd (env_cmd E h (Command c name args)) = None)]"
  "fst (run_state (runCommand E c name args) h) = None \<longleftrightarrow> snd (env_cmd E h (Command c name args)) = None"
  by (auto simp: runCommand_def split: prod.splits option.splits)

lemma runCommand_cases:
  obtains "snd (env_cmd E h (Command c name args)) = None"
    "run_state (runCommand E c name args) h = (None, h @ [(Command c name args, True)])"
  | err where "snd (env_cmd E h (Command c name args)) \<noteq> None"
    "run_state (runCommand E c name args) h = (Some err, h @ [(Command c name args, False)])"
  using run_runCommand [of E c name args h]
  by (cases "run_state (runCommand E c name args) h"; cases "fst (run_state (runCommand E c name args) h)") auto

lemma interfaceExists_cases:
  obtains names where "env_names E h Interfaces = Inr names"
    "run_state (interfaceExists E tap) h = (Inr (tap \<in> set names), h @ [(Interfaces, True)])"
  | err where "run_state (interfaceExists E tap) h = (Inl err, h @ [(Interfaces, False)])"
  by (cases "env_names E h Interfaces") (auto simp: interfaceExists_def)

text \<open>After a cleanup the interface is gone, unless the listing or the deletion failed.\<close>

lemma cleanup_restores:
  assumes tap: "tap \<noteq> ''''" and W: "ip_world W E"
  shows "\<exists>l. snd (run_state (CleanupTapInterface E c tap) h) = h @ l \<and>
    (\<not> W (h @ l) tap \<or> (\<exists>e \<in> set l. cleanup_trouble tap e))"
proof (cases rule: interfaceExists_cases [of E h tap])
  case (1 names)
  let ?h1 = "h @ [(Interfaces, True)]"
  have same: "W ?h1 tap = W h tap" by (rule world_same [OF W]) simp
  show ?thesis
  proof (cases "tap \<in> set names")
    case True
    show ?thesis
    proof (cases rule: runCommand_cases [of E ?h1 "Timeout c" "''ip''" "delete_args tap"])
      case del: 1
      let ?e = "(Command (Timeout c) ''ip'' (delete_args tap), True)"
      have "\<not> W (?h1 @ [?e]) tap" using world_path [OF W, of tap "[?e]" ?h1] by simp
      with tap 1 True del show ?thesis
        by (intro exI [of _ "[(Interfaces, True), ?e]"]) (auto simp: CleanupTapInterface_def)
    next
      case (2 err)
      with tap 1 True show ?thesis
        by (intro exI [of _ "[(Interfaces, True), (Command (Timeout c) ''ip'' (delete_args tap), False)]"])
          (auto simp: CleanupTapInterface_def)
    qed
  next
    case False
    with 1 tap same world_lists [OF W 1(1), of tap] show ?thesis
      by (intro exI [of _ "[(Interfaces, True)]"]) (auto simp: CleanupTapInterface_def)
  qed
next
  case (2 err)
  with tap show ?thesis
    by (intro exI [of _ "[(Interfaces, False)]"]) (auto simp: CleanupTapInterface_def)
qed

text \<open>
  What a setup leaves: a wired new TAP, or after an error the TAP as before, but for a
  cleanup that did not work, and for an \<open>ip tuntap add\<close> that reported an error, after
  which the code does not look for the interface.
\<close>

definition tap_wired :: "string \<Rightarrow> string \<Rightarrow> ('x host_call \<times> bool) list \<Rightarrow> bool" where
  "tap_wired tap bridge l \<longleftrightarrow>
     (\<exists>x. (Command x ''ip'' (add_args tap), True) \<in> set l \<and>
        (Command x ''ip'' (master_args tap bridge), True) \<in> set l \<and> (Command x ''ip'' (up_args tap), True) \<in> set l)"

definition add_failed :: "string \<Rightarrow> 'x history \<Rightarrow> bool" where
  "add_failed tap l \<longleftrightarrow> (\<exists>x. l = [(Interfaces, True), (Command x ''ip'' (add_args tap), False)])"

definition tap_outcome ::
  "('x history \<Rightarrow> string \<Rightarrow> bool) \<Rightarrow> TAPConfig \<Rightarrow> 'x history \<Rightarrow> gerr option \<Rightarrow> 'x history \<Rightarrow> bool" where
  "tap_outcome W cfg h r l \<longleftrightarrow>
     (let tap = TAPName cfg
      in (r = None \<longrightarrow> \<not> W h tap \<and> W (h @ l) tap \<and> tap_wired tap (BridgeName cfg) l) \<and>
         (r \<noteq> None \<longrightarrow> W (h @ l) tap = W h tap \<or> (\<exists>e \<in> set l. cleanup_trouble tap e) \<or>
            \<not> W h tap \<and> add_failed tap l))"

lemma setup_failed:
  assumes "tap \<noteq> ''''" "ip_world W E" "tap = TAPName cfg" "\<not> W h tap" "r \<noteq> None"
  shows "\<exists>l. snd (run_state (CleanupTapInterface E c tap) (h @ l0)) = h @ l \<and> tap_outcome W cfg h r l"
  using cleanup_restores [OF assms(1,2), of c "h @ l0"] assms(3-5)
  by (auto simp: tap_outcome_def Let_def simp del: cleanup_trouble.simps)

lemma run_setup_rest:
  "run_state (and_then (runCommand E c ''tc'' a) (if_err (runCommand E c ''tc'' b) (\<lambda>err. ret None)
      (and_then (runCommand E c ''tc'' d) (ret None)))) h = (r, h') \<Longrightarrow>
   r = None \<and> (\<exists>l. h' = h @ l \<and> (\<forall>e \<in> set l. \<exists>args ok. e = (Command c ''tc'' args, ok)))"
  by (cases rule: runCommand_cases [of E "snd (run_state (runCommand E c ''tc'' a) h)" c "''tc''" b]) auto

lemma wiring_outcome:
  assumes W: "ip_world W E" and tap: "TAPName cfg \<noteq> ''''" "tap = TAPName cfg" and new: "\<not> W h tap"
    and run: "run_state
       (if_err (runCommand E (Timeout c) ''ip'' (master_args tap (BridgeName cfg)))
          (\<lambda>err. and_then (CleanupTapInterface E Background tap)
            (fails (wrap_err (''failed attaching tap '' @ tap @ '' to bridge '' @ BridgeName cfg) err)))
       (if_err (runCommand E (Timeout c) ''ip'' (up_args tap))
          (\<lambda>err. and_then (CleanupTapInterface E Background tap)
            (fails (wrap_err (''failed bringing tap interface up '' @ tap) err)))
       (and_then (runCommand E (Timeout c) ''tc'' (egress_args tap))
       (if_err (runCommand E (Timeout c) ''tc'' (ingress_args tap))
          (\<lambda>err. ret None)
          (and_then (runCommand E (Timeout c) ''tc'' (police_args tap)) (ret None))))))
      (h @ [(Interfaces, True), (Command (Timeout c) ''ip'' (add_args tap), True)]) = (r, h')"
  shows "\<exists>l. h' = h @ l \<and> tap_outcome W cfg h r l"
proof -
  let ?l2 = "[(Interfaces, True), (Command (Timeout c) ''ip'' (add_args tap), True)]"
  have tap0: "tap \<noteq> ''''" using tap by simp
  show ?thesis
  proof (cases rule: runCommand_cases [of E "h @ ?l2" "Timeout c" "''ip''" "master_args tap (BridgeName cfg)"])
    case (2 err)
    let ?l3 = "?l2 @ [(Command (Timeout c) ''ip'' (master_args tap (BridgeName cfg)), False)]"
    have "r \<noteq> None" "h' = snd (run_state (CleanupTapInterface E Background tap) (h @ ?l3))"
      using run 2 by auto
    then show ?thesis
      using setup_failed [OF tap0 W tap(2) new, of r Background ?l3] by auto
  next
    case ok: 1
    let ?l3 = "?l2 @ [(Command (Timeout c) ''ip'' (master_args tap (BridgeName cfg)), True)]"
    show ?thesis
    proof (cases rule: runCommand_cases [of E "h @ ?l3" "Timeout c" "''ip''" "up_args tap"])
      case (2 err)
      let ?l4 = "?l3 @ [(Command (Timeout c) ''ip'' (up_args tap), False)]"
      have "r \<noteq> None" "h' = snd (run_state (CleanupTapInterface E Background tap) (h @ ?l4))"
        using run ok 2 by auto
      then show ?thesis
        using setup_failed [OF tap0 W tap(2) new, of r Background ?l4] by auto
    next
      case up: 1
      let ?l4 = "?l3 @ [(Command (Timeout c) ''ip'' (up_args tap), True)]"
      have "run_state (and_then (runCommand E (Timeout c) ''tc'' (egress_args tap))
          (if_err (runCommand E (Timeout c) ''tc'' (ingress_args tap)) (\<lambda>err. ret None)
            (and_then (runCommand E (Timeout c) ''tc'' (police_args tap)) (ret None)))) (h @ ?l4) = (r, h')"
        using run ok up by simp
      from run_setup_rest [OF this] obtain l where l: "r = None" "h' = (h @ ?l4) @ l"
        "\<forall>e \<in> set l. \<exists>args ok. e = (Command (Timeout c) ''tc'' args, ok)" by blast
      have "W ((h @ ?l4) @ l) tap = W (h @ ?l4) tap" by (rule world_same [OF W]) (use l(3) in auto)
      moreover have "W (h @ ?l4) tap" using world_path [OF W, of tap ?l4 h] by simp
      ultimately have "tap_outcome W cfg h r (?l4 @ l)"
        using new tap l(1) by (auto simp: tap_outcome_def tap_wired_def Let_def)
      with l(2) show ?thesis by (intro exI [of _ "?l4 @ l"]) simp
    qed
  qed
qed

lemma SetupTap_outcome:
  assumes W: "ip_world W E" and run: "run_state (SetupTapInterface E c cfg) h = (r, h')"
  shows "\<exists>l. h' = h @ l \<and> tap_outcome W cfg h r l"
proof (cases "validateTAPConfig cfg")
  case (Some err)
  then show ?thesis using run by (intro exI [of _ "[]"]) (auto simp: SetupTapInterface_def tap_outcome_def Let_def)
next
  case None
  let ?tap = "TAPName cfg" and ?c = "Timeout c"
  have tap: "?tap \<noteq> ''''" using None by (auto simp: validateTAPConfig_def split: if_splits)
  note def = SetupTapInterface_def None Let_def
  show ?thesis
  proof (cases rule: interfaceExists_cases [of E h ?tap])
    case (2 err)
    then show ?thesis using run by (intro exI [of _ "[(Interfaces, False)]"]) (auto simp: def tap_outcome_def)
  next
    case ex: (1 names)
    have names: "?tap \<in> set names \<longleftrightarrow> W h ?tap" by (rule world_lists [OF W ex(1)])
    let ?h1 = "h @ [(Interfaces, True)]"
    have same: "W ?h1 ?tap = W h ?tap" by (rule world_same [OF W]) simp
    show ?thesis
    proof (cases "?tap \<in> set names")
      case True
      with run ex same show ?thesis by (intro exI [of _ "[(Interfaces, True)]"]) (auto simp: def tap_outcome_def)
    next
      case False
      with names have new: "\<not> W h ?tap" by simp
      show ?thesis
      proof (cases rule: runCommand_cases [of E ?h1 ?c "''ip''" "add_args ?tap"])
        case (2 err)
        with run ex False new show ?thesis
          by (intro exI [of _ "[(Interfaces, True), (Command ?c ''ip'' (add_args ?tap), False)]"])
            (auto simp: def tap_outcome_def add_failed_def)
      next
        case add: 1
        from run ex False add show ?thesis
          by (intro wiring_outcome [OF W tap refl new]) (simp add: def)
      qed
    qed
  qed
qed


section \<open>Addresses\<close>

lemma digits_no_dot: "CHR ''.'' \<notin> set (map digit_char (nat_digits 10 n))"
proof -
  have "digit_char d \<noteq> CHR ''.''" if "d < 10" for d
    using digit_val_char [OF that] by (auto simp: digit_val_def)
  then have "\<forall>d \<in> set (nat_digits 10 n). digit_char d \<noteq> CHR ''.''"
    using nat_digits_less [of 10 _ n] by simp
  then show ?thesis unfolding set_map by (metis imageE)
qed

lemma hd_digits_10: "10 \<le> n \<Longrightarrow> hd (nat_digits 10 n) \<noteq> 0"
proof (induction n rule: less_induct)
  case (less n)
  have "hd (nat_digits 10 (n div 10)) \<noteq> 0"
  proof (cases "10 \<le> n div 10")
    case False
    then have "nat_digits 10 (n div 10) = [n div 10]" by (subst nat_digits.simps) simp
    with less.prems show ?thesis by simp
  qed (use less in simp)
  with less.prems show ?case by (subst nat_digits.simps) simp
qed

lemma ipv4_field_Itoa:
  assumes "n \<le> 255"
  shows "ipv4_field (map digit_char (nat_digits 10 n)) = Some n"
proof -
  have "hd (map digit_char (nat_digits 10 n)) \<noteq> CHR ''0''" if "1 < length (nat_digits 10 n)"
  proof -
    have "10 \<le> n"
    proof (rule ccontr)
      assume "\<not> 10 \<le> n"
      then have "length (nat_digits 10 n) = 1" by (subst nat_digits.simps) simp
      with that show False by simp
    qed
    then have "hd (nat_digits 10 n) \<noteq> 0" by (rule hd_digits_10)
    moreover have "hd (nat_digits 10 n) < 10" using nat_digits_less [of 10 _ n] by simp
    ultimately have "digit_char (hd (nat_digits 10 n)) \<noteq> digit_char 0"
      using digit_char_inj [of "hd (nat_digits 10 n)" 0] by auto
    then show ?thesis by (simp add: hd_map digit_char_def)
  qed
  then show ?thesis using read_digits_Itoa [of "[]" n] assms by (simp add: ipv4_field_def)
qed

lemma GenerateIP_ok: "1 \<le> i \<Longrightarrow> i \<le> 254 \<Longrightarrow> GenerateIPFromIndex i = Inr (''172.16.0.'' @ Itoa i)"
proof -
  assume i: "1 \<le> i" "i \<le> 254"
  let ?d = "map digit_char (nat_digits 10 (nat i))"
  have "Itoa i = ?d" using i by (simp add: Itoa_def)
  moreover have "split_on CHR ''.'' (''172.16.0.'' @ ?d) = [''172'', ''16'', ''0'', ?d]"
    using split_on_none [OF digits_no_dot] by simp
  moreover have "ipv4_field ?d = Some (nat i)" using i by (intro ipv4_field_Itoa) simp
  moreover have "ipv4_field ''172'' = Some 172" "ipv4_field ''16'' = Some 16" "ipv4_field ''0'' = Some 0"
    by (simp_all add: ipv4_field_def digit_val_def)
  ultimately have "ParseIPv4 (''172.16.0.'' @ Itoa i) = Some [172, 16, 0, nat i]"
    unfolding ParseIPv4_def Let_def by (simp only: list.map) simp
  moreover have "\<not> i \<le> 0" "\<not> 254 < i" using i by auto
  ultimately show ?thesis
    unfolding GenerateIPFromIndex_def Let_def by (simp only: if_False option.distinct)
qed

section \<open>Concrete hosts\<close>

text \<open>
  A host whose commands succeed as \<open>ok\<close> says, and where a failed command has done its
  work all the same when \<open>took\<close> says so. Its listing is exact.
\<close>

fun tap_now :: "(string list \<Rightarrow> bool) \<Rightarrow> string \<Rightarrow> 'x host_call \<times> bool \<Rightarrow> bool \<Rightarrow> bool" where
  "tap_now took tap (Command c name args, ok) b =
     (if (ok \<or> took args) \<and> name = ''ip'' \<and> args = add_args tap then True
      else if (ok \<or> took args) \<and> name = ''ip'' \<and> args = delete_args tap then False else b)"
| "tap_now took tap e b = b"

definition iface :: "(string list \<Rightarrow> bool) \<Rightarrow> 'x history \<Rightarrow> string \<Rightarrow> bool" where
  "iface took h tap = fold (tap_now took tap) h False"

fun mentioned :: "'x history \<Rightarrow> string list" where
  "mentioned [] = []"
| "mentioned ((Command x n args, b) # h) = args @ mentioned h"
| "mentioned (e # h) = mentioned h"

definition ip_host :: "(string list \<Rightarrow> bool) \<Rightarrow> (string list \<Rightarrow> bool) \<Rightarrow> 'x env" where
  "ip_host took ok =
     \<lparr>env_err = (\<lambda>_ _. None), env_str = (\<lambda>_ _. Inr ''''),
      env_names = (\<lambda>h _. Inr (filter (iface took h) (mentioned h))),
      env_bool = (\<lambda>_ _. Inr False), env_int = (\<lambda>_ _. Inr 1), env_u64s = (\<lambda>_ _. Inr []),
      env_cmd = (\<lambda>_ c. case c of Command x n args \<Rightarrow> ('''', if ok args then None else Some (errors_New ''exit status 2''))
                 | _ \<Rightarrow> ('''', None))\<rparr>"

definition demo_tap :: TAPConfig where
  "demo_tap = \<lparr>TAPName = ''tap0'', BridgeName = ''br0''\<rparr>"

lemma iface_mentioned: "fold (tap_now took t) h b \<Longrightarrow> b \<or> t \<in> set (mentioned h)"
proof (induction h arbitrary: b rule: mentioned.induct)
  case (2 x n args ok h)
  then show ?case by (fastforce split: if_splits)
qed auto

lemma ip_host_world: "ip_world (iface took) (ip_host took ok)"
proof -
  have "tap_effect tap e (iface took h tap) (iface took (h @ [e]) tap)" for h :: "'a history" and e tap
    by (cases "(tap, e, False, False)" rule: tap_effect.cases) (auto simp: iface_def)
  moreover have "t \<in> set (filter (iface took h) (mentioned h)) \<longleftrightarrow> iface took h t" for h :: "'a history" and t
    using iface_mentioned [of took t h False] by (auto simp: iface_def)
  ultimately show ?thesis unfolding ip_world_def ip_host_def by simp
qed

lemmas demo_setup_defs = SetupTapInterface_def demo_tap_def validateTAPConfig_def interfaceExists_def
  ip_host_def runCommand_def CleanupTapInterface_def iface_def Let_def

lemma demo_tap_names: "TrimSpace ''tap0'' = ''tap0''" "TrimSpace ''br0'' = ''br0''"
  by (simp_all add: TrimSpace_visible)

text \<open>
  An \<open>ip tuntap add\<close> that is killed at its timeout when the interface is already there:
  the setup fails, the interface stays, and every later setup for that VM is refused.
\<close>

lemma late_add_leaks:
  "\<exists>err h'. run_state (SetupTapInterface (ip_host (\<lambda>_. True) (\<lambda>args. args \<noteq> add_args ''tap0'')) Background demo_tap)
       ([] :: unit history) = (Some err, h') \<and>
     iface (\<lambda>_. True) h' ''tap0'' \<and>
     fst (run_state (SetupTapInterface (ip_host (\<lambda>_. True) (\<lambda>_. True)) Background demo_tap) h')
       = Some (errors_New ''tap interface already exists: tap0'')"
  by (simp add: demo_setup_defs demo_tap_names)

section \<open>Properties\<close>



end
