(* ===== verification/Disk.thy ===== *)
theory Disk
  imports Network Go_Path
begin

text \<open>
  \<open>services/sandbox-orchestrator/disk.go\<close>: the ext4 image that carries a submission into
  its VM. The image is built in a workspace directory and through a loop mount; the
  theorems are about what is undone on which path, and about where the files lie, which
  depends on the submission id alone.
\<close>

record SubmissionImageConfig =
  SubmissionID :: string
  StrategyPath :: string

definition tmpRootDir :: string where "tmpRootDir = ''/tmp''"
definition imageSizeMB :: int where "imageSizeMB = 64"

definition workspace_dir :: "string \<Rightarrow> string" where
  "workspace_dir sid = path_Join [tmpRootDir, ''workspace-'' @ sid]"

definition image_path :: "string \<Rightarrow> string" where
  "image_path sid = path_Join [tmpRootDir, ''submission-'' @ sid @ ''.ext4'']"

definition quoted :: "string \<Rightarrow> string" where
  "quoted s = CHR 0x22 # s @ [CHR 0x22]"

definition buildGuestBootstrapScript :: string where
  "buildGuestBootstrapScript =
     concat (map (\<lambda>l. l @ [CHR 0x0A])
       [''#!/bin/sh'',
        ''echo '' @ quoted ''[GUEST SBOX] Bootstrap initialization successful.'',
        ''echo '' @ quoted ''--------------------------------------------------------'',
        '''',
        ''if [ -f ./strategy_bin ]; then'',
        ''    chmod +x ./strategy_bin'',
        ''    echo '' @ quoted ''[GUEST SBOX] Executing strategy binary...'',
        ''    ./strategy_bin'',
        ''    echo '' @ quoted ''[GUEST SBOX] Binary Exit Code: $?'',
        ''else'',
        ''    echo '' @ quoted ''[GUEST SBOX] Error: No strategy_bin payload discovered.'',
        ''fi'',
        '''',
        ''echo '' @ quoted ''--------------------------------------------------------'',
        ''echo '' @ quoted ''[GUEST SBOX] Entering teardown safety hold window...'',
        ''sleep 10'',
        ''reboot -f''])"

definition validateSubmissionImageConfig :: "'x env \<Rightarrow> SubmissionImageConfig \<Rightarrow> ('x, gerr option) io" where
  "validateSubmissionImageConfig E cfg =
     (if TrimSpace (SubmissionID cfg) = '''' then fails (errors_New ''submission_id is required'')
      else if TrimSpace (StrategyPath cfg) = '''' then fails (errors_New ''strategy_path is required'')
      else with_val (call_bool E (Stat (StrategyPath cfg)))
        (\<lambda>err. fails (wrap_err ''strategy binary validation failed'' err))
        (\<lambda>is_dir. if is_dir then fails (errors_New ''strategy_path cannot be a directory'') else ret None))"

definition runDiskCommand :: "'x env \<Rightarrow> ctx \<Rightarrow> string \<Rightarrow> string list \<Rightarrow> ('x, gerr option) io" where
  "runDiskCommand E c name args =
     State_Monad.bind (call_cmd E c name args) (\<lambda>(output, err).
       case err of
         None \<Rightarrow> ret None
       | Some e \<Rightarrow> fails (errors_New (''command failed cmd='' @ name @ '' args='' @ fmt_args args @
                          '' output='' @ output @ '' err='' @ err_msg e)))"

text \<open>The files are in the order in which Go ranges over the map.\<close>

fun copyFilesIntoMount :: "'x env \<Rightarrow> string \<Rightarrow> (string \<times> string) list \<Rightarrow> ('x, gerr option) io" where
  "copyFilesIntoMount E mntDir [] = ret None"
| "copyFilesIntoMount E mntDir ((guestName, hostPath) # files) =
     with_val (call_str E (ReadFile hostPath))
       (\<lambda>err. fails (wrap_err (''failed reading '' @ hostPath) err))
       (\<lambda>content.
         if_err (call_err E (WriteFile (path_Join [mntDir, guestName]) content))
           (\<lambda>err. fails (wrap_err (''failed writing '' @ guestName @ '' into image'') err))
           (copyFilesIntoMount E mntDir files))"

text \<open>
  \<open>CreateSubmissionImage\<close> in three parts, one per \<open>defer\<close>: filling the mounted image,
  making and mounting it, and preparing the workspace. \<open>order\<close> arranges the two files.
\<close>

definition fill_image ::
  "'x env \<Rightarrow> ctx \<Rightarrow> ((string \<times> string) list \<Rightarrow> (string \<times> string) list) \<Rightarrow> string \<Rightarrow> string \<Rightarrow> string \<Rightarrow>
   ('x, string result) io"
where
  "fill_image E c order ws img mntDir =
     if_err (runDiskCommand E c ''mount'' [''-o'', ''loop'', img, mntDir])
       (\<lambda>err. ret (Inl (wrap_err ''failed mounting image'' err)))
       (State_Monad.bind (copyFilesIntoMount E mntDir
            (order [(''run.sh'', path_Join [ws, ''run.sh'']), (''strategy_bin'', path_Join [ws, ''strategy_bin''])]))
         (\<lambda>copyErr. and_then (runDiskCommand E Background ''umount'' [mntDir])
           (case copyErr of Some err \<Rightarrow> ret (Inl err) | None \<Rightarrow> ret (Inr img))))"

definition make_image ::
  "'x env \<Rightarrow> ctx \<Rightarrow> ((string \<times> string) list \<Rightarrow> (string \<times> string) list) \<Rightarrow> string \<Rightarrow> string \<Rightarrow> ('x, string result) io"
where
  "make_image E c order ws img =
     if_err (runDiskCommand E c ''truncate'' [''-s'', Itoa imageSizeMB @ ''M'', img])
       (\<lambda>err. ret (Inl (wrap_err ''failed allocating raw image'' err)))
    (if_err (runDiskCommand E c ''mkfs.ext4'' [''-F'', img])
       (\<lambda>err. ret (Inl (wrap_err ''failed formatting ext4 filesystem'' err)))
    (with_val (call_str E (MkdirTemp ''fc-img-*''))
       (\<lambda>err. ret (Inl (wrap_err ''failed creating temp mount dir'' err)))
       (\<lambda>mntDir. deferring (call_err E (RemoveAll mntDir)) (fill_image E c order ws img mntDir))))"

definition prepare_workspace ::
  "'x env \<Rightarrow> ctx \<Rightarrow> ((string \<times> string) list \<Rightarrow> (string \<times> string) list) \<Rightarrow> SubmissionImageConfig \<Rightarrow>
   string \<Rightarrow> string \<Rightarrow> ('x, string result) io"
where
  "prepare_workspace E c order cfg ws img =
     if_err (call_err E (WriteFile (path_Join [ws, ''run.sh'']) buildGuestBootstrapScript))
       (\<lambda>err. ret (Inl (wrap_err ''failed writing guest bootstrap script'' err)))
    (with_val (call_str E (ReadFile (StrategyPath cfg)))
       (\<lambda>err. ret (Inl (wrap_err ''failed reading strategy binary'' err)))
       (\<lambda>content.
         if_err (call_err E (WriteFile (path_Join [ws, ''strategy_bin'']) content))
           (\<lambda>err. ret (Inl (wrap_err ''failed copying strategy binary into workspace'' err)))
           (make_image E (Timeout c) order ws img)))"

definition CreateSubmissionImage ::
  "'x env \<Rightarrow> ctx \<Rightarrow> ((string \<times> string) list \<Rightarrow> (string \<times> string) list) \<Rightarrow> SubmissionImageConfig \<Rightarrow>
   ('x, string result) io"
where
  "CreateSubmissionImage E parentCtx order cfg =
     if_err (validateSubmissionImageConfig E cfg) (\<lambda>err. ret (Inl err))
       (let ws = workspace_dir (SubmissionID cfg); img = image_path (SubmissionID cfg)
        in and_then (call_err E (RemoveAll ws))
          (and_then (call_err E (Remove img))
          (if_err (call_err E (MkdirAll ws))
            (\<lambda>err. ret (Inl (wrap_err ''failed creating workspace directory'' err)))
            (deferring (call_err E (RemoveAll ws)) (prepare_workspace E parentCtx order cfg ws img)))))"

definition CleanupSubmissionImage :: "'x env \<Rightarrow> string \<Rightarrow> ('x, gerr option) io" where
  "CleanupSubmissionImage E imagePath =
     (if TrimSpace imagePath = '''' then ret None
      else if_err (call_err E (Remove imagePath))
        (\<lambda>err. if is_not_exist err then ret None
               else fails (wrap_err (''failed removing submission image '' @ imagePath) err))
        (ret None))"

lemma runDiskCommand_eq: "runDiskCommand = runCommand"
  by (intro ext) (simp add: runDiskCommand_def runCommand_def)

section \<open>Where the files lie\<close>

lemma tmp_abs: "tmpRootDir = abs_path [''tmp'']"
  by (simp add: tmpRootDir_def abs_path_def)

lemma disk_paths:
  assumes "CHR ''/'' \<notin> set sid"
  shows "workspace_dir sid = ''/tmp/workspace-'' @ sid" and "image_path sid = ''/tmp/submission-'' @ sid @ ''.ext4''"
proof -
  have "plain (''workspace-'' @ sid @ [])" using assms by (intro plain_affix) simp_all
  then show "workspace_dir sid = ''/tmp/workspace-'' @ sid"
    unfolding workspace_dir_def tmp_abs by (subst Join_plain) (simp_all add: plain_def abs_path_def)
  have "plain (''submission-'' @ sid @ ''.ext4'')" using assms by (intro plain_affix) simp_all
  then show "image_path sid = ''/tmp/submission-'' @ sid @ ''.ext4''"
    unfolding image_path_def tmp_abs by (subst Join_plain) (simp_all add: plain_def abs_path_def)
qed

section \<open>What is undone\<close>

text \<open>Every successful mount is followed by an unmount that no context cuts short.\<close>

fun mounted_at :: "'x host_call \<times> bool \<Rightarrow> string option" where
  "mounted_at (Command c name args, ok) =
     (if ok \<and> name = ''mount'' \<and> length args = 4 then Some (last args) else None)"
| "mounted_at _ = None"

fun unmounted :: "'x history \<Rightarrow> bool" where
  "unmounted [] = True"
| "unmounted (e # l) =
     ((case mounted_at e of None \<Rightarrow> True
       | Some mnt \<Rightarrow> list_ex (\<lambda>e'. fst e' = Command Background ''umount'' [mnt]) l) \<and> unmounted l)"

interpretation unmounts: trace_law unmounted
proof
  show "unmounted (k @ l)" if "unmounted k" "unmounted l" for k l :: "'a history"
    using that by (induction k) (auto split: option.splits)
qed simp

text \<open>The events of a copy are reads and writes.\<close>

abbreviation copying :: "'x host_call \<times> bool \<Rightarrow> bool" where
  "copying e \<equiv> \<exists>p c. fst e = ReadFile p \<or> fst e = WriteFile p c"

lemma copy_events: "adds (list_all copying) (copyFilesIntoMount E mnt files)"
  by (induction E mnt files rule: copyFilesIntoMount.induct) (auto intro!: every.intros)

lemma copying_unmounted: "list_all copying l \<Longrightarrow> unmounted l"
  by (induction l) auto

lemma run_disk_adds:
  "(\<And>b. Q [(Command c name args, b)]) \<Longrightarrow> adds Q (runDiskCommand E c name args)"
  unfolding runDiskCommand_eq adds_def by simp

text \<open>All that filling the image does.\<close>

abbreviation mount_call :: "ctx \<Rightarrow> string \<Rightarrow> string \<Rightarrow> 'x host_call" where
  "mount_call c img mnt \<equiv> Command c ''mount'' [''-o'', ''loop'', img, mnt]"

definition fill_trace :: "ctx \<Rightarrow> string \<Rightarrow> string \<Rightarrow> string result \<Rightarrow> 'x history \<Rightarrow> bool" where
  "fill_trace c img mnt r l \<longleftrightarrow>
     l = [(mount_call c img mnt, False)] \<and> (\<exists>err. r = Inl err) \<or>
     (\<exists>k b. l = (mount_call c img mnt, True) # k @ [(Command Background ''umount'' [mnt], b)] \<and>
        list_all copying k \<and> (\<forall>x. r = Inr x \<longrightarrow> x = img))"

lemma fill_image_run:
  "\<exists>r l. run_state (fill_image E c order ws img mnt) h = (r, h @ l) \<and> fill_trace c img mnt r l"
proof (cases rule: runCommand_cases [of E h c "''mount''" "[''-o'', ''loop'', img, mnt]"])
  case (2 err)
  then show ?thesis by (auto simp: fill_image_def runDiskCommand_eq fill_trace_def)
next
  case m: 1
  let ?copy = "copyFilesIntoMount E mnt
    (order [(''run.sh'', path_Join [ws, ''run.sh'']), (''strategy_bin'', path_Join [ws, ''strategy_bin''])])"
  let ?h = "h @ [(mount_call c img mnt, True)]"
  obtain k where k: "snd (run_state ?copy ?h) = ?h @ k" "list_all copying k" using addsE [OF copy_events] by blast
  obtain e where e: "run_state ?copy ?h = (e, ?h @ k)" using k(1) by (cases "run_state ?copy ?h") auto
  show ?thesis
    using m e k(2) by (cases e) (auto simp: fill_image_def runDiskCommand_eq fill_trace_def)
qed

lemma fill_unmounts: "adds unmounted (fill_image E c order ws img mnt)"
proof (rule addsI)
  fix h
  obtain r l where l: "run_state (fill_image E c order ws img mnt) h = (r, h @ l)" "fill_trace c img mnt r l"
    using fill_image_run by blast
  have "unmounted (k @ [(Command Background ''umount'' [mnt], b)])" if "list_all copying k" for k b
    using copying_unmounted [OF that] by (intro unmounts.Q_append) simp_all
  then have "unmounted l" using l(2) by (auto simp: fill_trace_def)
  with l(1) show "\<exists>l. snd (run_state (fill_image E c order ws img mnt) h) = h @ l \<and> unmounted l" by auto
qed

lemma make_unmounts: "adds unmounted (make_image E c order ws img)"
  unfolding make_image_def by (intro unmounts.intros run_disk_adds fill_unmounts) simp_all

lemma prepare_unmounts: "adds unmounted (prepare_workspace E c order cfg ws img)"
  unfolding prepare_workspace_def by (intro unmounts.intros make_unmounts) simp_all

lemma validate_adds:
  "(\<And>p b. Q [(Stat p, b)]) \<Longrightarrow> trace_law Q \<Longrightarrow> adds Q (validateSubmissionImageConfig E cfg)"
  unfolding validateSubmissionImageConfig_def by (intro trace_law.intros) auto

lemma create_unmounts: "adds unmounted (CreateSubmissionImage E c order cfg)"
  unfolding CreateSubmissionImage_def Let_def
  by (intro unmounts.intros validate_adds prepare_unmounts unmounts.trace_law_axioms) simp_all

text \<open>None of the parts removes a file: the image stays once it has been allocated.\<close>

lemma fill_keeps: "adds (list_all (\<lambda>e. \<forall>p. fst e \<noteq> Remove p \<and> fst e \<noteq> RemoveAll p)) (fill_image E c order ws img mnt)"
proof (rule addsI)
  fix h
  obtain r l where l: "run_state (fill_image E c order ws img mnt) h = (r, h @ l)" "fill_trace c img mnt r l"
    using fill_image_run by blast
  have "list_all (\<lambda>e. \<forall>p. fst e \<noteq> Remove p \<and> fst e \<noteq> RemoveAll p) l"
    using l(2) by (fastforce simp: fill_trace_def list_all_iff)
  with l(1) show "\<exists>l. snd (run_state (fill_image E c order ws img mnt) h) = h @ l \<and>
      list_all (\<lambda>e. \<forall>p. fst e \<noteq> Remove p \<and> fst e \<noteq> RemoveAll p) l" by auto
qed

lemma make_keeps: "adds (list_all (\<lambda>e. \<forall>p. fst e \<noteq> Remove p)) (make_image E c order ws img)"
  unfolding make_image_def
  by (intro every.intros run_disk_adds adds_mono [OF fill_keeps]) (auto simp: list_all_iff)

lemma prepare_keeps: "adds (list_all (\<lambda>e. \<forall>p. fst e \<noteq> Remove p)) (prepare_workspace E c order cfg ws img)"
  unfolding prepare_workspace_def by (intro every.intros make_keeps) simp_all

section \<open>The image file\<close>

text \<open>Whether a file exists after a history, as far as the calls of this component tell.\<close>

fun file_effect :: "string \<Rightarrow> 'x host_call \<times> bool \<Rightarrow> bool \<Rightarrow> bool" where
  "file_effect p (Command c name args, ok) b = (b \<or> ok \<and> name = ''truncate'' \<and> last args = p)"
| "file_effect p (Remove q, ok) b = (b \<and> \<not> (ok \<and> q = p))"
| "file_effect p (RemoveAll q, ok) b = (b \<and> \<not> (ok \<and> q = p))"
| "file_effect p e b = b"

definition file_after :: "string \<Rightarrow> 'x history \<Rightarrow> bool" where
  "file_after p h = fold (file_effect p) h False"

lemma file_after_append [simp]: "file_after p (h @ l) = fold (file_effect p) l (file_after p h)"
  by (simp add: file_after_def)

abbreviation spares :: "string \<Rightarrow> 'x host_call \<times> bool \<Rightarrow> bool" where
  "spares p e \<equiv> fst e \<noteq> Remove p \<and> fst e \<noteq> RemoveAll p"

lemma file_effect_keep: "spares p e \<Longrightarrow> b \<Longrightarrow> file_effect p e b"
  by (cases e; cases "fst e") auto

lemma file_spared: "list_all (spares p) l \<Longrightarrow> b \<Longrightarrow> fold (file_effect p) l b"
proof (induction l arbitrary: b)
  case (Cons e l)
  then show ?case using file_effect_keep [of e p b] by simp
qed simp

text \<open>Once allocated, the image survives the rest of its construction, whatever fails.\<close>

abbreviation alloc_call :: "ctx \<Rightarrow> string \<Rightarrow> 'x host_call" where
  "alloc_call c img \<equiv> Command c ''truncate'' [''-s'', ''64M'', img]"

lemma Itoa_64: "Itoa imageSizeMB @ ''M'' = ''64M''"
  by (simp add: imageSizeMB_def Itoa_def nat_digits.simps digit_char_def)

lemma make_after_alloc:
  assumes mnt: "\<forall>h. env_str E h (MkdirTemp ''fc-img-*'') \<noteq> Inr img"
  shows "adds (list_all (spares img)) (if_err (runDiskCommand E c ''mkfs.ext4'' [''-F'', img])
       (\<lambda>err. ret (Inl (wrap_err ''failed formatting ext4 filesystem'' err)))
    (with_val (call_str E (MkdirTemp ''fc-img-*''))
       (\<lambda>err. ret (Inl (wrap_err ''failed creating temp mount dir'' err)))
       (\<lambda>mntDir. deferring (call_err E (RemoveAll mntDir)) (fill_image E c order ws img mntDir))))"
proof -
  have f: "adds (list_all (spares img)) (fill_image E c order ws img m)" for m
    by (rule adds_mono [OF fill_keeps]) (auto simp: list_all_iff)
  have "adds (list_all (spares img)) (with_val (call_str E (MkdirTemp ''fc-img-*''))
       (\<lambda>err. ret (Inl (wrap_err ''failed creating temp mount dir'' err)))
       (\<lambda>mntDir. deferring (call_err E (RemoveAll mntDir)) (fill_image E c order ws img mntDir)))"
  proof (rule addsI)
    fix h
    show "\<exists>l. snd (run_state (with_val (call_str E (MkdirTemp ''fc-img-*''))
         (\<lambda>err. ret (Inl (wrap_err ''failed creating temp mount dir'' err)))
         (\<lambda>mntDir. deferring (call_err E (RemoveAll mntDir)) (fill_image E c order ws img mntDir))) h) = h @ l \<and>
       list_all (spares img) l"
    proof (cases "env_str E h (MkdirTemp ''fc-img-*'')")
      case (Inr m)
      have "adds (list_all (spares img)) (deferring (call_err E (RemoveAll m)) (fill_image E c order ws img m))"
        using mnt Inr by (intro every.intros f) auto
      then obtain l where "snd (run_state (deferring (call_err E (RemoveAll m)) (fill_image E c order ws img m))
          (h @ [(MkdirTemp ''fc-img-*'', True)])) = (h @ [(MkdirTemp ''fc-img-*'', True)]) @ l"
        "list_all (spares img) l" by (rule addsE)
      with Inr show ?thesis by simp
    qed simp
  qed
  then show ?thesis by (rule every.adds_flow(1) [rotated 2]) (simp_all add: run_disk_adds every.adds_ret)
qed

lemma make_image_leaves:
  assumes "\<forall>h. env_str E h (MkdirTemp ''fc-img-*'') \<noteq> Inr img"
    and "snd (run_state (make_image E c order ws img) h) = h @ l"
  shows "(alloc_call c img, True) \<in> set l \<longrightarrow> fold (file_effect img) l b"
proof (cases rule: runCommand_cases [of E h c "''truncate''" "[''-s'', ''64M'', img]"])
  case (2 err)
  then have "l = [(alloc_call c img, False)]" using assms(2)
    by (simp add: make_image_def Itoa_64 runDiskCommand_eq)
  then show ?thesis by simp
next
  case 1
  obtain k where k: "l = (alloc_call c img, True) # k" "list_all (spares img) k"
    using assms(2) 1 addsE [OF make_after_alloc [OF assms(1), of c order ws], of "h @ [(alloc_call c img, True)]"]
    unfolding make_image_def Itoa_64 runDiskCommand_eq by auto
  then show ?thesis using file_spared [OF k(2)] by simp
qed

text \<open>
  \<open>CreateSubmissionImage\<close> either stops before it has a workspace, or runs the rest and
  removes the workspace.
\<close>

abbreviation early :: "'x host_call \<times> bool \<Rightarrow> bool" where
  "early e \<equiv> (\<exists>p. fst e \<in> {Stat p, RemoveAll p, Remove p} \<or> fst e = MkdirAll p \<and> \<not> snd e)"

definition first_calls :: "string \<Rightarrow> string \<Rightarrow> string \<Rightarrow> bool \<Rightarrow> bool \<Rightarrow> 'x history" where
  "first_calls sp ws img b1 b2 = [(Stat sp, True), (RemoveAll ws, b1), (Remove img, b2), (MkdirAll ws, True)]"

lemma validate_run:
  "run_state (validateSubmissionImageConfig E cfg) h = (None, h @ [(Stat (StrategyPath cfg), True)]) \<or>
   (\<exists>err l. run_state (validateSubmissionImageConfig E cfg) h = (Some err, h @ l) \<and> list_all early l)"
  by (cases "env_bool E h (Stat (StrategyPath cfg))") (auto simp: validateSubmissionImageConfig_def)

lemma create_run:
  fixes E c order cfg h
  defines "sp \<equiv> StrategyPath cfg" and "ws \<equiv> workspace_dir (SubmissionID cfg)"
    and "img \<equiv> image_path (SubmissionID cfg)"
  shows "\<exists>r l. run_state (CreateSubmissionImage E c order cfg) h = (r, h @ l) \<and>
    ((\<exists>err. r = Inl err) \<and> list_all early l \<or>
     (\<exists>b1 b2 k b. l = first_calls sp ws img b1 b2 @ k @ [(RemoveAll ws, b)] \<and>
        run_state (prepare_workspace E c order cfg ws img) (h @ first_calls sp ws img b1 b2)
          = (r, (h @ first_calls sp ws img b1 b2) @ k)))"
  using validate_run [of E cfg h]
proof (elim disjE exE conjE)
  fix err l assume "run_state (validateSubmissionImageConfig E cfg) h = (Some err, h @ l)" "list_all early l"
  then show ?thesis by (intro exI [of _ "Inl err"] exI [of _ l]) (auto simp: CreateSubmissionImage_def)
next
  assume v: "run_state (validateSubmissionImageConfig E cfg) h = (None, h @ [(Stat (StrategyPath cfg), True)])"
  let ?h1 = "h @ [(Stat sp, True)]"
  define b1 where "b1 = (env_err E ?h1 (RemoveAll ws) = None)"
  let ?h2 = "?h1 @ [(RemoveAll ws, b1)]"
  define b2 where "b2 = (env_err E ?h2 (Remove img) = None)"
  let ?h3 = "?h2 @ [(Remove img, b2)]"
  show ?thesis
  proof (cases "env_err E ?h3 (MkdirAll ws)")
    case (Some err)
    then show ?thesis using v
      by (intro exI [of _ "Inl (wrap_err ''failed creating workspace directory'' err)"]
          exI [of _ "[(Stat sp, True), (RemoveAll ws, b1), (Remove img, b2), (MkdirAll ws, False)]"])
        (simp add: CreateSubmissionImage_def Let_def sp_def ws_def img_def b1_def b2_def)
  next
    case None
    let ?h4 = "h @ first_calls sp ws img b1 b2"
    have "adds (\<lambda>_. True) (prepare_workspace E c order cfg ws img)"
      by (rule adds_mono [OF prepare_keeps]) simp
    then obtain k where k: "snd (run_state (prepare_workspace E c order cfg ws img) ?h4) = ?h4 @ k" by (rule addsE)
    define r where "r = fst (run_state (prepare_workspace E c order cfg ws img) ?h4)"
    have p: "run_state (prepare_workspace E c order cfg ws img) ?h4 = (r, ?h4 @ k)"
      using k by (simp add: r_def prod_eq_iff)
    define b where "b = (env_err E (?h4 @ k) (RemoveAll ws) = None)"
    have "run_state (CreateSubmissionImage E c order cfg) h = (r, h @ first_calls sp ws img b1 b2 @ k @ [(RemoveAll ws, b)])"
      using v None p by (simp add: CreateSubmissionImage_def Let_def sp_def ws_def img_def b1_def b2_def b_def first_calls_def)
    with p show ?thesis by blast
  qed
qed

text \<open>Whoever allocates the image leaves it behind: no failure after that removes it.\<close>

definition keeps_image :: "ctx \<Rightarrow> string \<Rightarrow> 'x history \<Rightarrow> bool" where
  "keeps_image c img l \<longleftrightarrow> ((alloc_call c img, True) \<in> set l \<longrightarrow> (\<forall>b. fold (file_effect img) l b))"

definition calm :: "string \<Rightarrow> 'x host_call \<times> bool \<Rightarrow> bool" where
  "calm img e \<longleftrightarrow> spares img e \<and> (\<forall>c. fst e \<noteq> alloc_call c img)"

lemma keeps_image_calm: "list_all (calm img) l \<Longrightarrow> keeps_image c img l"
  by (auto simp: keeps_image_def calm_def list_all_iff)

lemma keeps_image_around:
  assumes "\<forall>e \<in> set k. fst e \<noteq> alloc_call c img" "keeps_image c img l" "list_all (calm img) m"
  shows "keeps_image c img (k @ l @ m)"
proof -
  have "list_all (spares img) m" "(alloc_call c img, True) \<notin> set m" "(alloc_call c img, True) \<notin> set k"
    using assms(1,3) by (auto simp: calm_def list_all_iff)
  then show ?thesis using assms(2) file_spared [of img m True] unfolding keeps_image_def by auto
qed

lemma make_keeps_image:
  assumes "\<forall>h. env_str E h (MkdirTemp ''fc-img-*'') \<noteq> Inr img"
  shows "does (\<lambda>_ l. keeps_image c img l) (make_image E c order ws img)"
  unfolding does_def
proof
  fix h
  obtain l where l: "snd (run_state (make_image E c order ws img) h) = h @ l"
    by (rule addsE [OF make_unmounts])
  then have "keeps_image c img l" using make_image_leaves [OF assms l] by (simp add: keeps_image_def)
  with l show "\<exists>r l. run_state (make_image E c order ws img) h = (r, h @ l) \<and> keeps_image c img l"
    by (metis prod.collapse)
qed

lemma prepare_keeps_image:
  assumes "\<forall>h. env_str E h (MkdirTemp ''fc-img-*'') \<noteq> Inr img"
  shows "does (\<lambda>_ l. keeps_image (Timeout c) img l) (prepare_workspace E c order cfg ws img)"
  unfolding prepare_workspace_def
proof (intro does_if_call does_with_call does_ret, goal_cases)
  case (4 content)
  show ?case
    by (rule does_mono [OF make_keeps_image [OF assms]])
      (auto simp: keeps_image_def)
qed (simp_all add: keeps_image_def)

lemma create_keeps_image:
  assumes "\<forall>h. env_str E h (MkdirTemp ''fc-img-*'') \<noteq> Inr (image_path (SubmissionID cfg))"
    and "CHR ''/'' \<notin> set (SubmissionID cfg)"
  shows "does (\<lambda>_ l. keeps_image (Timeout c) (image_path (SubmissionID cfg)) l) (CreateSubmissionImage E c order cfg)"
  unfolding does_def
proof
  fix h
  let ?img = "image_path (SubmissionID cfg)" and ?ws = "workspace_dir (SubmissionID cfg)"
  obtain r l where run: "run_state (CreateSubmissionImage E c order cfg) h = (r, h @ l)"
    and c: "list_all early l \<or>
     (\<exists>b1 b2 k b. l = first_calls (StrategyPath cfg) ?ws ?img b1 b2 @ k @ [(RemoveAll ?ws, b)] \<and>
        run_state (prepare_workspace E c order cfg ?ws ?img) (h @ first_calls (StrategyPath cfg) ?ws ?img b1 b2)
          = (r, (h @ first_calls (StrategyPath cfg) ?ws ?img b1 b2) @ k))"
    using create_run [of E c order cfg h] by blast
  from c have "keeps_image (Timeout c) ?img l"
  proof (elim disjE exE conjE)
    assume "list_all early l"
    then show ?thesis by (auto simp: keeps_image_def list_all_iff)
  next
    fix b1 b2 k b
    assume l: "l = first_calls (StrategyPath cfg) ?ws ?img b1 b2 @ k @ [(RemoveAll ?ws, b)]"
      and p: "run_state (prepare_workspace E c order cfg ?ws ?img) (h @ first_calls (StrategyPath cfg) ?ws ?img b1 b2)
          = (r, (h @ first_calls (StrategyPath cfg) ?ws ?img b1 b2) @ k)"
    have "?ws \<noteq> ?img" using disk_paths [OF assms(2)] by simp
    moreover have "keeps_image (Timeout c) ?img k" using doesD [OF prepare_keeps_image [OF assms(1)] p] .
    ultimately show ?thesis unfolding l
      by (intro keeps_image_around) (auto simp: first_calls_def calm_def)
  qed
  with run show "\<exists>r l. run_state (CreateSubmissionImage E c order cfg) h = (r, h @ l) \<and>
      keeps_image (Timeout c) ?img l" by blast
qed

lemma prepare_result: "yields (\<lambda>r. \<forall>x. r = Inr x \<longrightarrow> x = img) (prepare_workspace E c order cfg ws img)"
  unfolding prepare_workspace_def make_image_def fill_image_def
  by (intro yields_intros yields_cases) simp_all

section \<open>Properties\<close>

text \<open>
  C20. Whatever the host answers: every successful mount of an image is followed by an
  unmount that no timeout can cut short; once the workspace exists, its removal is the
  last call made; and a result is always the image path of the submission.
\<close>

theorem image_creation_undone:
  assumes "run_state (CreateSubmissionImage E c order cfg) h = (r, h')"
  shows "\<exists>l. h' = h @ l \<and> unmounted l \<and>
    ((MkdirAll (workspace_dir (SubmissionID cfg)), True) \<in> set l \<longrightarrow>
       fst (last l) = RemoveAll (workspace_dir (SubmissionID cfg))) \<and>
    (\<forall>img. r = Inr img \<longrightarrow> img = image_path (SubmissionID cfg))"
proof -
  obtain l where l: "h' = h @ l" "unmounted l" using addsE [OF create_unmounts, of E c order cfg h] assms by auto
  have "((MkdirAll (workspace_dir (SubmissionID cfg)), True) \<in> set l \<longrightarrow>
       fst (last l) = RemoveAll (workspace_dir (SubmissionID cfg))) \<and>
    (\<forall>img. r = Inr img \<longrightarrow> img = image_path (SubmissionID cfg))"
    using create_run [of E c order cfg h] assms l(1) yieldsD [OF prepare_result]
    by (fastforce simp: list_all_iff)
  with l show ?thesis by blast
qed

definition demo_disk :: SubmissionImageConfig where
  "demo_disk = \<lparr>SubmissionID = ''sub-a'', StrategyPath = ''../../sandbox/strategy_bin''\<rparr>"

definition disk_env :: "unit env" where
  "disk_env = quiet_env\<lparr>env_str := (\<lambda>_ _. Inr ''/tmp/fc-img-1'')\<rparr>"

lemma demo_disk_valid:
  "run_state (validateSubmissionImageConfig disk_env demo_disk) h = (None, h @ [(Stat ''../../sandbox/strategy_bin'', True)])"
proof -
  have "TrimSpace ''sub-a'' = ''sub-a''" "TrimSpace ''../../sandbox/strategy_bin'' = ''../../sandbox/strategy_bin''"
    by (simp_all add: TrimSpace_visible)
  then show ?thesis by (simp add: validateSubmissionImageConfig_def demo_disk_def disk_env_def quiet_env_def)
qed

theorem image_creation_undone_witness:
  "\<exists>r h'. run_state (CreateSubmissionImage disk_env Background id demo_disk) [] = (r, h') \<and> unmounted h' \<and>
    (MkdirAll (workspace_dir ''sub-a''), True) \<in> set h' \<and> fst (last h') = RemoveAll (workspace_dir ''sub-a'')"
proof -
  let ?ws = "workspace_dir ''sub-a''" and ?img = "image_path ''sub-a''"
  let ?h4 = "first_calls ''../../sandbox/strategy_bin'' ?ws ?img True True"
  obtain r h' where run: "run_state (CreateSubmissionImage disk_env Background id demo_disk) [] = (r, h')" by fastforce
  obtain k where k: "snd (run_state (prepare_workspace disk_env Background id demo_disk ?ws ?img) ?h4) = ?h4 @ k"
    by (rule addsE [OF prepare_unmounts])
  have ok: "env_err disk_env h c = None" for h c by (simp add: disk_env_def quiet_env_def)
  have id: "SubmissionID demo_disk = ''sub-a''" by (simp add: demo_disk_def)
  have "(MkdirAll ?ws, True) \<in> set h'"
    using run k by (auto simp: CreateSubmissionImage_def demo_disk_valid first_calls_def ok id Let_def)
  with image_creation_undone [OF run] run show ?thesis by (auto simp: id)
qed

text \<open>
  The files of two submissions without slashes in their ids never meet, and all lie
  in \<open>/tmp\<close>.
\<close>

theorem disk_path_isolation:
  assumes "CHR ''/'' \<notin> set a" "CHR ''/'' \<notin> set b"
  shows "(image_path a = image_path b \<longleftrightarrow> a = b) \<and> (workspace_dir a = workspace_dir b \<longleftrightarrow> a = b) \<and>
    image_path a \<noteq> workspace_dir b \<and> HasPrefix (image_path a) ''/tmp/'' \<and> HasPrefix (workspace_dir a) ''/tmp/''"
  using disk_paths [OF assms(1)] disk_paths [OF assms(2)] by (simp add: HasPrefix_def)

theorem disk_path_isolation_witness: "image_path ''a'' \<noteq> image_path ''b'' \<and> workspace_dir ''a'' \<noteq> workspace_dir ''b''"
  using disk_path_isolation [of "''a''" "''b''"] by simp

lemma workspace_escapes:
  assumes "es \<noteq> []" "\<forall>e \<in> set es. plain e"
  shows "workspace_dir (''x/../../'' @ join_with ''/'' es) = abs_path es"
  using Join_escapes [OF _ _ assms, of "''tmp''" "''workspace-''"]
  unfolding workspace_dir_def tmp_abs by (simp add: plain_def)

text \<open>
  An id with slashes is not confined: when the id is \<open>x/../../d1/.../dn\<close> and passes
  the validation, \<open>CreateSubmissionImage\<close> removes the directory \<open>/d1/.../dn\<close> of the host
  with everything in it.
\<close>

lemma submission_id_escapes:
  assumes "es \<noteq> []" "\<forall>e \<in> set es. plain e" "SubmissionID cfg = ''x/../../'' @ join_with ''/'' es"
    and "fst (run_state (validateSubmissionImageConfig E cfg) h) = None"
  shows "\<exists>ok. (RemoveAll (abs_path es), ok) \<in> set (snd (run_state (CreateSubmissionImage E c order cfg) h))"
proof -
  let ?img = "image_path (SubmissionID cfg)" and ?ws = "abs_path es"
  have ws: "workspace_dir (SubmissionID cfg) = ?ws" unfolding assms(3) by (rule workspace_escapes [OF assms(1,2)])
  let ?rest = "and_then (call_err E (Remove ?img))
          (if_err (call_err E (MkdirAll ?ws))
            (\<lambda>err. ret (Inl (wrap_err ''failed creating workspace directory'' err)))
            (deferring (call_err E (RemoveAll ?ws)) (prepare_workspace E c order cfg ?ws ?img)))"
  have "adds unmounted ?rest" by (intro unmounts.intros prepare_unmounts) simp_all
  moreover obtain h1 where h1: "run_state (validateSubmissionImageConfig E cfg) h = (None, h1)"
    using assms(4) by (metis prod.collapse)
  ultimately obtain l where
    "snd (run_state ?rest (h1 @ [(RemoveAll ?ws, env_err E h1 (RemoveAll ?ws) = None)]))
      = (h1 @ [(RemoveAll ?ws, env_err E h1 (RemoveAll ?ws) = None)]) @ l" by (rule_tac addsE)
  then have "snd (run_state (CreateSubmissionImage E c order cfg) h)
      = (h1 @ [(RemoveAll ?ws, env_err E h1 (RemoveAll ?ws) = None)]) @ l"
    using h1 by (simp add: CreateSubmissionImage_def Let_def ws)
  then show ?thesis by auto
qed

end
