(* ===== verification/Sdk_Calls.thy ===== *)
theory Sdk_Calls
  imports Go_OS "HOL-Library.Word"
begin

text \<open>
  The libraries that the orchestrator drives and that are not part of the repository: the
  Firecracker SDK, netlink and the eBPF loader. Each operation is a call whose answer the
  environment gives; handles (machines, loaded objects, links) are the integers that the
  calls return.
\<close>

section \<open>Firecracker\<close>

record fc_drive =
  DriveID :: string
  PathOnHost :: string
  IsRootDevice :: bool
  IsReadOnly :: bool

record fc_config =
  fc_SocketPath :: string
  fc_KernelImagePath :: string
  fc_Drives :: "fc_drive list"
  fc_MacAddress :: string
  fc_HostDevName :: string
  fc_VsockID :: string
  fc_VsockPath :: string
  fc_VsockCID :: "32 word"
  fc_VcpuCount :: int
  fc_MemSizeMib :: int
  fc_KernelArgs :: string

text \<open>The two hooks of a \<open>clsact\<close> qdisc: the TCX attach types and the netlink parents.\<close>

datatype hook = Egress | Ingress

text \<open>
  \<open>StartWithin\<close> is the \<open>select\<close> between the result of \<open>machine.Start\<close> and the boot
  deadline: an error, started, or too late. \<open>NextCore\<close> is the atomic counter
  \<open>vmCoreIndex\<close>. \<open>FilterAdd\<close> and \<open>FilterDel\<close> name the interface and the parent; handle,
  protocol and priority are the same constants in every call. \<open>LoadObjects\<close> has the pin
  directory, empty for none.
\<close>

datatype sdk_call = NewMachine fc_config string | StartWithin int | StopVMM int | MachinePID int
  | NextCore
  | InterfaceByName string | LinkByIndex int | QdiscList int | QdiscAdd int string
  | LoadObjects string | CloseObjects int | LookupDrops int
  | AttachTCX int int hook | CloseLink int
  | FilterAdd int int hook | FilterDel int hook

end
