(* ===== verification/Firecracker.thy ===== *)
theory Firecracker
  imports Disk Sdk_Calls
begin

text \<open>
  \<open>services/sandbox-orchestrator/firecracker.go\<close>: building a microVM's configuration,
  booting it, pinning its process to a core and limiting it with a cgroup. The Firecracker
  SDK is not part of the repository: its operations are calls whose answers the
  environment gives. A machine is the handle that \<open>NewMachine\<close> returned.
\<close>

section \<open>Configuration\<close>

record VMConfig =
  VMID :: string
  VCPUCount :: int
  MemoryMiB :: int
  KernelImagePath :: string
  FirecrackerBin :: string
  SocketDir :: string
  TapName :: string
  AllocatedIP :: string
  SubmissionDisk :: string
  VsockPath :: string
  CID :: "32 word"

definition mustParseInt :: "string \<Rightarrow> int" where
  "mustParseInt s = (case Atoi s of None \<Rightarrow> 2 | Some n \<Rightarrow> n)"

text \<open>The verb \<open>%02x\<close> on an \<open>int\<close>.\<close>

definition fmt_02x :: "int \<Rightarrow> string" where
  "fmt_02x n = (if n < 0 then ''-'' @ fmt_hex 1 (nat (- n)) else fmt_hex 2 (nat n))"

definition dynamicMac :: "string \<Rightarrow> string" where
  "dynamicMac ip =
     (let ipParts = split_on CHR ''.'' ip;
          lastOctet = (if length ipParts = 4 then fmt_02x (mustParseInt (ipParts ! 3)) else ''02'')
      in ''AA:FC:00:00:00:'' @ lastOctet)"

definition socket_path :: "VMConfig \<Rightarrow> string" where
  "socket_path cfg = path_Join [SocketDir cfg, ''firecracker-'' @ VMID cfg @ ''.sock'']"

definition vsock_path :: "VMConfig \<Rightarrow> string" where
  "vsock_path cfg = path_Join [SocketDir cfg, ''vsock-'' @ VMID cfg @ ''.sock'']"

definition fc_config_of :: "VMConfig \<Rightarrow> fc_config" where
  "fc_config_of cfg =
     \<lparr>fc_SocketPath = socket_path cfg, fc_KernelImagePath = KernelImagePath cfg,
      fc_Drives =
        [\<lparr>DriveID = ''rootfs'', PathOnHost = ''../../sandbox/rootfs.ext4'', IsRootDevice = True, IsReadOnly = True\<rparr>,
         \<lparr>DriveID = ''submission'', PathOnHost = SubmissionDisk cfg, IsRootDevice = False, IsReadOnly = False\<rparr>],
      fc_MacAddress = dynamicMac (AllocatedIP cfg), fc_HostDevName = TapName cfg,
      fc_VsockID = ''vsock0'', fc_VsockPath = vsock_path cfg, fc_VsockCID = CID cfg,
      fc_VcpuCount = VCPUCount cfg, fc_MemSizeMib = MemoryMiB cfg,
      fc_KernelArgs = join_with '' ''
        [''console=ttyS0'', ''reboot=k'', ''panic=1'', ''pci=off'', ''root=/dev/vda'', ''rw'',
         ''ip='' @ AllocatedIP cfg @ ''::172.16.0.1:255.255.255.0:microvm-'' @ VMID cfg @ '':eth0:off'',
         ''init=/init'']\<rparr>"

definition validateConfig :: "VMConfig \<Rightarrow> gerr option" where
  "validateConfig cfg =
     (if VMID cfg = '''' then Some (errors_New ''vm_id is required'')
      else if VCPUCount cfg \<le> 0 then Some (errors_New ''vcpu_count must be greater than 0'')
      else if MemoryMiB cfg \<le> 0 then Some (errors_New ''memory_mib must be greater than 0'')
      else if KernelImagePath cfg = '''' then Some (errors_New ''kernel_image_path is required'')
      else if FirecrackerBin cfg = '''' then Some (errors_New ''firecracker_bin is required'')
      else if SocketDir cfg = '''' then Some (errors_New ''socket_dir is required'')
      else None)"

section \<open>Pinning and limits\<close>

text \<open>
  \<open>atomic.AddUint32(&vmCoreIndex, 1) - 1\<close>: the number of earlier increments, as a
  \<open>uint32\<close>.
\<close>

definition next_core :: "(sdk_call, 32 word) io" where
  "next_core = State (\<lambda>h. (of_nat (length (filter (\<lambda>e. fst e = Sdk NextCore) h)), h @ [(Sdk NextCore, True)]))"

fun pin_threads :: "sdk_call env \<Rightarrow> string \<Rightarrow> string list \<Rightarrow> (sdk_call, unit) io" where
  "pin_threads E cores [] = ret ()"
| "pin_threads E cores (tid # tids) =
     and_then (call_cmd E Background ''taskset'' [''-pc'', cores, tid]) (pin_threads E cores tids)"

definition pin_to :: "sdk_call env \<Rightarrow> int \<Rightarrow> string \<Rightarrow> (sdk_call, gerr option) io" where
  "pin_to E machine cores =
     with_val (call_str E (LookPath ''taskset''))
       (\<lambda>err. fails (wrap_err ''taskset not found in PATH (install util-linux)'' err))
     (\<lambda>_. with_val (call_int E (Sdk (MachinePID machine)))
       (\<lambda>err. fails (wrap_err ''failed getting Firecracker PID'' err))
     (\<lambda>pid. if pid \<le> 0 then fails (errors_New (''invalid Firecracker PID: '' @ Itoa pid))
       else State_Monad.bind (call_cmd E Background ''taskset'' [''-pc'', cores, Itoa pid]) (\<lambda>(out, err).
         case err of
           Some e \<Rightarrow> fails (wrap_err (''taskset failed pid='' @ Itoa pid @ '' cores='' @ cores @
                              '' output='' @ out) e)
         | None \<Rightarrow>
             with_val (call_names E (ReadDir (''/proc/'' @ Itoa pid @ ''/task'')))
               (\<lambda>_. ret None)
               (\<lambda>entries. and_then (pin_threads E cores entries) (ret None)))))"

definition pinFirecrackerProcess :: "sdk_call env \<Rightarrow> int \<Rightarrow> (sdk_call, gerr option) io" where
  "pinFirecrackerProcess E machine =
     with_val (call_str E (Getenv ''FC_VCPU_CORES'')) (\<lambda>_. ret None) (\<lambda>cores0.
       if cores0 = '''' then ret None
       else State_Monad.bind next_core (\<lambda>idx.
         let coreList = split_on CHR '','' cores0
         in pin_to E machine (TrimSpace (coreList ! unat (idx mod of_nat (length coreList))))))"

definition applyCgroupLimits :: "sdk_call env \<Rightarrow> int \<Rightarrow> string \<Rightarrow> (sdk_call, gerr option) io" where
  "applyCgroupLimits E machine vmID =
     with_val (call_int E (Sdk (MachinePID machine)))
       (\<lambda>err. fails (errors_New (''invalid PID: '' @ err_msg err)))
     (\<lambda>pid. if pid \<le> 0 then fails (errors_New ''invalid PID: <nil>'')
       else let cgroupDir = ''/sys/fs/cgroup/hft-bench/vm-'' @ vmID
         in if_err (call_err E (MkdirAll cgroupDir))
              (\<lambda>err. fails (wrap_err ''failed creating cgroup directory'' err))
           (if_err (call_err E (WriteFile (cgroupDir @ ''/cpu.max'') ''100000 100000''))
              (\<lambda>err. fails (wrap_err ''failed setting cpu.max'' err))
           (if_err (call_err E (WriteFile (cgroupDir @ ''/memory.max'') ''268435456''))
              (\<lambda>err. fails (wrap_err ''failed setting memory.max'' err))
           (if_err (call_err E (WriteFile (cgroupDir @ ''/cgroup.procs'') (Itoa pid)))
              (\<lambda>err. fails (wrap_err ''failed moving process to cgroup'' err))
           (ret None)))))"

section \<open>Booting\<close>

text \<open>The event counts as a success when the machine has started in time.\<close>

definition start_machine :: "sdk_call env \<Rightarrow> int \<Rightarrow> (sdk_call, bool result) io" where
  "start_machine E machine = perform (env_bool E) (\<lambda>r. r = Inr True) (Sdk (StartWithin machine))"

text \<open>Start a machine, and make the best of pinning and limits.\<close>

definition boot_machine :: "sdk_call env \<Rightarrow> VMConfig \<Rightarrow> int \<Rightarrow> (sdk_call, (int \<times> string) result) io" where
  "boot_machine E cfg machine =
     with_val (start_machine E machine)
       (\<lambda>err. ret (Inl (wrap_err (''failed starting machine vm_id='' @ VMID cfg) err)))
     (\<lambda>started.
       if \<not> started then
         and_then (call_err E (Sdk (StopVMM machine)))
           (ret (Inl (errors_New (''timeout starting machine vm_id='' @ VMID cfg))))
       else
         and_then (pinFirecrackerProcess E machine)
         (and_then (applyCgroupLimits E machine (VMID cfg))
         (ret (Inr (machine, vsock_path cfg)))))"

text \<open>From the configuration on: build a machine and start it.\<close>

definition boot_start :: "sdk_call env \<Rightarrow> VMConfig \<Rightarrow> (sdk_call, (int \<times> string) result) io" where
  "boot_start E cfg =
     and_then (call_err E (OpenFile ''/tmp/firecracker-debug.log''))
     (with_val (call_int E (Sdk (NewMachine (fc_config_of cfg) (FirecrackerBin cfg))))
       (\<lambda>err. ret (Inl (wrap_err (''failed creating machine vm_id='' @ VMID cfg) err)))
     (boot_machine E cfg))"

text \<open>The result is the machine, and the socket path that the code stores in its argument.\<close>

definition CreateAndBootVM :: "sdk_call env \<Rightarrow> VMConfig \<Rightarrow> (sdk_call, (int \<times> string) result) io" where
  "CreateAndBootVM E cfg =
     (case validateConfig cfg of
        Some err \<Rightarrow> ret (Inl err)
      | None \<Rightarrow>
        and_then (call_err E (Remove (vsock_path cfg)))
        (if_err (call_err E (Remove (socket_path cfg)))
          (\<lambda>err. if is_not_exist err then boot_start E cfg
                 else ret (Inl (wrap_err (''failed removing stale socket '' @ socket_path cfg) err)))
          (boot_start E cfg)))"

section \<open>Outcomes of a boot\<close>

lemma run_start [simp]:
  "run_state (start_machine E m) h
    = (env_bool E h (Sdk (StartWithin m)), h @ [(Sdk (StartWithin m), env_bool E h (Sdk (StartWithin m)) = Inr True)])"
  by (simp add: start_machine_def)

text \<open>Pinning and limiting neither build nor start nor stop machines.\<close>

fun machine_call :: "sdk_call host_call \<Rightarrow> bool" where
  "machine_call (Sdk (NewMachine c b)) = True"
| "machine_call (Sdk (StartWithin m)) = True"
| "machine_call (Sdk (StopVMM m)) = True"
| "machine_call c = False"

definition no_machine :: "sdk_call host_call \<times> bool \<Rightarrow> bool" where
  "no_machine e \<longleftrightarrow> \<not> machine_call (fst e)"

lemma no_machine_simp [simp]: "no_machine (c, b) \<longleftrightarrow> \<not> machine_call c"
  by (simp add: no_machine_def)

lemma pin_threads_adds: "adds (list_all no_machine) (pin_threads E cores tids)"
  by (induction tids) (auto intro!: every.intros)

lemma next_core_adds: "adds (list_all no_machine) next_core"
  unfolding adds_def next_core_def by simp

lemma pin_adds: "adds (list_all no_machine) (pinFirecrackerProcess E m)"
  unfolding pinFirecrackerProcess_def pin_to_def Let_def
  by (intro every.intros pin_threads_adds next_core_adds) simp_all

lemma limits_adds: "adds (list_all no_machine) (applyCgroupLimits E m vmID)"
  unfolding applyCgroupLimits_def Let_def by (intro every.intros) simp_all

text \<open>
  How a machine that has been built fails to start, by the answer of the \<open>select\<close>: an
  error of \<open>machine.Start\<close> is passed on; a machine that missed the deadline is told to
  stop.
\<close>

definition start_failure :: "VMConfig \<Rightarrow> bool result \<Rightarrow> int \<Rightarrow> gerr \<Rightarrow> sdk_call history \<Rightarrow> bool" where
  "start_failure cfg answer m err t \<longleftrightarrow>
     (case answer of
        Inl e \<Rightarrow> err = wrap_err (''failed starting machine vm_id='' @ VMID cfg) e \<and> t = []
      | Inr started \<Rightarrow> \<not> started \<and> err = errors_New (''timeout starting machine vm_id='' @ VMID cfg) \<and>
          (\<exists>d. t = [(Sdk (StopVMM m), d)]))"

text \<open>
  The trace of a boot: stale sockets removed, then at most one machine built, which is
  started last of all but pinning and limits.
\<close>

definition boot_trace ::
  "sdk_call env \<Rightarrow> sdk_call history \<Rightarrow> VMConfig \<Rightarrow> (int \<times> string) result \<Rightarrow> sdk_call history \<Rightarrow> bool" where
  "boot_trace E h cfg r l \<longleftrightarrow>
     (let new = Sdk (NewMachine (fc_config_of cfg) (FirecrackerBin cfg))
      in case r of
        Inr (m, vp) \<Rightarrow> vp = vsock_path cfg \<and>
          (\<exists>k t. l = k @ [(new, True), (Sdk (StartWithin m), True)] @ t \<and> list_all no_machine k \<and> list_all no_machine t)
      | Inl err \<Rightarrow>
          list_all no_machine l \<or>
          (\<exists>k. l = k @ [(new, False)] \<and> list_all no_machine k) \<or>
          (\<exists>k m t. l = k @ [(new, True), (Sdk (StartWithin m), False)] @ t \<and> list_all no_machine k \<and>
             start_failure cfg (env_bool E (h @ k @ [(new, True)]) (Sdk (StartWithin m))) m err t))"

lemma boot_trace_intros:
  assumes "list_all no_machine k"
  shows boot_trace_quiet: "boot_trace E h cfg (Inl e) k"
    and boot_trace_unbuilt:
      "boot_trace E h cfg (Inl e) (k @ [(Sdk (NewMachine (fc_config_of cfg) (FirecrackerBin cfg)), False)])"
    and boot_trace_failed:
      "start_failure cfg (env_bool E (h @ k @ [(Sdk (NewMachine (fc_config_of cfg) (FirecrackerBin cfg)), True)])
         (Sdk (StartWithin m))) m e t \<Longrightarrow>
       boot_trace E h cfg (Inl e) (k @ [(Sdk (NewMachine (fc_config_of cfg) (FirecrackerBin cfg)), True),
         (Sdk (StartWithin m), False)] @ t)"
    and boot_trace_started:
      "list_all no_machine t \<Longrightarrow>
       boot_trace E h cfg (Inr (m, vsock_path cfg)) (k @ [(Sdk (NewMachine (fc_config_of cfg) (FirecrackerBin cfg)), True),
         (Sdk (StartWithin m), True)] @ t)"
  unfolding boot_trace_def Let_def sum.case prod.case using assms by blast+

lemma boot_start_run:
  assumes "list_all no_machine k"
  shows "\<exists>r l. run_state (boot_start E cfg) (h @ k) = (r, h @ l) \<and> boot_trace E h cfg r l"
proof -
  let ?new = "Sdk (NewMachine (fc_config_of cfg) (FirecrackerBin cfg))"
  define k' where "k' = k @ [(OpenFile ''/tmp/firecracker-debug.log'',
    env_err E (h @ k) (OpenFile ''/tmp/firecracker-debug.log'') = None)]"
  have k': "list_all no_machine k'" using assms by (simp add: k'_def)
  have run: "run_state (boot_start E cfg) (h @ k) = run_state
      (with_val (call_int E (Sdk (NewMachine (fc_config_of cfg) (FirecrackerBin cfg))))
       (\<lambda>err. ret (Inl (wrap_err (''failed creating machine vm_id='' @ VMID cfg) err)))
       (boot_machine E cfg)) (h @ k')"
    by (simp add: boot_start_def k'_def)
  show ?thesis
  proof (cases "env_int E (h @ k') ?new")
    case (Inl err)
    then show ?thesis unfolding run using boot_trace_unbuilt [OF k', of E h cfg]
      by (auto simp: append_assoc)
  next
    case (Inr m)
    let ?h2 = "h @ k' @ [(?new, True)]"
    have run2: "run_state (boot_start E cfg) (h @ k) = run_state (boot_machine E cfg m) ?h2"
      unfolding run by (simp add: Inr)
    show ?thesis
    proof (cases "env_bool E ?h2 (Sdk (StartWithin m))" rule: bool_result_cases)
      case (1 err)
      then have "start_failure cfg (env_bool E ?h2 (Sdk (StartWithin m))) m
        (wrap_err (''failed starting machine vm_id='' @ VMID cfg) err) []" by (simp add: start_failure_def)
      from boot_trace_failed [OF k' this] show ?thesis unfolding run2 using 1
        by (auto simp: boot_machine_def)
    next
      case 2
      then have "start_failure cfg (env_bool E ?h2 (Sdk (StartWithin m))) m
        (errors_New (''timeout starting machine vm_id='' @ VMID cfg)) [(Sdk (StopVMM m), d)]" for d
        by (simp add: start_failure_def)
      from boot_trace_failed [OF k' this] show ?thesis unfolding run2 using 2
        by (auto simp: boot_machine_def)
    next
      case 3
      let ?h3 = "h @ k' @ [(?new, True), (Sdk (StartWithin m), True)]"
      obtain t1 where t1: "snd (run_state (pinFirecrackerProcess E m) ?h3) = ?h3 @ t1" "list_all no_machine t1"
        by (rule addsE [OF pin_adds])
      obtain t2 where t2: "snd (run_state (applyCgroupLimits E m (VMID cfg)) (?h3 @ t1)) = (?h3 @ t1) @ t2"
        "list_all no_machine t2" by (rule addsE [OF limits_adds])
      have "run_state (boot_machine E cfg m) ?h2 = (Inr (m, vsock_path cfg),
          h @ (k' @ [(?new, True), (Sdk (StartWithin m), True)] @ t1 @ t2))"
        using 3 t1(1) t2(1) by (simp add: boot_machine_def)
      then show ?thesis unfolding run2
        using boot_trace_started [OF k', of "t1 @ t2" E h cfg m] t1(2) t2(2) by auto
    qed
  qed
qed

lemma boot_run: "\<exists>r l. run_state (CreateAndBootVM E cfg) h = (r, h @ l) \<and> boot_trace E h cfg r l"
proof (cases "validateConfig cfg")
  case (Some err)
  then show ?thesis by (auto simp: CreateAndBootVM_def boot_trace_def)
next
  case None
  define b1 where "b1 = (env_err E h (Remove (vsock_path cfg)) = None)"
  let ?h1 = "h @ [(Remove (vsock_path cfg), b1)]"
  let ?e = "env_err E ?h1 (Remove (socket_path cfg))"
  let ?k = "[(Remove (vsock_path cfg), b1), (Remove (socket_path cfg), ?e = None)]"
  have eq: "run_state (CreateAndBootVM E cfg) h = run_state
      (case ?e of None \<Rightarrow> boot_start E cfg
       | Some err \<Rightarrow> if is_not_exist err then boot_start E cfg
         else ret (Inl (wrap_err (''failed removing stale socket '' @ socket_path cfg) err))) (h @ ?k)"
    by (auto simp: CreateAndBootVM_def None b1_def split: option.split)
  obtain r l where "run_state (boot_start E cfg) (h @ ?k) = (r, h @ l)" "boot_trace E h cfg r l"
    using boot_start_run [of ?k E cfg h] by auto
  moreover have "list_all no_machine ?k" by simp
  ultimately show ?thesis unfolding eq by (cases ?e) (auto simp: boot_trace_def)
qed


text \<open>The events of a trace that concern machines.\<close>

definition machine_events :: "sdk_call history \<Rightarrow> sdk_call history" where
  "machine_events l = filter (\<lambda>e. machine_call (fst e)) l"

lemma machine_events_simps [simp]:
  "machine_events [] = []"
  "machine_events (k @ l) = machine_events k @ machine_events l"
  "machine_events ((c, b) # l) = (if machine_call c then [(c, b)] else []) @ machine_events l"
  by (simp_all add: machine_events_def)

lemma machine_events_none: "list_all no_machine k \<Longrightarrow> machine_events k = []"
  by (induction k) (auto simp: machine_events_def no_machine_def)

section \<open>Addresses of the guests\<close>

lemma split_on_ip:
  assumes "1 \<le> i"
  shows "split_on CHR ''.'' (''172.16.0.'' @ Itoa i) = [''172'', ''16'', ''0'', Itoa i]"
proof -
  have "Itoa i = map digit_char (nat_digits 10 (nat i))" using assms by (simp add: Itoa_def)
  then show ?thesis using split_on_none [OF digits_no_dot] by simp
qed

lemma mac_of_index:
  assumes "1 \<le> i" "i \<le> 254"
  shows "dynamicMac (''172.16.0.'' @ Itoa i) = ''AA:FC:00:00:00:'' @ fmt_hex 2 (nat i)"
proof -
  have "Atoi (Itoa i) = Some i" using Atoi_Itoa_nat [of "nat i"] assms by simp
  with assms show ?thesis
    by (simp add: dynamicMac_def Let_def split_on_ip [simplified] mustParseInt_def fmt_02x_def)
qed

lemma fmt_hex_two:
  assumes "n < 256"
  shows "fmt_hex 2 n = [digit_char (n div 16), digit_char (n mod 16)]"
proof (cases "n < 16")
  case True
  then have "nat_digits 16 n = [n]" by (subst nat_digits.simps) simp
  moreover have "digit_char 0 = CHR ''0''" by (simp add: digit_char_def)
  ultimately show ?thesis using True by (simp add: fmt_hex_def pad_zero_def)
next
  case False
  then have "nat_digits 16 (n div 16) = [n div 16]" using assms by (subst nat_digits.simps) auto
  moreover have "nat_digits 16 n = nat_digits 16 (n div 16) @ [n mod 16]"
    using False by (subst nat_digits.simps) simp
  ultimately show ?thesis by (simp add: fmt_hex_def pad_zero_def)
qed

lemma fmt_hex_two_inj: "m < 256 \<Longrightarrow> n < 256 \<Longrightarrow> fmt_hex 2 m = fmt_hex 2 n \<Longrightarrow> m = n"
proof -
  assume a: "m < 256" "n < 256" "fmt_hex 2 m = fmt_hex 2 n"
  then have "m div 16 = n div 16" "m mod 16 = n mod 16"
    by (auto simp: fmt_hex_two intro!: digit_char_inj)
  then show "m = n" by (metis div_mod_decomp)
qed


section \<open>Cores\<close>

text \<open>Every \<open>taskset\<close> of a trace names the given cores.\<close>

abbreviation pins_to :: "string \<Rightarrow> 'x host_call \<times> bool \<Rightarrow> bool" where
  "pins_to cores e \<equiv> \<forall>c args. fst e = Command c ''taskset'' args \<longrightarrow> args ! 1 = cores"

lemma pin_threads_pins: "adds (list_all (pins_to cores)) (pin_threads E cores tids)"
  by (induction tids) (auto intro!: every.intros)

lemma pin_to_pins: "adds (list_all (pins_to cores)) (pin_to E m cores)"
  unfolding pin_to_def by (intro every.intros pin_threads_pins) simp_all

text \<open>The value of the \<open>uint32\<close> counter after a history.\<close>

definition core_index :: "sdk_call history \<Rightarrow> nat" where
  "core_index h = length (filter (\<lambda>e. fst e = Sdk NextCore) h) mod 2 ^ 32"

lemma core_index_word:
  assumes "length (filter (\<lambda>e. fst e = Sdk NextCore) h) = n" "k < 2 ^ 32"
  shows "unat ((of_nat n :: 32 word) mod of_nat k) = core_index h mod k"
  using assms by (simp add: core_index_def unat_mod unat_of_nat take_bit_eq_mod)

section \<open>Properties\<close>

text \<open>
  C10. The outcome of a boot, whatever the host answers. An invalid configuration calls
  nothing. A success built exactly one machine, from the configuration of the request,
  started it in time and reports its vsock path. After an error no machine was built, or
  \<open>NewMachine\<close> was the call that failed, or the one machine built did not start: when
  \<open>Start\<close> failed, its error is passed on and the machine is not touched any more; when it
  missed the deadline, it was told to stop, exactly once, and the error says so.
\<close>

theorem boot_outcome:
  assumes "run_state (CreateAndBootVM E cfg) h = (r, h @ l)"
  shows "(case r of
      Inr (m, vp) \<Rightarrow> vp = vsock_path cfg \<and> machine_events l =
        [(Sdk (NewMachine (fc_config_of cfg) (FirecrackerBin cfg)), True), (Sdk (StartWithin m), True)]
    | Inl err \<Rightarrow> machine_events l = [] \<or>
        machine_events l = [(Sdk (NewMachine (fc_config_of cfg) (FirecrackerBin cfg)), False)] \<or>
        (\<exists>k m t. l = k @ [(Sdk (NewMachine (fc_config_of cfg) (FirecrackerBin cfg)), True),
             (Sdk (StartWithin m), False)] @ t \<and> machine_events k = [] \<and>
           (case env_bool E (h @ k @ [(Sdk (NewMachine (fc_config_of cfg) (FirecrackerBin cfg)), True)])
               (Sdk (StartWithin m)) of
              Inl e \<Rightarrow> err = wrap_err (''failed starting machine vm_id='' @ VMID cfg) e \<and> t = []
            | Inr started \<Rightarrow> \<not> started \<and> err = errors_New (''timeout starting machine vm_id='' @ VMID cfg) \<and>
                (\<exists>d. t = [(Sdk (StopVMM m), d)])))) \<and>
    (validateConfig cfg \<noteq> None \<longrightarrow> r = Inl (the (validateConfig cfg)) \<and> l = [])"
proof (rule conjI)
  have t: "boot_trace E h cfg r l" using boot_run [of E cfg h] assms by auto
  show "case r of
      Inr (m, vp) \<Rightarrow> vp = vsock_path cfg \<and> machine_events l =
        [(Sdk (NewMachine (fc_config_of cfg) (FirecrackerBin cfg)), True), (Sdk (StartWithin m), True)]
    | Inl err \<Rightarrow> machine_events l = [] \<or>
        machine_events l = [(Sdk (NewMachine (fc_config_of cfg) (FirecrackerBin cfg)), False)] \<or>
        (\<exists>k m t. l = k @ [(Sdk (NewMachine (fc_config_of cfg) (FirecrackerBin cfg)), True),
             (Sdk (StartWithin m), False)] @ t \<and> machine_events k = [] \<and>
           (case env_bool E (h @ k @ [(Sdk (NewMachine (fc_config_of cfg) (FirecrackerBin cfg)), True)])
               (Sdk (StartWithin m)) of
              Inl e \<Rightarrow> err = wrap_err (''failed starting machine vm_id='' @ VMID cfg) e \<and> t = []
            | Inr started \<Rightarrow> \<not> started \<and> err = errors_New (''timeout starting machine vm_id='' @ VMID cfg) \<and>
                (\<exists>d. t = [(Sdk (StopVMM m), d)])))"
  proof (cases r)
    case (Inr p)
    with t show ?thesis by (cases p) (auto simp: boot_trace_def machine_events_none)
  next
    case (Inl e)
    from t have "list_all no_machine l \<or>
        (\<exists>k. l = k @ [(Sdk (NewMachine (fc_config_of cfg) (FirecrackerBin cfg)), False)] \<and> list_all no_machine k) \<or>
        (\<exists>k m t. l = k @ [(Sdk (NewMachine (fc_config_of cfg) (FirecrackerBin cfg)), True),
            (Sdk (StartWithin m), False)] @ t \<and> list_all no_machine k \<and>
          start_failure cfg (env_bool E (h @ k @ [(Sdk (NewMachine (fc_config_of cfg) (FirecrackerBin cfg)), True)])
            (Sdk (StartWithin m))) m e t)"
      unfolding Inl boot_trace_def Let_def by simp
    then show ?thesis unfolding Inl sum.case start_failure_def
      using machine_events_none by (elim disjE exE conjE) (simp, simp, blast)
  qed
  show "validateConfig cfg \<noteq> None \<longrightarrow> r = Inl (the (validateConfig cfg)) \<and> l = []"
    using assms by (auto simp: CreateAndBootVM_def)
qed

text \<open>A request as the orchestrator makes it, and a host whose machines start in time.\<close>

definition demo_vm :: VMConfig where
  "demo_vm = \<lparr>VMID = ''vm1'', VCPUCount = 1, MemoryMiB = 128, KernelImagePath = ''k'', FirecrackerBin = ''fc'',
     SocketDir = ''/run'', TapName = ''tap1'', AllocatedIP = ''172.16.0.2'', SubmissionDisk = ''/tmp/a.ext4'',
     VsockPath = '''', CID = 12\<rparr>"

definition boot_env :: "sdk_call env" where
  "boot_env = quiet_env\<lparr>env_bool := \<lambda>_ _. Inr True\<rparr>"

theorem boot_outcome_witness:
  "\<exists>l. snd (run_state (CreateAndBootVM boot_env demo_vm) []) = l \<and>
    fst (run_state (CreateAndBootVM boot_env demo_vm) []) = Inr (1, vsock_path demo_vm) \<and>
    machine_events l =
      [(Sdk (NewMachine (fc_config_of demo_vm) ''fc''), True), (Sdk (StartWithin 1), True)]"
proof -
  obtain r l where r: "run_state (CreateAndBootVM boot_env demo_vm) [] = (r, [] @ l)" by fastforce
  moreover have "r = Inr (1, vsock_path demo_vm)"
    using r by (auto simp: CreateAndBootVM_def boot_start_def boot_machine_def validateConfig_def demo_vm_def
        boot_env_def quiet_env_def split: if_splits)
  ultimately show ?thesis using boot_outcome [OF r] by (simp add: demo_vm_def)
qed

text \<open>
  The MAC address of a guest is derived from the last octet of its IP address, and
  two guests of the subnet with different addresses have different MAC addresses.
\<close>

theorem mac_addresses_distinct:
  assumes "i \<in> {1..254}" "j \<in> {1..254}" "GenerateIPFromIndex i = Inr a" "GenerateIPFromIndex j = Inr b"
    "a \<noteq> b"
  shows "dynamicMac a \<noteq> dynamicMac b"
proof -
  have "a = ''172.16.0.'' @ Itoa i" "b = ''172.16.0.'' @ Itoa j" using assms(1-4) GenerateIP_ok by simp_all
  moreover have "nat i < 256" "nat j < 256" using assms(1, 2) by auto
  ultimately show ?thesis
    using assms(1, 2, 5) fmt_hex_two_inj [of "nat i" "nat j"] by (auto simp: mac_of_index [simplified] eq_nat_nat_iff)
qed

theorem mac_addresses_distinct_witness: "dynamicMac ''172.16.0.2'' \<noteq> dynamicMac ''172.16.0.3''"
proof -
  have n: "Itoa 2 = ''2''" "Itoa 3 = ''3''"
    by (simp_all add: Itoa_def nat_digits.simps digit_char_def)
  have "GenerateIPFromIndex 2 = Inr ''172.16.0.2''" "GenerateIPFromIndex 3 = Inr ''172.16.0.3''"
    using GenerateIP_ok [of 2] GenerateIP_ok [of 3] n by simp_all
  from mac_addresses_distinct [OF _ _ this] show ?thesis by simp
qed

text \<open>
  Round robin over \<open>FC_VCPU_CORES\<close>: every \<open>taskset\<close> of a pinning, for the process
  and for its threads, names the element of the list whose index is the number of
  pinnings so far, a \<open>uint32\<close> that wraps around, modulo the length of the list.
\<close>

theorem pinned_round_robin:
  assumes "env_str E h (Getenv ''FC_VCPU_CORES'') = Inr cores" "cores \<noteq> ''''"
    "n = length (split_on CHR '','' cores)" "n < 2 ^ 32"
    "run_state (pinFirecrackerProcess E m) h = (r, h @ l)"
    "(Command c ''taskset'' args, b) \<in> set l"
  shows "args ! 1 = TrimSpace (split_on CHR '','' cores ! (core_index h mod n))"
proof -
  let ?g = "(Getenv ''FC_VCPU_CORES'', True)"
  let ?i = "(Sdk NextCore, True)"
  let ?to = "TrimSpace (split_on CHR '','' cores ! (core_index h mod n))"
  have k: "unat ((of_nat (length (filter (\<lambda>e. fst e = Sdk NextCore) h)) :: 32 word) mod of_nat n)
      = core_index h mod n" using assms(4) by (intro core_index_word) simp_all
  have "h @ l = snd (run_state (pin_to E m ?to) (h @ [?g, ?i]))"
    using assms(1, 2, 5) k unfolding assms(3)
    by (simp add: pinFirecrackerProcess_def next_core_def Let_def)
  moreover obtain l' where "snd (run_state (pin_to E m ?to) (h @ [?g, ?i])) = (h @ [?g, ?i]) @ l'"
      "list_all (pins_to ?to) l'" by (rule addsE [OF pin_to_pins])
  ultimately have "l = [?g, ?i] @ l'" "list_all (pins_to ?to) l'" by simp_all
  with assms(6) show ?thesis by (auto simp: list_all_iff)
qed

definition cores_env :: "sdk_call env" where
  "cores_env = quiet_env\<lparr>env_str := \<lambda>_ _. Inr ''2,3''\<rparr>"

theorem pinned_round_robin_witness:
  "(Command Background ''taskset'' [''-pc'', ''3'', ''1''], True)
     \<in> set (snd (run_state (pinFirecrackerProcess cores_env 7) [(Sdk NextCore, True)])) \<and>
   TrimSpace (split_on CHR '','' ''2,3'' ! (core_index [(Sdk NextCore, True)] mod 2)) = ''3''"
proof -
  let ?h = "[(Sdk NextCore, True)] :: sdk_call history"
  have t: "TrimSpace ''3'' = ''3''" by (rule TrimSpace_visible) simp_all
  have i: "Itoa 1 = ''1''" by (simp add: Itoa_def nat_digits.simps digit_char_def)
  let ?l = "[(Getenv ''FC_VCPU_CORES'', True), (Sdk NextCore, True), (LookPath ''taskset'', True),
    (Sdk (MachinePID 7), True), (Command Background ''taskset'' [''-pc'', ''3'', ''1''], True),
    (ReadDir ''/proc/1/task'', True)]"
  have r: "run_state (pinFirecrackerProcess cores_env 7) ?h = (None, ?h @ ?l)"
    by (simp add: pinFirecrackerProcess_def pin_to_def next_core_def cores_env_def quiet_env_def i t Let_def)
  have "[''-pc'', ''3'', ''1''] ! 1 = TrimSpace (split_on CHR '','' ''2,3'' ! (core_index ?h mod 2))"
    by (rule pinned_round_robin [where E = cores_env and m = 7, OF _ _ _ _ r])
      (auto simp: cores_env_def quiet_env_def)
  then show ?thesis unfolding r by simp
qed

end
