(* ===== verification/Ebpf_Prober.thy ===== *)
theory Ebpf_Prober
  imports Sdk_Calls
begin

text \<open>
  \<open>services/sandbox-orchestrator/ebpf_prober.go\<close>: loading the latency probe and attaching
  it to the two hooks of a TAP interface, over TCX or, on older kernels, a netlink filter.
  A program is named by the handle of the loaded objects it belongs to and its hook; a
  parent of netlink is named by its hook, and \<open>hex\<close> is the number of a parent in
  hexadecimal, as it appears in one error text.
\<close>

section \<open>Links\<close>

record legacyTCLink =
  ifIndex :: int
  lt_parent :: hook

record tapLink =
  tcx :: "int option"
  legacy :: "legacyTCLink option"

record TapProber =
  objs :: "int option"
  egressL :: "tapLink option"
  ingressL :: "tapLink option"
  tapName :: string

definition close_legacy :: "sdk_call env \<Rightarrow> legacyTCLink \<Rightarrow> (sdk_call, gerr option) io" where
  "close_legacy E l =
     if_err (call_err E (Sdk (LinkByIndex (ifIndex l)))) (\<lambda>_. ret None)
       (and_then (call_err E (Sdk (FilterDel (ifIndex l) (lt_parent l)))) (ret None))"

definition link_Close :: "sdk_call env \<Rightarrow> tapLink \<Rightarrow> (sdk_call, gerr option) io" where
  "link_Close E t =
     (case tcx t of
        Some l \<Rightarrow> call_err E (Sdk (CloseLink l))
      | None \<Rightarrow> (case legacy t of Some l \<Rightarrow> close_legacy E l | None \<Rightarrow> ret None))"

definition attachLegacyTCFilter ::
  "sdk_call env \<Rightarrow> (hook \<Rightarrow> string) \<Rightarrow> int \<Rightarrow> int \<Rightarrow> hook \<Rightarrow> (sdk_call, legacyTCLink result) io"
where
  "attachLegacyTCFilter E hex i prog parent =
     if_err (call_err E (Sdk (FilterAdd i prog parent)))
       (\<lambda>err. ret (Inl (wrap_err (''netlink FilterAdd parent='' @ hex parent) err)))
       (ret (Inr \<lparr>ifIndex = i, lt_parent = parent\<rparr>))"

definition attachBPFProg ::
  "sdk_call env \<Rightarrow> (hook \<Rightarrow> string) \<Rightarrow> int \<Rightarrow> int \<Rightarrow> hook \<Rightarrow> (sdk_call, tapLink result) io"
where
  "attachBPFProg E hex i prog dir =
     with_val (call_int E (Sdk (AttachTCX i prog dir)))
       (\<lambda>_. with_val (attachLegacyTCFilter E hex i prog dir)
          (\<lambda>err. ret (Inl err))
          (\<lambda>leg. ret (Inr \<lparr>tcx = None, legacy = Some leg\<rparr>)))
       (\<lambda>tcxL. ret (Inr \<lparr>tcx = Some tcxL, legacy = None\<rparr>))"

section \<open>The qdisc\<close>

definition ensureClsactQdisc :: "sdk_call env \<Rightarrow> int \<Rightarrow> string \<Rightarrow> (sdk_call, gerr option) io" where
  "ensureClsactQdisc E i tap =
     if_err (call_err E (Sdk (LinkByIndex i)))
       (\<lambda>err. fails (wrap_err (''ebpf prober: netlink lookup '' @ tap) err))
     (with_val (call_names E (Sdk (QdiscList i)))
       (\<lambda>err. fails (wrap_err (''ebpf prober: listing qdiscs on '' @ tap) err))
     (\<lambda>qdiscs.
       if ''clsact'' \<in> set qdiscs then ret None
       else if_err (call_err E (Sdk (QdiscAdd i ''clsact'')))
         (\<lambda>err. fails (wrap_err (''ebpf prober: adding clsact qdisc to '' @ tap) err))
         (ret None)))"

section \<open>Attaching and detaching\<close>

definition attach_hooks ::
  "sdk_call env \<Rightarrow> (hook \<Rightarrow> string) \<Rightarrow> string \<Rightarrow> int \<Rightarrow> int \<Rightarrow> (sdk_call, TapProber result) io"
where
  "attach_hooks E hex tap i ob =
     with_val (attachBPFProg E hex i ob Egress)
       (\<lambda>err. and_then (call_err E (Sdk (CloseObjects ob)))
          (ret (Inl (wrap_err (''ebpf prober: attaching egress prog to '' @ tap) err))))
     (\<lambda>eg. with_val (attachBPFProg E hex i ob Ingress)
       (\<lambda>err. and_then (link_Close E eg) (and_then (call_err E (Sdk (CloseObjects ob)))
          (ret (Inl (wrap_err (''ebpf prober: attaching ingress prog to '' @ tap) err)))))
     (\<lambda>ing. ret (Inr \<lparr>objs = Some ob, egressL = Some eg, ingressL = Some ing, tapName = tap\<rparr>)))"

definition AttachProber ::
  "sdk_call env \<Rightarrow> (hook \<Rightarrow> string) \<Rightarrow> string \<Rightarrow> (sdk_call, TapProber result) io"
where
  "AttachProber E hex tap =
     with_val (call_int E (Sdk (InterfaceByName tap)))
       (\<lambda>err. ret (Inl (wrap_err (''ebpf prober: interface '' @ tap @ '' not found'') err)))
     (\<lambda>i. if_err (ensureClsactQdisc E i tap) (\<lambda>err. ret (Inl err))
     (State_Monad.bind (call_err E (MkdirAll (''/sys/fs/bpf/hft-bench/'' @ tap))) (\<lambda>mk.
       let pinDir = (if mk = None then ''/sys/fs/bpf/hft-bench/'' @ tap else '''')
       in with_val (call_int E (Sdk (LoadObjects pinDir)))
            (\<lambda>err. ret (Inl (wrap_err (''ebpf prober: loading BPF objects for '' @ tap) err)))
            (attach_hooks E hex tap i))))"

definition close_opt :: "sdk_call env \<Rightarrow> tapLink option \<Rightarrow> (sdk_call, unit) io" where
  "close_opt E t = (case t of None \<Rightarrow> ret () | Some l \<Rightarrow> and_then (link_Close E l) (ret ()))"

definition DetachProber :: "sdk_call env \<Rightarrow> TapProber option \<Rightarrow> (sdk_call, unit) io" where
  "DetachProber E p =
     (case p of
        None \<Rightarrow> ret ()
      | Some pr \<Rightarrow>
          and_then (close_opt E (ingressL pr))
          (and_then (close_opt E (egressL pr))
          (case objs pr of None \<Rightarrow> ret () | Some ob \<Rightarrow> and_then (call_err E (Sdk (CloseObjects ob))) (ret ()))))"

text \<open>\<open>total += v\<close> over the values of the CPUs, in \<open>uint64\<close>.\<close>

definition sum_drops :: "64 word list \<Rightarrow> 64 word" where
  "sum_drops vs = foldl (+) 0 vs"

definition DropCount :: "sdk_call env \<Rightarrow> int \<Rightarrow> (sdk_call, 64 word result) io" where
  "DropCount E ob =
     with_val (call_u64s E (Sdk (LookupDrops ob))) (\<lambda>err. ret (Inl err)) (\<lambda>vs. ret (Inr (sum_drops vs)))"

section \<open>What is held\<close>

text \<open>
  What a trace leaves open: loaded objects, TCX links, and the hooks of an interface that
  carry a netlink filter. A link and the objects are file descriptors: closing one
  releases it also when it reports an error. A netlink filter stays when its deletion
  fails; \<open>legacyTCLink.close\<close> ignores that error, and it does not even try the deletion
  when it cannot look the interface up.
\<close>

abbreviation count_ev :: "(sdk_call host_call \<times> bool \<Rightarrow> bool) \<Rightarrow> sdk_call history \<Rightarrow> nat" where
  "count_ev P l \<equiv> length (filter P l)"

fun loads :: "sdk_call host_call \<times> bool \<Rightarrow> bool" where
  "loads (Sdk (LoadObjects p), ok) = ok"
| "loads _ = False"

fun unloads :: "sdk_call host_call \<times> bool \<Rightarrow> bool" where
  "unloads (Sdk (CloseObjects ob), ok) = True"
| "unloads _ = False"

fun links :: "sdk_call host_call \<times> bool \<Rightarrow> bool" where
  "links (Sdk (AttachTCX i ob d), ok) = ok"
| "links _ = False"

fun unlinks :: "sdk_call host_call \<times> bool \<Rightarrow> bool" where
  "unlinks (Sdk (CloseLink k), ok) = True"
| "unlinks _ = False"

fun filter_effect :: "sdk_call host_call \<times> bool \<Rightarrow> (int \<times> hook) set \<Rightarrow> (int \<times> hook) set" where
  "filter_effect (Sdk (FilterAdd i ob d), ok) F = (if ok then insert (i, d) F else F)"
| "filter_effect (Sdk (FilterDel i d), ok) F = (if ok then F - {(i, d)} else F)"
| "filter_effect _ F = F"

definition filters_after :: "sdk_call history \<Rightarrow> (int \<times> hook) set" where
  "filters_after l = fold filter_effect l {}"

definition open_objects :: "sdk_call history \<Rightarrow> int" where
  "open_objects l = int (count_ev loads l) - int (count_ev unloads l)"

definition open_links :: "sdk_call history \<Rightarrow> int" where
  "open_links l = int (count_ev links l) - int (count_ev unlinks l)"

text \<open>Everything that a prober stands for, and nothing at all.\<close>

definition tcx_count :: "tapLink option \<Rightarrow> int" where
  "tcx_count t = (case t of Some l \<Rightarrow> if tcx l = None then 0 else 1 | None \<Rightarrow> 0)"

definition link_filters :: "tapLink option \<Rightarrow> (int \<times> hook) set" where
  "link_filters t = (case t of None \<Rightarrow> {} | Some l \<Rightarrow>
     (case tcx l of Some k \<Rightarrow> {} | None \<Rightarrow>
       (case legacy l of None \<Rightarrow> {} | Some f \<Rightarrow> {(ifIndex f, lt_parent f)})))"

definition holds_prober :: "TapProber \<Rightarrow> sdk_call history \<Rightarrow> bool" where
  "holds_prober p l \<longleftrightarrow> objs p \<noteq> None \<and> open_objects l = 1 \<and>
     open_links l = tcx_count (egressL p) + tcx_count (ingressL p) \<and>
     filters_after l = link_filters (egressL p) \<union> link_filters (ingressL p)"

definition holds_nothing :: "sdk_call history \<Rightarrow> bool" where
  "holds_nothing l \<longleftrightarrow> open_objects l = 0 \<and> open_links l = 0 \<and> filters_after l = {}"

text \<open>The filters whose deletion has failed, or whose interface could not be looked up.\<close>

definition undeleted :: "sdk_call history \<Rightarrow> (int \<times> hook) set" where
  "undeleted l = {(i, d). (Sdk (FilterDel i d), False) \<in> set l \<or> (Sdk (LinkByIndex i), False) \<in> set l}"

definition gave_back :: "sdk_call history \<Rightarrow> bool" where
  "gave_back l \<longleftrightarrow> open_objects l = 0 \<and> open_links l = 0 \<and> filters_after l \<subseteq> undeleted l"

lemma undeleted_append: "undeleted (k @ l) = undeleted k \<union> undeleted l"
  by (auto simp: undeleted_def)

lemma undeleted_grows:
  "F \<subseteq> undeleted l \<Longrightarrow> F \<subseteq> undeleted (e # l)"
  "F \<subseteq> undeleted l \<Longrightarrow> F \<subseteq> undeleted (k @ l)"
  by (auto simp: undeleted_def)

lemma holds_gave: "holds_nothing l \<Longrightarrow> gave_back l"
  by (simp add: holds_nothing_def gave_back_def)

lemma open_simps [simp]:
  "open_objects [] = 0" "open_links [] = 0" "filters_after [] = {}"
  "open_objects (e # l) = (if loads e then 1 else 0) - (if unloads e then 1 else 0) + open_objects l"
  "open_links (e # l) = (if links e then 1 else 0) - (if unlinks e then 1 else 0) + open_links l"
  by (simp_all add: open_objects_def open_links_def filters_after_def)

lemma open_append [simp]:
  "open_objects (k @ l) = open_objects k + open_objects l"
  "open_links (k @ l) = open_links k + open_links l"
  "filters_after (k @ l) = fold filter_effect l (filters_after k)"
  by (simp_all add: open_objects_def open_links_def filters_after_def)

lemma filters_Cons: "filters_after (e # l) = fold filter_effect l (filter_effect e {})"
  by (simp add: filters_after_def)

lemma link_views [simp]:
  "tcx_count None = 0" "link_filters None = {}"
  "tcx_count (Some \<lparr>tcx = Some k, legacy = f\<rparr>) = 1" "link_filters (Some \<lparr>tcx = Some k, legacy = f\<rparr>) = {}"
  "tcx_count (Some \<lparr>tcx = None, legacy = Some g\<rparr>) = 0"
  "link_filters (Some \<lparr>tcx = None, legacy = Some g\<rparr>) = {(ifIndex g, lt_parent g)}"
  by (simp_all add: tcx_count_def link_filters_def)

text \<open>Attaching adds what the link stands for; a failure adds nothing.\<close>

lemma legacy_does:
  "does (\<lambda>r l. (r = Inr \<lparr>ifIndex = i, lt_parent = d\<rparr> \<and> l = [(Sdk (FilterAdd i ob d), True)]) \<or>
      (\<exists>err. r = Inl err \<and> l = [(Sdk (FilterAdd i ob d), False)])) (attachLegacyTCFilter E hex i ob d)"
  unfolding attachLegacyTCFilter_def by (intro does_if_call does_ret) simp_all

lemma attach_does:
  "does (\<lambda>r l. open_objects l = 0 \<and>
      (case r of
         Inl err \<Rightarrow> open_links l = 0 \<and> (\<forall>F. fold filter_effect l F = F)
       | Inr t \<Rightarrow> open_links l = tcx_count (Some t) \<and> link_filters (Some t) \<subseteq> {(i, d)} \<and>
           (\<forall>F. fold filter_effect l F = link_filters (Some t) \<union> F)))
    (attachBPFProg E hex i ob d)"
  unfolding attachBPFProg_def
  by (intro does_with_call does_flow(2) [OF legacy_does] does_ret) auto

text \<open>Closing a link takes away what it stands for, but for a filter whose deletion fails.\<close>

definition closes_link :: "tapLink option \<Rightarrow> sdk_call history \<Rightarrow> bool" where
  "closes_link t l \<longleftrightarrow> open_objects l = 0 \<and> open_links l = - tcx_count t \<and>
     (\<forall>F. fold filter_effect l F \<subseteq> F \<and> F - link_filters t \<subseteq> fold filter_effect l F \<and>
        fold filter_effect l F \<inter> link_filters t \<subseteq> undeleted l)"

lemma closes_linkD:
  assumes "closes_link t l"
  shows "open_objects l = 0" "open_links l = - tcx_count t"
    "fold filter_effect l F \<subseteq> (F - link_filters t) \<union> (F \<inter> undeleted l)"
  using assms unfolding closes_link_def by blast+

lemma close_does: "does (\<lambda>r l. closes_link (Some t) l) (link_Close E t)"
  unfolding does_def link_Close_def close_legacy_def closes_link_def
  by (cases t) (auto simp: tcx_count_def link_filters_def undeleted_def split: option.split)

lemma close_opt_does: "does (\<lambda>r l. closes_link t l) (close_opt E t)"
proof (cases t)
  case None
  then show ?thesis by (auto simp: close_opt_def closes_link_def intro!: does_ret)
next
  case (Some l)
  then show ?thesis unfolding close_opt_def
    by (auto intro!: does_flow(3) [OF close_does] does_ret)
qed

lemma ensure_does: "does (\<lambda>r l. holds_nothing l) (ensureClsactQdisc E i tap)"
  unfolding ensureClsactQdisc_def holds_nothing_def
  by (intro does_if_call does_with_call does_cases does_ret) (simp_all add: filters_Cons)


lemma attach_hooks_does:
  "does (\<lambda>r l. case r of
      Inl err \<Rightarrow> open_objects l = - 1 \<and> open_links l = 0 \<and> fold filter_effect l {} \<subseteq> undeleted l
    | Inr p \<Rightarrow> objs p = Some ob \<and> egressL p \<noteq> None \<and> ingressL p \<noteq> None \<and> tapName p = tap \<and>
        open_objects l = 0 \<and>
        open_links l = tcx_count (egressL p) + tcx_count (ingressL p) \<and>
        fold filter_effect l {} = link_filters (egressL p) \<union> link_filters (ingressL p))
    (attach_hooks E hex tap i ob)"
  unfolding attach_hooks_def
proof (intro does_flow(2) [OF attach_does] does_if_call(2) does_ret does_flow(3) [OF close_does],
    goal_cases)
  case (1 err l b)
  then show ?case by simp
next
  case (2 eg l err k u m b)
  have "fold filter_effect m (link_filters (Some eg)) \<subseteq> undeleted m"
    using closes_linkD(3) [OF 2(3), of "link_filters (Some eg)"] by blast
  moreover have "undeleted m \<subseteq> undeleted (l @ k @ m @ [(Sdk (CloseObjects ob), b)])"
    by (auto simp: undeleted_append)
  ultimately show ?case using 2 closes_linkD(1,2) [OF 2(3)] by auto
next
  case (3 eg l ing k)
  then show ?case by auto
qed

lemma AttachProber_does:
  "does (\<lambda>r l. case r of
      Inl err \<Rightarrow> gave_back l
    | Inr p \<Rightarrow> holds_prober p l \<and> egressL p \<noteq> None \<and> ingressL p \<noteq> None \<and> tapName p = tap)
    (AttachProber E hex tap)"
  unfolding AttachProber_def Let_def
proof (intro does_with_call does_flow(1) [OF ensure_does] does_bind_call does_ret, goal_cases)
  case (4 i l mk ob)
  have "fold filter_effect l {} = {}" using 4 by (simp add: holds_nothing_def filters_after_def)
  then show ?case
    by - (rule does_mono [OF attach_hooks_does],
      use 4 in \<open>auto simp: gave_back_def holds_nothing_def holds_prober_def filters_Cons
        intro!: undeleted_grows split: sum.splits\<close>)
qed (auto simp: gave_back_def holds_nothing_def filters_Cons filters_after_def)

lemma DetachProber_does:
  assumes "holds_prober p k"
  shows "does (\<lambda>_ l. gave_back (k @ l)) (DetachProber E (Some p))"
  unfolding DetachProber_def option.case
proof (intro does_flow(3) [OF close_opt_does] does_cases does_if_call(2) does_ret, goal_cases)
  case (2 u l v m ob b)
  let ?i = "link_filters (ingressL p)" and ?e = "link_filters (egressL p)"
  have "fold filter_effect m (fold filter_effect l (?e \<union> ?i)) \<subseteq> undeleted l \<union> undeleted m"
    using closes_linkD(3) [OF 2(1), of "?e \<union> ?i"]
      closes_linkD(3) [OF 2(2), of "fold filter_effect l (?e \<union> ?i)"] by blast
  then show ?case
    using assms closes_linkD(1,2) [OF 2(1)] closes_linkD(1,2) [OF 2(2)]
    by (auto simp: gave_back_def holds_prober_def undeleted_append)
qed (use assms in \<open>auto simp: holds_prober_def\<close>)

section \<open>Properties\<close>



text \<open>A kernel without TCX whose ingress hook refuses the filter.\<close>

definition old_kernel :: "bool \<Rightarrow> sdk_call env" where
  "old_kernel refuses = quiet_env\<lparr>
     env_int := \<lambda>_ c. case c of Sdk (AttachTCX i ob d) \<Rightarrow> Inl (errors_New ''not supported'') | _ \<Rightarrow> Inr 3,
     env_err := \<lambda>_ c. case c of Sdk (FilterAdd i ob d) \<Rightarrow>
        if refuses \<and> d = Ingress then Some (errors_New ''busy'') else None | _ \<Rightarrow> None\<rparr>"


text \<open>
  On a kernel without TCX whose filters cannot be deleted, a prober that has been detached
  leaves both filters on the interface.
\<close>

definition stuck_kernel :: "sdk_call env" where
  "stuck_kernel = (old_kernel False)\<lparr>
     env_err := \<lambda>_ c. case c of Sdk (FilterDel i d) \<Rightarrow> Some (errors_New ''busy'') | _ \<Rightarrow> None\<rparr>"

lemma detached_filters_stay:
  "\<exists>p h k. run_state (AttachProber stuck_kernel (\<lambda>_. ''fff2'') ''tap1'') [] = (Inr p, h) \<and>
     run_state (DetachProber stuck_kernel (Some p)) h = ((), h @ k) \<and>
     filters_after (h @ k) = {(3, Egress), (3, Ingress)}"
  by (auto simp: AttachProber_def DetachProber_def ensureClsactQdisc_def attach_hooks_def attachBPFProg_def
      attachLegacyTCFilter_def close_opt_def link_Close_def close_legacy_def stuck_kernel_def old_kernel_def
      quiet_env_def filters_Cons Let_def)

text \<open>
  The number of dropped events is the sum of the counters of all CPUs, in \<open>uint64\<close>:
  exact as long as the sum is below 2^64, and modulo 2^64 from there on.
\<close>

theorem drop_count_sum:
  assumes "env_u64s E h (Sdk (LookupDrops ob)) = Inr vs"
  shows "\<exists>d. fst (run_state (DropCount E ob) h) = Inr d \<and> unat d = sum_list (map unat vs) mod 2 ^ 64"
proof -
  have "unat (foldl (+) a us) = (unat a + sum_list (map unat us)) mod 2 ^ 64" for a :: "64 word" and us
  proof (induction us arbitrary: a)
    case Nil
    then show ?case using unsigned_less [of a, where 'a = nat] by simp
  next
    case (Cons u us)
    then show ?case by (simp add: unat_word_ariths mod_add_left_eq add.assoc)
  qed
  from this [of 0 vs] show ?thesis using assms by (simp add: DropCount_def sum_drops_def)
qed

theorem drop_count_sum_witness:
  "fst (run_state (DropCount (quiet_env\<lparr>env_u64s := \<lambda>_ _. Inr [1, 2 ^ 64 - 1, 5]\<rparr>) 3) []) = Inr 5"
proof -
  let ?E = "quiet_env\<lparr>env_u64s := \<lambda>_ _. Inr [1, 2 ^ 64 - 1, 5]\<rparr> :: sdk_call env"
  have "env_u64s ?E [] (Sdk (LookupDrops 3)) = Inr [1, 2 ^ 64 - 1, 5]" by simp
  from drop_count_sum [OF this] obtain d where
    d: "fst (run_state (DropCount ?E 3) []) = Inr d" "unat d = 5" by auto
  then have "d = 5" by (simp add: word_unat_eq_iff)
  with d show ?thesis by simp
qed

end
