(* ===== verification/Orchestrator.thy ===== *)
theory Orchestrator
  imports Firecracker Ebpf_Prober Vm_Api
begin

text \<open>
  \<open>services/sandbox-orchestrator/main.go\<close>: the gRPC server that keeps the registry of
  microVMs. The operations are programs over the registry and the host; a critical section
  of the mutex is one step. The next theory interleaves any number of requests.

  An entry of the registry is never written after it has been stored, so the pointers of
  the code are values here. The code that would attach the eBPF prober is commented out:
  the prober of every entry is nil, and so is its consumer, which is left out.
\<close>

section \<open>Outcomes\<close>

text \<open>
  A teardown may call a method on the nil machine of a VM that is still being provisioned;
  the SDK dereferences its receiver, so this is a panic.
\<close>

datatype teardown_outcome = Answered "TeardownResponse rpc" | NilMachine

section \<open>The registry\<close>

record ActiveVM =
  Machine :: "int option"
  vm_VMID :: string
  vm_IPAddress :: string
  vm_TapName :: string
  vm_SubmissionDisk :: string
  vm_VsockPath :: string
  vm_Prober :: "TapProber option"

type_synonym registry = "(string \<times> ActiveVM) list"

definition newServer :: registry where
  "newServer = []"

definition validateSpawnRequest :: "SpawnRequest \<Rightarrow> grpc_status option" where
  "validateSpawnRequest req =
     (if SubmissionId req = '''' then Some (InvalidArgument ''submission_id is required'')
      else if VcpuCount req \<le> 0 then Some (InvalidArgument ''vcpu_count must be greater than 0'')
      else if MemoryMib req \<le> 0 then Some (InvalidArgument ''memory_mib must be greater than 0'')
      else None)"

text \<open>\<open>hash/fnv\<close>: \<open>New32a\<close>, \<open>Write\<close>, \<open>Sum32\<close>.\<close>

definition fnv32a :: "string \<Rightarrow> 32 word" where
  "fnv32a s = foldl (\<lambda>h c. (xor h (of_nat (of_char c))) * 16777619) 2166136261 s"

definition tapNameForVM :: "string \<Rightarrow> string" where
  "tapNameForVM vmID = ''tap'' @ fmt_hex 8 (unat (fnv32a vmID))"

text \<open>
  \<open>fmt.Sscanf(s, "172.16.0.%d", &idx)\<close>: the literal, then a decimal number after optional
  spaces, with an optional sign; what follows the number is not looked at.
\<close>

definition Sscanf_ip :: "string \<Rightarrow> int option" where
  "Sscanf_ip s =
     (if HasPrefix s ''172.16.0.'' then
        let t = dropWhile (\<lambda>c. c = CHR '' '') (TrimPrefix s ''172.16.0.'');
            sign = takeWhile (\<lambda>c. c \<in> set ''+-'') (take 1 t);
            digits = takeWhile (\<lambda>c. c \<in> set ''0123456789'') (drop (length sign) t)
        in Atoi (sign @ digits)
      else None)"

definition used_indices :: "registry \<Rightarrow> int list" where
  "used_indices reg = List.map_filter (\<lambda>(k, vm). if vm_IPAddress vm = '''' then None else Sscanf_ip (vm_IPAddress vm)) reg"

definition host_indices :: "int list" where
  "host_indices = [2..254]"

definition findFreeIPIndex :: "registry \<Rightarrow> int result" where
  "findFreeIPIndex reg =
     (case find (\<lambda>i. i \<notin> set (used_indices reg)) host_indices of
        Some i \<Rightarrow> Inr i
      | None \<Rightarrow> Inl (errors_New ''no free IP addresses available in subnet 172.16.0.0/24''))"

section \<open>Critical sections\<close>

definition spawn_failure :: "string \<Rightarrow> SpawnResponse rpc" where
  "spawn_failure msg = Inr \<lparr>sr_VmId = '''', sr_IpAddress = '''', sr_Success = False, sr_ErrorMessage = msg, sr_VsockPath = ''''\<rparr>"

definition tentative :: "string \<Rightarrow> string \<Rightarrow> ActiveVM" where
  "tentative vmID ip =
     \<lparr>Machine = None, vm_VMID = vmID, vm_IPAddress = ip, vm_TapName = '''', vm_SubmissionDisk = '''',
      vm_VsockPath = '''', vm_Prober = None\<rparr>"

text \<open>The check for an existing VM and the tentative registration: a reply, or a reservation.\<close>

definition reserve :: "string \<Rightarrow> registry \<Rightarrow> (SpawnResponse rpc + int \<times> string) \<times> registry" where
  "reserve vmID reg =
     (case map_of reg vmID of
        Some vm \<Rightarrow> (Inl (spawn_failure ''vm already exists''), reg)
      | None \<Rightarrow>
        (case findFreeIPIndex reg of
           Inl err \<Rightarrow> (Inl (Inl (Internal (''IP allocation failed: '' @ err_msg err))), reg)
         | Inr ipIndex \<Rightarrow>
           (case GenerateIPFromIndex ipIndex of
              Inl err \<Rightarrow> (Inl (Inl (Internal (''IP generation limits exceeded: '' @ err_msg err))), reg)
            | Inr ip \<Rightarrow> (Inr (ipIndex, ip), AList.update vmID (tentative vmID ip) reg))))"

definition release :: "string \<Rightarrow> registry \<Rightarrow> unit \<times> registry" where
  "release vmID reg = ((), AList.delete vmID reg)"

definition publish :: "string \<Rightarrow> ActiveVM \<Rightarrow> registry \<Rightarrow> unit \<times> registry" where
  "publish vmID vm reg = ((), AList.update vmID vm reg)"

definition find_vm :: "string \<Rightarrow> registry \<Rightarrow> ActiveVM option \<times> registry" where
  "find_vm vmID reg = (map_of reg vmID, reg)"

section \<open>Programs over the registry and the host\<close>

type_synonym 'a srv = "(registry \<times> sdk_call history, 'a) state"

definition tap_config :: "string \<Rightarrow> TAPConfig" where
  "tap_config vmID = \<lparr>TAPName = tapNameForVM vmID, BridgeName = ''br0''\<rparr>"

definition disk_config :: "string \<Rightarrow> SubmissionImageConfig" where
  "disk_config vmID = \<lparr>SubmissionID = vmID, StrategyPath = ''../../sandbox/strategy_bin''\<rparr>"

definition vm_config :: "SpawnRequest \<Rightarrow> int \<Rightarrow> string \<Rightarrow> string \<Rightarrow> VMConfig" where
  "vm_config req ipIndex ip disk =
     \<lparr>VMID = SubmissionId req, VCPUCount = VcpuCount req, MemoryMiB = MemoryMib req,
      KernelImagePath = ''../../sandbox/vmlinux.bin'', FirecrackerBin = ''../../sandbox/firecracker-bin'',
      SocketDir = ''/tmp'', TapName = tapNameForVM (SubmissionId req), AllocatedIP = ip, SubmissionDisk = disk,
      VsockPath = '''', CID = of_int (ipIndex + 10)\<rparr>"

definition active_vm :: "SpawnRequest \<Rightarrow> string \<Rightarrow> string \<Rightarrow> int \<times> string \<Rightarrow> ActiveVM" where
  "active_vm req ip disk booted =
     \<lparr>Machine = Some (fst booted), vm_VMID = SubmissionId req, vm_IPAddress = ip,
      vm_TapName = tapNameForVM (SubmissionId req), vm_SubmissionDisk = disk, vm_VsockPath = snd booted,
      vm_Prober = None\<rparr>"

definition spawn_success :: "SpawnRequest \<Rightarrow> ActiveVM \<Rightarrow> SpawnResponse rpc" where
  "spawn_success req vm =
     Inr \<lparr>sr_VmId = ''vm-'' @ SubmissionId req, sr_IpAddress = vm_IPAddress vm, sr_Success = True,
       sr_ErrorMessage = '''', sr_VsockPath = vm_VsockPath vm\<rparr>"

definition SpawnVM ::
  "sdk_call env \<Rightarrow> ((string \<times> string) list \<Rightarrow> (string \<times> string) list) \<Rightarrow> SpawnRequest \<Rightarrow> SpawnResponse rpc srv"
where
  "SpawnVM E order req =
     (case validateSpawnRequest req of
        Some st \<Rightarrow> ret (Inl st)
      | None \<Rightarrow>
        let vmID = SubmissionId req; tap = tapNameForVM vmID; bootCtx = Timeout Request
        in State_Monad.bind (locked (reserve vmID)) (\<lambda>reserved. case reserved of
             Inl reply \<Rightarrow> ret reply
           | Inr (ipIndex, computedIP) \<Rightarrow>
             if_err (on_host (SetupTapInterface E bootCtx (tap_config vmID)))
               (\<lambda>err. and_then (locked (release vmID))
                 (ret (Inl (Internal (''host networking layer provisioning failed: '' @ err_msg err)))))
             (with_val (on_host (CreateSubmissionImage E bootCtx order (disk_config vmID)))
               (\<lambda>err. and_then (on_host (CleanupTapInterface E Background tap)) (and_then (locked (release vmID))
                 (ret (Inl (Internal (''submission disk provisioning failed: '' @ err_msg err))))))
             (\<lambda>computedDisk.
               with_val (on_host (CreateAndBootVM E (vm_config req ipIndex computedIP computedDisk)))
                 (\<lambda>err. and_then (on_host (CleanupTapInterface E Background tap)) (and_then (locked (release vmID))
                   (ret (spawn_failure (err_msg err)))))
               (\<lambda>booted.
                 let activeVM = active_vm req computedIP computedDisk booted
                 in and_then (locked (publish vmID activeVM)) (ret (spawn_success req activeVM)))))))"

text \<open>After the registry entry is gone: the prober, the interface and the image.\<close>

definition purge :: "sdk_call env \<Rightarrow> ActiveVM \<Rightarrow> unit srv" where
  "purge E vm =
     and_then (on_host (DetachProber E (vm_Prober vm)))
     (and_then (on_host (CleanupTapInterface E Background (vm_TapName vm)))
     (and_then (on_host (CleanupSubmissionImage E (vm_SubmissionDisk vm))) (ret ())))"

definition TeardownVM :: "sdk_call env \<Rightarrow> string \<Rightarrow> teardown_outcome srv" where
  "TeardownVM E vm_id =
     (if vm_id = '''' then ret (Answered (Inl (InvalidArgument ''vm_id is required'')))
      else let vmID = TrimPrefix vm_id ''vm-''
        in State_Monad.bind (locked (find_vm vmID)) (\<lambda>found. case found of
             None \<Rightarrow> ret (Answered (Inr \<lparr>td_Success = False, td_ErrorMessage = ''vm not found''\<rparr>))
           | Some activeVM \<Rightarrow>
             (case Machine activeVM of
                None \<Rightarrow> ret NilMachine
              | Some machine \<Rightarrow>
                if_err (on_host (call_err E (Sdk (StopVMM machine))))
                  (\<lambda>err. ret (Answered (Inr \<lparr>td_Success = False, td_ErrorMessage = err_msg err\<rparr>)))
                (and_then (locked (release vmID))
                (and_then (purge E activeVM)
                (ret (Answered (Inr \<lparr>td_Success = True, td_ErrorMessage = ''''\<rparr>))))))))"

text \<open>
  \<open>shutdownAllVMs\<close>, with the mutex held all along, in the order in which Go ranges over
  the map. The result tells whether it came to an end: a nil machine is a panic.
\<close>

fun shutdown_loop :: "sdk_call env \<Rightarrow> (string \<times> ActiveVM) list \<Rightarrow> bool srv" where
  "shutdown_loop E [] = ret True"
| "shutdown_loop E ((vmID, vm) # vms) =
     (case Machine vm of
        None \<Rightarrow> ret False
      | Some machine \<Rightarrow>
          and_then (on_host (call_err E (Sdk (StopVMM machine))))
          (and_then (on_host (DetachProber E (vm_Prober vm)))
          (and_then (locked (release vmID))
          (and_then (on_host (CleanupTapInterface E Background (vm_TapName vm)))
          (and_then (on_host (CleanupSubmissionImage E (vm_SubmissionDisk vm)))
          (shutdown_loop E vms))))))"

definition shutdownAllVMs :: "sdk_call env \<Rightarrow> (registry \<Rightarrow> registry) \<Rightarrow> bool srv" where
  "shutdownAllVMs E visit =
     State_Monad.bind (locked (\<lambda>reg. (visit reg, reg))) (shutdown_loop E)"

section \<open>Addresses\<close>

definition ip_of :: "int \<Rightarrow> string" where
  "ip_of i = ''172.16.0.'' @ Itoa i"

lemma digit_char_set: "d < 10 \<Longrightarrow> digit_char d \<in> set ''0123456789''"
proof -
  assume "d < 10"
  then have "d \<in> {0, 1, 2, 3, 4, 5, 6, 7, 8, 9}" by auto
  then show ?thesis by (auto simp: digit_char_def)
qed

lemma Sscanf_ip_of:
  assumes "0 \<le> i" "i < 2 ^ 63"
  shows "Sscanf_ip (ip_of i) = Some i"
proof -
  let ?ds = "map digit_char (nat_digits 10 (nat i))"
  have I: "Itoa i = ?ds" using assms by (simp add: Itoa_def)
  have all: "\<forall>c \<in> set ?ds. c \<in> set ''0123456789''"
    using nat_digits_less [of 10 _ "nat i"] digit_char_set by auto
  obtain c cs where c: "?ds = c # cs" by (cases ?ds) auto
  then have c': "c \<in> set ''0123456789''" using all by (metis list.set_intros(1))
  have "dropWhile (\<lambda>c. c = CHR '' '') ?ds = ?ds" using c c' by auto
  moreover have "takeWhile (\<lambda>c. c \<in> set ''+-'') (take 1 ?ds) = []" using c c' by auto
  moreover have "takeWhile (\<lambda>c. c \<in> set ''0123456789'') ?ds = ?ds"
    using all by (simp only: takeWhile_eq_all_conv)
  moreover have "Atoi ?ds = Some i" using Atoi_Itoa_nat [of "nat i"] assms I by simp
  moreover have "HasPrefix (ip_of i) ''172.16.0.''" "TrimPrefix (ip_of i) ''172.16.0.'' = ?ds"
    unfolding ip_of_def I by (simp_all only: TrimPrefix_append) (simp add: HasPrefix_def)
  ultimately show ?thesis unfolding Sscanf_ip_def Let_def by (simp only: if_True list.size drop_0 append_Nil)
qed

lemma ip_of_inj: "i \<in> {2..254} \<Longrightarrow> j \<in> {2..254} \<Longrightarrow> ip_of i = ip_of j \<longleftrightarrow> i = j"
proof -
  assume "i \<in> {2..254}" "j \<in> {2..254}"
  then have "Sscanf_ip (ip_of i) = Some i" "Sscanf_ip (ip_of j) = Some j" by (simp_all add: Sscanf_ip_of)
  then show ?thesis by (metis option.inject)
qed

text \<open>The registry is a map, and every entry has its key and an address of the subnet.\<close>

definition reg_ok :: "registry \<Rightarrow> bool" where
  "reg_ok reg \<longleftrightarrow> wf_alist reg \<and> (\<forall>k vm. map_of reg k = Some vm \<longrightarrow>
     vm_VMID vm = k \<and> (\<exists>i \<in> {2..254}. vm_IPAddress vm = ip_of i))"

definition free_index :: "registry \<Rightarrow> int \<Rightarrow> bool" where
  "free_index reg i \<longleftrightarrow> i \<in> {2..254} \<and> (\<forall>k vm. map_of reg k = Some vm \<longrightarrow> vm_IPAddress vm \<noteq> ip_of i)"

lemma used_indices_set:
  assumes "reg_ok reg" "i \<in> {2..254}"
  shows "i \<in> set (used_indices reg) \<longleftrightarrow> (\<exists>k vm. map_of reg k = Some vm \<and> vm_IPAddress vm = ip_of i)"
proof -
  have m: "(k, vm) \<in> set reg \<longleftrightarrow> map_of reg k = Some vm" for k vm
    using assms(1) by (auto simp: reg_ok_def)
  have ip: "Sscanf_ip (vm_IPAddress vm) = Some i \<longleftrightarrow> vm_IPAddress vm = ip_of i" "vm_IPAddress vm \<noteq> ''''"
    if vm: "map_of reg k = Some vm" for k vm
  proof -
    obtain j where j: "j \<in> {2..254}" "vm_IPAddress vm = ip_of j"
      using vm assms(1) unfolding reg_ok_def by blast
    then have "Sscanf_ip (ip_of j) = Some j" by (simp add: Sscanf_ip_of)
    with j assms(2) show "Sscanf_ip (vm_IPAddress vm) = Some i \<longleftrightarrow> vm_IPAddress vm = ip_of i"
      by (auto simp: ip_of_inj)
    from j show "vm_IPAddress vm \<noteq> ''''" by (simp add: ip_of_def)
  qed
  have "i \<in> set (used_indices reg) \<longleftrightarrow>
      (\<exists>k vm. (k, vm) \<in> set reg \<and> vm_IPAddress vm \<noteq> '''' \<and> Sscanf_ip (vm_IPAddress vm) = Some i)"
    by (force simp: used_indices_def List.map_filter_def split: if_splits)
  then show ?thesis unfolding m using ip by blast
qed

lemma free_index_used: "reg_ok reg \<Longrightarrow> i \<in> {2..254} \<Longrightarrow> free_index reg i \<longleftrightarrow> i \<notin> set (used_indices reg)"
  using used_indices_set [of reg i] unfolding free_index_def by blast

text \<open>The least free index, or an error when there is none.\<close>

lemma host_indices_simps [simp]:
  "set host_indices = {2..254}" "length host_indices = 253" "n < 253 \<Longrightarrow> host_indices ! n = 2 + int n"
  unfolding host_indices_def by (simp_all only: set_upto length_upto) (simp_all add: nth_upto del: upto_rec_numeral)

lemma findFree_cases:
  assumes "reg_ok reg"
  obtains (free) i where "findFreeIPIndex reg = Inr i" "free_index reg i" "\<And>j. free_index reg j \<Longrightarrow> i \<le> j"
  | (full) "findFreeIPIndex reg = Inl (errors_New ''no free IP addresses available in subnet 172.16.0.0/24'')"
      "\<And>j. \<not> free_index reg j"
proof (cases "find (\<lambda>i. i \<notin> set (used_indices reg)) host_indices")
  case None
  then have "\<not> free_index reg j" for j
    using free_index_used [OF assms, of j] unfolding find_None_iff free_index_def by auto
  with None show ?thesis by (intro full) (auto simp: findFreeIPIndex_def)
next
  case (Some i)
  then obtain n where n: "n < 253" "i = host_indices ! n" "i \<notin> set (used_indices reg)"
    "\<And>m. m < n \<Longrightarrow> host_indices ! m \<in> set (used_indices reg)"
    unfolding find_Some_iff by auto
  then have i: "i = 2 + int n" by simp
  have "i \<le> j" if j: "free_index reg j" for j
  proof (rule ccontr)
    assume "\<not> i \<le> j"
    moreover have "j \<in> {2..254}" using j by (simp add: free_index_def)
    ultimately have "nat (j - 2) < n" "host_indices ! nat (j - 2) = j" using i n(1) by auto
    then have "j \<in> set (used_indices reg)" using n(4) [of "nat (j - 2)"] by simp
    then show False using j free_index_used [OF assms] by (auto simp: free_index_def)
  qed
  moreover have "free_index reg i" using n(1,3) i free_index_used [OF assms, of i] by auto
  ultimately show ?thesis using Some by (intro free) (auto simp: findFreeIPIndex_def)
qed


section \<open>Critical sections\<close>

lemma reserve_cases:
  assumes "reg_ok reg"
  obtains (taken) vm where "map_of reg vmID = Some vm" "reserve vmID reg = (Inl (spawn_failure ''vm already exists''), reg)"
  | (full) msg where "map_of reg vmID = None" "\<And>j. \<not> free_index reg j" "reserve vmID reg = (Inl (Inl (Internal msg)), reg)"
  | (reserved) i where "map_of reg vmID = None" "free_index reg i" "\<And>j. free_index reg j \<Longrightarrow> i \<le> j"
      "reserve vmID reg = (Inr (i, ip_of i), AList.update vmID (tentative vmID (ip_of i)) reg)"
proof (cases "map_of reg vmID")
  case (Some vm)
  then show ?thesis by (intro taken) (simp_all add: reserve_def)
next
  case None
  from assms show ?thesis
  proof (cases rule: findFree_cases)
    case (free i)
    then have "GenerateIPFromIndex i = Inr (ip_of i)"
      unfolding ip_of_def by (intro GenerateIP_ok) (auto simp: free_index_def)
    with None free show ?thesis by (intro reserved) (simp_all add: reserve_def)
  next
    case full
    with None show ?thesis by (intro that(2)) (simp_all add: reserve_def)
  qed
qed

lemma reg_ok_update:
  assumes "reg_ok reg" "vm_VMID vm = vmID" "i \<in> {2..254}" "vm_IPAddress vm = ip_of i"
  shows "reg_ok (AList.update vmID vm reg)"
  using assms unfolding reg_ok_def by (auto simp: wf_update)

lemma reg_ok_delete: "reg_ok reg \<Longrightarrow> reg_ok (AList.delete vmID reg)"
  unfolding reg_ok_def by (auto simp: wf_delete split: if_splits)

lemma delete_update: "map_of reg k = None \<Longrightarrow> map_of (AList.delete k (AList.update k v reg)) = map_of reg"
  by (auto simp: fun_eq_iff)

lemma section_simps [simp]:
  "release vmID reg = ((), AList.delete vmID reg)"
  "publish vmID vm reg = ((), AList.update vmID vm reg)"
  "find_vm vmID reg = (map_of reg vmID, reg)"
  by (simp_all add: release_def publish_def find_vm_def)

lemma vm_views [simp]:
  "vm_VMID (tentative k ip) = k" "vm_IPAddress (tentative k ip) = ip" "Machine (tentative k ip) = None"
  "vm_VMID (active_vm req ip d b) = SubmissionId req" "vm_IPAddress (active_vm req ip d b) = ip"
  "Machine (active_vm req ip d b) = Some (fst b)" "vm_VsockPath (active_vm req ip d b) = snd b"
  "vm_TapName (active_vm req ip d b) = tapNameForVM (SubmissionId req)"
  "vm_SubmissionDisk (active_vm req ip d b) = d"
  by (simp_all add: tentative_def active_vm_def)

text \<open>What a spawn leaves of the registry.\<close>

definition spawn_effect :: "SpawnRequest \<Rightarrow> registry \<Rightarrow> SpawnResponse rpc \<Rightarrow> registry \<Rightarrow> bool" where
  "spawn_effect req reg r reg' \<longleftrightarrow>
     (\<exists>resp vm i. r = Inr resp \<and> sr_Success resp \<and> map_of reg (SubmissionId req) = None \<and>
        map_of reg' = (map_of reg)(SubmissionId req \<mapsto> vm) \<and> Machine vm \<noteq> None \<and>
        free_index reg i \<and> (\<forall>j. free_index reg j \<longrightarrow> i \<le> j) \<and> vm_IPAddress vm = ip_of i \<and>
        sr_VmId resp = ''vm-'' @ SubmissionId req \<and> sr_IpAddress resp = vm_IPAddress vm \<and>
        sr_VsockPath resp = vm_VsockPath vm) \<or>
     map_of reg' = map_of reg \<and> (\<forall>resp. r = Inr resp \<longrightarrow> \<not> sr_Success resp)"

lemma update_twice: "map_of (AList.update k w (AList.update k v reg)) = (map_of reg)(k \<mapsto> w)"
  by auto

lemma spawn_run:
  assumes ok: "reg_ok reg" and run: "run_state (SpawnVM E order req) (reg, h) = (r, (reg', h'))"
  shows "reg_ok reg' \<and> spawn_effect req reg r reg'"
proof (cases "validateSpawnRequest req")
  case (Some st)
  with run ok show ?thesis by (auto simp: SpawnVM_def spawn_effect_def)
next
  case None
  from ok show ?thesis
  proof (cases rule: reserve_cases [where vmID = "SubmissionId req"])
    case (taken vm)
    with run ok None show ?thesis by (auto simp: SpawnVM_def spawn_effect_def spawn_failure_def Let_def)
  next
    case (full msg)
    with run ok None show ?thesis by (auto simp: SpawnVM_def spawn_effect_def Let_def)
  next
    case (reserved i)
    let ?k = "SubmissionId req"
    let ?reg1 = "AList.update ?k (tentative ?k (ip_of i)) reg"
    have i: "i \<in> {2..254}" using reserved(2) by (simp add: free_index_def)
    have ok1: "reg_ok ?reg1" by (rule reg_ok_update [OF ok _ i]) simp_all
    have undone: "reg_ok (AList.delete ?k ?reg1)" "map_of (AList.delete ?k ?reg1) = map_of reg"
      using reg_ok_delete [OF ok1] delete_update [OF reserved(1)] by simp_all
    have on: "reg_ok (AList.update ?k (active_vm req (ip_of i) d b) ?reg1)" for d b
      by (rule reg_ok_update [OF ok1 _ i]) simp_all
    have "spawn_effect req reg (spawn_success req (active_vm req (ip_of i) d b))
        (AList.update ?k (active_vm req (ip_of i) d b) ?reg1)" for d b
      unfolding spawn_effect_def update_twice
      by (intro disjI1 exI [of _ "active_vm req (ip_of i) d b"] exI [of _ i] exI conjI)
        (auto simp: reserved spawn_success_def)
    moreover have "spawn_effect req reg (spawn_failure m) (AList.delete ?k ?reg1)"
      "spawn_effect req reg (Inl st) (AList.delete ?k ?reg1)" for m st
      using undone(2) by (auto simp: spawn_effect_def spawn_failure_def)
    ultimately show ?thesis
      using run undone(1) on unfolding SpawnVM_def None Let_def
      by (auto simp: reserved(4) split: option.splits sum.splits)
  qed
qed


section \<open>Images left behind\<close>

lemma setup_calm: "adds (list_all (calm img)) (SetupTapInterface E c cfg)"
  and cleanup_calm: "adds (list_all (calm img)) (CleanupTapInterface E c tap)"
proof -
  show cl: "adds (list_all (calm img)) (CleanupTapInterface E c tap)" for c tap
    unfolding CleanupTapInterface_def interfaceExists_def runCommand_def
    by (intro every.intros) (simp_all add: calm_def)
  show "adds (list_all (calm img)) (SetupTapInterface E c cfg)"
    unfolding SetupTapInterface_def interfaceExists_def runCommand_def Let_def
    by (intro every.intros cl) (simp_all add: calm_def)
qed

lemma pin_threads_calm: "adds (list_all (calm img)) (pin_threads E cores tids)"
  by (induction tids) (auto intro!: every.intros simp: calm_def)

lemma boot_calm:
  assumes "img \<noteq> socket_path cfg" "img \<noteq> vsock_path cfg"
  shows "adds (list_all (calm img)) (CreateAndBootVM E cfg)"
proof -
  have n: "adds (list_all (calm img)) next_core"
    unfolding adds_def next_core_def by (simp add: calm_def)
  have s: "adds (list_all (calm img)) (start_machine E m)" for m
    unfolding start_machine_def adds_def by (simp add: calm_def)
  have "adds (list_all (calm img)) (pinFirecrackerProcess E m)" for m
    unfolding pinFirecrackerProcess_def pin_to_def Let_def
    by (intro every.intros pin_threads_calm n) (simp_all add: calm_def)
  moreover have "adds (list_all (calm img)) (applyCgroupLimits E m vmID)" for m vmID
    unfolding applyCgroupLimits_def Let_def by (intro every.intros) (simp_all add: calm_def)
  ultimately show ?thesis
    unfolding CreateAndBootVM_def boot_start_def boot_machine_def
    using assms by (intro every.intros s) (simp_all add: calm_def)
qed


abbreviation image_ctx :: ctx where
  "image_ctx \<equiv> Timeout (Timeout Request)"



lemma sockets_not_image:
  assumes "CHR ''/'' \<notin> set (SubmissionId req)"
  shows "image_path (SubmissionId req) \<noteq> socket_path (vm_config req i ip d)"
    "image_path (SubmissionId req) \<noteq> vsock_path (vm_config req i ip d)"
proof -
  let ?k = "SubmissionId req"
  have "plain (''firecracker-'' @ ?k @ ''.sock'')" using assms by (intro plain_affix) simp_all
  moreover have "plain (''vsock-'' @ ?k @ ''.sock'')" using assms by (intro plain_affix) simp_all
  ultimately have "path_Join [tmpRootDir, ''firecracker-'' @ ?k @ ''.sock''] = ''/tmp/firecracker-'' @ ?k @ ''.sock''"
    "path_Join [tmpRootDir, ''vsock-'' @ ?k @ ''.sock''] = ''/tmp/vsock-'' @ ?k @ ''.sock''"
    unfolding tmp_abs by (subst Join_plain; simp add: plain_def abs_path_def)+
  then show "image_path ?k \<noteq> socket_path (vm_config req i ip d)" "image_path ?k \<noteq> vsock_path (vm_config req i ip d)"
    using disk_paths(2) [OF assms]
    by (simp_all add: socket_path_def vsock_path_def vm_config_def tmpRootDir_def)
qed

lemma spawn_invalid:
  "validateSpawnRequest req = Some st \<Longrightarrow> run_state (SpawnVM E order req) (reg, h) = (Inl st, (reg, h))"
  by (simp add: SpawnVM_def)

lemma spawn_refused:
  "validateSpawnRequest req = None \<Longrightarrow> fst (reserve (SubmissionId req) reg) = Inl x \<Longrightarrow>
   run_state (SpawnVM E order req) (reg, h) = (x, (snd (reserve (SubmissionId req) reg), h))"
  by (simp add: SpawnVM_def Let_def)

text \<open>The histories in which a spawn can end, by the operations on the host it got to.\<close>

lemma spawn_hosts:
  fixes req :: SpawnRequest and order E reg h
  defines "wired \<equiv> snd (run_state (SetupTapInterface E (Timeout Request) (tap_config (SubmissionId req))) h)"
  defines "imaged \<equiv> snd (run_state (CreateSubmissionImage E (Timeout Request) order (disk_config (SubmissionId req))) wired)"
  defines "booted \<equiv> \<lambda>i ip d. snd (run_state (CreateAndBootVM E (vm_config req i ip d)) imaged)"
  defines "cleaned \<equiv> \<lambda>g. snd (run_state (CleanupTapInterface E Background (tapNameForVM (SubmissionId req))) g)"
  shows "snd (snd (run_state (SpawnVM E order req) (reg, h))) \<in>
    {h, wired, cleaned imaged} \<union> {g. \<exists>i ip d. g = booted i ip d \<or> g = cleaned (booted i ip d)}"
  by (auto simp: SpawnVM_def Let_def assms split: option.split sum.split prod.split)

text \<open>\<open>SpawnVM\<close>: the image file outlives it, whatever happens after its creation.\<close>

lemma spawn_trace:
  assumes slash: "CHR ''/'' \<notin> set (SubmissionId req)"
    and mnt: "\<forall>h. env_str E h (MkdirTemp ''fc-img-*'') \<noteq> Inr (image_path (SubmissionId req))"
    and run: "run_state (SpawnVM E order req) (reg, h) = (r, (reg', h'))"
  shows "\<exists>l. h' = h @ l \<and> keeps_image image_ctx (image_path (SubmissionId req)) l"
proof -
  let ?k = "SubmissionId req" and ?img = "image_path (SubmissionId req)"
  let ?c = "Timeout Request" and ?clean = "CleanupTapInterface E Background (tapNameForVM (SubmissionId req))"
  have "SubmissionID (disk_config ?k) = ?k" by (simp add: disk_config_def)
  then have create: "does (\<lambda>_ l. keeps_image image_ctx ?img l) (CreateSubmissionImage E ?c order (disk_config ?k))"
    using create_keeps_image [of E "disk_config ?k" ?c order] mnt slash by simp
  obtain l1 where l1: "snd (run_state (SetupTapInterface E ?c (tap_config ?k)) h) = h @ l1" "list_all (calm ?img) l1"
    by (rule addsE [OF setup_calm])
  obtain rd l2 where l2: "run_state (CreateSubmissionImage E ?c order (disk_config ?k)) (h @ l1) = (rd, (h @ l1) @ l2)"
    "keeps_image image_ctx ?img l2" using create by (rule doesE)
  have clean: "\<exists>m. snd (run_state ?clean g) = g @ m \<and> list_all (calm ?img) m" for g
    using cleanup_calm unfolding adds_def by blast
  have boot: "\<exists>m. snd (run_state (CreateAndBootVM E (vm_config req i ip d)) g) = g @ m \<and> list_all (calm ?img) m"
    for i ip d g using boot_calm [OF sockets_not_image [OF slash]] unfolding adds_def by blast
  have both: "\<exists>m. snd (run_state ?clean (snd (run_state (CreateAndBootVM E (vm_config req i ip d)) g))) = g @ m \<and>
      list_all (calm ?img) m" for i ip d g
    using boot [of i ip d g] clean by (metis append_assoc list_all_append)
  have "h' \<in> {h, h @ l1, snd (run_state ?clean ((h @ l1) @ l2))} \<union>
      {g. \<exists>i ip d. g = snd (run_state (CreateAndBootVM E (vm_config req i ip d)) ((h @ l1) @ l2)) \<or>
        g = snd (run_state ?clean (snd (run_state (CreateAndBootVM E (vm_config req i ip d)) ((h @ l1) @ l2))))}"
    using spawn_hosts [of E order req reg h] unfolding run l1(1) l2(1) by simp
  then have "h' = h \<or> h' = h @ l1 \<or> (\<exists>m. h' = ((h @ l1) @ l2) @ m \<and> list_all (calm ?img) m)"
    using clean [of "(h @ l1) @ l2"] boot [of _ _ _ "(h @ l1) @ l2"] both [of _ _ _ "(h @ l1) @ l2"] by blast
  moreover have "keeps_image image_ctx ?img []" by (simp add: keeps_image_def)
  moreover have "keeps_image image_ctx ?img l1" using l1(2) by (rule keeps_image_calm)
  moreover have "keeps_image image_ctx ?img (l1 @ l2 @ m)" if "list_all (calm ?img) m" for m
    using keeps_image_around [OF _ l2(2) that, of l1] l1(2) by (auto simp: calm_def list_all_iff)
  ultimately show ?thesis unfolding append_assoc by (metis append_Nil2)
qed

section \<open>Names of TAP interfaces\<close>

lemma length_nat_digits: "0 < k \<Longrightarrow> n < 16 ^ k \<Longrightarrow> length (nat_digits 16 n) \<le> k"
proof (induction k arbitrary: n)
  case (Suc k)
  show ?case
  proof (cases "n < 16")
    case True
    then show ?thesis by (subst nat_digits.simps) simp
  next
    case False
    then have "nat_digits 16 n = nat_digits 16 (n div 16) @ [n mod 16]" by (subst nat_digits.simps) simp
    moreover have "n div 16 < 16 ^ k" using Suc.prems(2) by (simp add: less_mult_imp_div_less mult.commute)
    moreover have "0 < k" using False Suc.prems(2) by (cases k) auto
    ultimately show ?thesis using Suc.IH [of "n div 16"] by simp
  qed
qed simp

lemma tap_hex: "length (fmt_hex 8 (unat (w :: 32 word))) = 8"
proof -
  have "unat w < 16 ^ 8" using unsigned_less [of w, where 'a = nat] by simp
  then show ?thesis using length_nat_digits [of 8 "unat w"] by (simp add: fmt_hex_def pad_zero_def)
qed

lemma digit_visible: "d < 16 \<Longrightarrow> visible (digit_char d)"
proof -
  assume "d < 16"
  then have "d \<in> {0, 1, 2, 3, 4, 5, 6, 7, 8, 9, 10, 11, 12, 13, 14, 15}"
    unfolding insert_iff empty_iff by presburger
  then show ?thesis by (auto simp: digit_char_def)
qed

lemma tap_trimmed: "TrimSpace (tapNameForVM k) = tapNameForVM k"
proof -
  let ?ds = "nat_digits 16 (unat (fnv32a k))"
  have "last ?ds < 16" by (rule nat_digits_less [of 16 _ "unat (fnv32a k)"]) simp_all
  then have "visible (digit_char (last ?ds))" by (rule digit_visible)
  moreover have "last (tapNameForVM k) = digit_char (last ?ds)"
    by (simp add: tapNameForVM_def fmt_hex_def pad_zero_def last_map)
  ultimately show ?thesis by (intro TrimSpace_visible) (simp_all add: tapNameForVM_def)
qed

section \<open>Shutdown\<close>

abbreviation any_trace :: "sdk_call history \<Rightarrow> bool" where
  "any_trace \<equiv> list_all (\<lambda>_. True)"

lemma detach_adds: "adds any_trace (DetachProber E p)"
  unfolding DetachProber_def close_opt_def link_Close_def close_legacy_def
  by (intro every.intros) simp_all

lemma cleanup_image_run:
  "\<exists>l. snd (run_state (CleanupSubmissionImage E p) h) = h @ l \<and>
     (TrimSpace p \<noteq> '''' \<longrightarrow> Remove p \<in> fst ` set l)"
  by (auto simp: CleanupSubmissionImage_def split: option.split)

lemma cleanup_any: "adds any_trace (CleanupTapInterface E c tap)"
  by (rule adds_mono [OF cleanup_calm [where img = "''''"]]) (simp add: list_all_iff)

text \<open>What the shutdown of a VM must have asked for.\<close>

definition shut_down :: "ActiveVM \<Rightarrow> sdk_call history \<Rightarrow> bool" where
  "shut_down vm l \<longleftrightarrow> (\<forall>m. Machine vm = Some m \<longrightarrow> Sdk (StopVMM m) \<in> fst ` set l) \<and>
     (TrimSpace (vm_SubmissionDisk vm) \<noteq> '''' \<longrightarrow> Remove (vm_SubmissionDisk vm) \<in> fst ` set l)"

lemma shut_down_append: "shut_down vm l \<Longrightarrow> shut_down vm (k @ l)"
  by (auto simp: shut_down_def)

lemma shutdown_loop_run:
  "\<exists>r reg' l. run_state (shutdown_loop E vms) (reg, h) = (r, (reg', h @ l)) \<and>
     (r \<longleftrightarrow> (\<forall>(k, vm) \<in> set vms. Machine vm \<noteq> None)) \<and>
     (r \<longrightarrow> map_of reg' = (map_of reg) |` (- fst ` set vms) \<and> (\<forall>(k, vm) \<in> set vms. shut_down vm l))"
proof (induction vms arbitrary: reg h)
  case Nil
  then show ?case by (auto simp: restrict_map_def)
next
  case (Cons p vms)
  obtain k vm where p: "p = (k, vm)" by (cases p)
  show ?case
  proof (cases "Machine vm")
    case None
    then show ?thesis by (intro exI [of _ False]) (simp add: p)
  next
    case (Some m)
    define b where "b = (env_err E h (Sdk (StopVMM m)) = None)"
    let ?h1 = "h @ [(Sdk (StopVMM m), b)]"
    obtain l1 where l1: "snd (run_state (DetachProber E (vm_Prober vm)) ?h1) = ?h1 @ l1"
      by (rule addsE [OF detach_adds])
    obtain l2 where l2: "snd (run_state (CleanupTapInterface E Background (vm_TapName vm)) (?h1 @ l1)) = (?h1 @ l1) @ l2"
      by (rule addsE [OF cleanup_any])
    let ?h2 = "?h1 @ l1 @ l2"
    obtain l3 where l3: "snd (run_state (CleanupSubmissionImage E (vm_SubmissionDisk vm)) ?h2) = ?h2 @ l3"
      "TrimSpace (vm_SubmissionDisk vm) \<noteq> '''' \<longrightarrow> Remove (vm_SubmissionDisk vm) \<in> fst ` set l3"
      using cleanup_image_run by blast
    let ?reg1 = "AList.delete k reg"
    obtain r reg' l where IH: "run_state (shutdown_loop E vms) (?reg1, ?h2 @ l3) = (r, (reg', (?h2 @ l3) @ l))"
      "r \<longleftrightarrow> (\<forall>(k, vm) \<in> set vms. Machine vm \<noteq> None)"
      "r \<longrightarrow> map_of reg' = (map_of ?reg1) |` (- fst ` set vms) \<and> (\<forall>(k, vm) \<in> set vms. shut_down vm l)"
      using Cons.IH by blast
    let ?l = "(Sdk (StopVMM m), b) # l1 @ l2 @ l3 @ l"
    have "run_state (shutdown_loop E (p # vms)) (reg, h) = (r, (reg', h @ ?l))"
      using Some l1 l2 l3(1) IH(1) by (simp add: p b_def)
    moreover have "shut_down vm ?l" using l3(2) Some by (auto simp: shut_down_def)
    moreover have "r \<longrightarrow> (\<forall>(k, vm) \<in> set vms. shut_down vm ?l)"
      using IH(3) shut_down_append [of _ l "(Sdk (StopVMM m), b) # l1 @ l2 @ l3"] by fastforce
    moreover have "(map_of ?reg1) |` (- fst ` set vms) = (map_of reg) |` (- fst ` set (p # vms))"
      by (auto simp: restrict_map_def p fun_eq_iff)
    ultimately show ?thesis using IH(2,3) Some
      by (intro exI [of _ r] exI [of _ reg'] exI [of _ ?l]) (auto simp: p)
  qed
qed


section \<open>A host that cooperates\<close>

text \<open>Every command succeeds and every machine starts in time; \<open>started\<close> is false for one that is late.\<close>

definition fleet_env :: "bool \<Rightarrow> sdk_call env" where
  "fleet_env started = quiet_env\<lparr>
     env_bool := \<lambda>_ c. case c of Sdk (StartWithin m) \<Rightarrow> Inr started | _ \<Rightarrow> Inr False,
     env_str := \<lambda>_ c. case c of MkdirTemp p \<Rightarrow> Inr ''/tmp/fc-img-1'' | _ \<Rightarrow> Inr ''''\<rparr>"

lemma fleet_answers [simp]:
  "env_err (fleet_env b) h c = None" "env_names (fleet_env b) h c = Inr []" "env_int (fleet_env b) h c = Inr 1"
  "env_cmd (fleet_env b) h c = ('''', None)" "env_bool (fleet_env b) h (Sdk (StartWithin m)) = Inr b"
  "env_bool (fleet_env b) h (Stat p) = Inr False"
  "env_str (fleet_env b) h (ReadFile p) = Inr ''''" "env_str (fleet_env b) h (Getenv v) = Inr ''''"
  "env_str (fleet_env b) h (MkdirTemp p) = Inr ''/tmp/fc-img-1''"
  by (simp_all add: fleet_env_def quiet_env_def)

lemma TrimSpace_br0: "TrimSpace ''br0'' = ''br0''"
  by (rule TrimSpace_visible) simp_all

lemma fleet_command [simp]: "runCommand (fleet_env b) c n args = State (\<lambda>h. (None, h @ [(Command c n args, True)]))"
  by (rule state.expand, rule ext) (simp add: runCommand_def)

lemma fleet_tap: "fst (run_state (SetupTapInterface (fleet_env b) c (tap_config k)) h) = None"
  using tap_trimmed [of k] TrimSpace_br0
  by (simp add: SetupTapInterface_def validateTAPConfig_def tap_config_def interfaceExists_def Let_def)
    (simp add: tapNameForVM_def)

lemma fleet_copy: "fst (run_state (copyFilesIntoMount (fleet_env b) m files) h) = None"
  by (induction files arbitrary: h) auto

lemma fleet_disk:
  assumes "TrimSpace k \<noteq> ''''"
  shows "fst (run_state (CreateSubmissionImage (fleet_env b) c order (disk_config k)) h) = Inr (image_path k)"
proof -
  have s: "TrimSpace ''../../sandbox/strategy_bin'' = ''../../sandbox/strategy_bin''"
    by (rule TrimSpace_visible) simp_all
  have f: "fst (run_state (fill_image (fleet_env b) c order ws img m) h) = Inr img" for c ws img m h
    using fleet_copy [of b m "order [(''run.sh'', path_Join [ws, ''run.sh'']), (''strategy_bin'', path_Join [ws, ''strategy_bin''])]"
        "h @ [(mount_call c img m, True)]"]
    by (auto simp: fill_image_def runDiskCommand_eq split: prod.split option.split)
  have m: "fst (run_state (make_image (fleet_env b) c order ws img) h) = Inr img" for c ws img h
    by (simp add: make_image_def runDiskCommand_eq f)
  show ?thesis using assms s
    by (simp add: CreateSubmissionImage_def validateSubmissionImageConfig_def disk_config_def
        prepare_workspace_def m Let_def)
qed

lemma fleet_boot:
  assumes "validateConfig cfg = None"
  shows "fst (run_state (CreateAndBootVM (fleet_env True) cfg) h) = Inr (1, vsock_path cfg)"
    and "fst (run_state (CreateAndBootVM (fleet_env False) cfg) h) =
      Inl (errors_New (''timeout starting machine vm_id='' @ VMID cfg))"
  using assms by (simp_all add: CreateAndBootVM_def boot_start_def boot_machine_def)

lemma vm_config_valid:
  "validateSpawnRequest req = None \<Longrightarrow> validateConfig (vm_config req i ip d) = None"
  by (auto simp: validateSpawnRequest_def validateConfig_def vm_config_def split: if_splits)


definition demo_spawn :: "string \<Rightarrow> SpawnRequest" where
  "demo_spawn k = \<lparr>SubmissionId = k, VcpuCount = 1, MemoryMib = 256\<rparr>"

lemma demo_spawn_valid: "k \<noteq> '''' \<Longrightarrow> validateSpawnRequest (demo_spawn k) = None"
  by (simp add: validateSpawnRequest_def demo_spawn_def)

lemma demo_spawn_views [simp]: "SubmissionId (demo_spawn k) = k"
  by (simp add: demo_spawn_def)

lemma free_empty: "free_index [] i \<longleftrightarrow> i \<in> {2..254}"
  by (simp add: free_index_def)

lemma reserve_empty: "reserve k [] = (Inr (2, ip_of 2), [(k, tentative k (ip_of 2))])"
proof -
  have "reg_ok []" by (simp add: reg_ok_def)
  then show ?thesis
  proof (cases rule: reserve_cases [where vmID = k])
    case (full msg)
    then show ?thesis using free_empty [of 2] by simp
  next
    case (reserved i)
    have "i \<le> 2" using reserved(3) free_empty by simp
    moreover have "2 \<le> i" using reserved(2) free_empty by simp
    ultimately have "i = 2" by simp
    with reserved(4) show ?thesis by simp
  qed simp
qed

lemma fleet_spawn:
  assumes "k \<noteq> ''''" "TrimSpace k \<noteq> ''''"
  shows "fst (run_state (SpawnVM (fleet_env True) order (demo_spawn k)) ([], h)) =
      spawn_success (demo_spawn k) (active_vm (demo_spawn k) (ip_of 2) (image_path k)
        (1, vsock_path (vm_config (demo_spawn k) 2 (ip_of 2) (image_path k))))"
    and "fst (run_state (SpawnVM (fleet_env False) order (demo_spawn k)) ([], h)) =
      spawn_failure (''timeout starting machine vm_id='' @ k)"
proof -
  have v: "validateSpawnRequest (demo_spawn k) = None" using assms(1) by (rule demo_spawn_valid)
  note boot = fleet_boot [OF vm_config_valid [OF v]]
  have e: "fst x = y \<Longrightarrow> (case x of (a, b) \<Rightarrow> f a b) = f y (snd x)" for x y f by (cases x) simp
  show "fst (run_state (SpawnVM (fleet_env True) order (demo_spawn k)) ([], h)) =
      spawn_success (demo_spawn k) (active_vm (demo_spawn k) (ip_of 2) (image_path k)
        (1, vsock_path (vm_config (demo_spawn k) 2 (ip_of 2) (image_path k))))"
    by (simp add: SpawnVM_def Let_def v reserve_empty fleet_tap fleet_disk [OF assms(2)] boot)
  show "fst (run_state (SpawnVM (fleet_env False) order (demo_spawn k)) ([], h)) =
      spawn_failure (''timeout starting machine vm_id='' @ k)"
    by (simp add: SpawnVM_def Let_def v reserve_empty fleet_tap fleet_disk [OF assms(2)] boot)
      (simp add: errors_New_def vm_config_def)
qed

section \<open>Properties\<close>

text \<open>
  C9. A spawn that runs without interference keeps the registry a map of VMs with
  addresses of the subnet. On success it has added exactly one entry, under the id of the
  request, with a machine and the least address that was free, and the response carries
  this address and the socket of the entry. On failure, at whatever point, the registry is
  as before: the reservation is gone.
\<close>

theorem spawn_registry:
  assumes "reg_ok reg" "run_state (SpawnVM E order req) (reg, h) = (r, (reg', h'))"
  shows "reg_ok reg' \<and>
    ((\<exists>resp. r = Inr resp \<and> sr_Success resp) \<longrightarrow>
       (\<exists>resp vm i. r = Inr resp \<and> map_of reg (SubmissionId req) = None \<and>
          map_of reg' = (map_of reg)(SubmissionId req \<mapsto> vm) \<and> Machine vm \<noteq> None \<and>
          free_index reg i \<and> (\<forall>j. free_index reg j \<longrightarrow> i \<le> j) \<and> vm_IPAddress vm = ip_of i \<and>
          sr_VmId resp = ''vm-'' @ SubmissionId req \<and> sr_IpAddress resp = vm_IPAddress vm \<and>
          sr_VsockPath resp = vm_VsockPath vm)) \<and>
    (\<not> (\<exists>resp. r = Inr resp \<and> sr_Success resp) \<longrightarrow> map_of reg' = map_of reg)"
  using spawn_run [OF assms] unfolding spawn_effect_def by auto

theorem spawn_registry_witness:
  "\<exists>reg' h' resp vm. run_state (SpawnVM (fleet_env True) id (demo_spawn ''a'')) ([], []) = (Inr resp, (reg', h')) \<and>
     sr_Success resp \<and> map_of reg' ''a'' = Some vm \<and> sr_IpAddress resp = vm_IPAddress vm"
proof -
  have t: "TrimSpace ''a'' \<noteq> ''''" by (subst TrimSpace_visible) simp_all
  obtain r reg' h' where run: "run_state (SpawnVM (fleet_env True) id (demo_spawn ''a'')) ([], []) = (r, (reg', h'))"
    by (metis prod.collapse)
  have s: "\<exists>resp. r = Inr resp \<and> sr_Success resp"
    using fleet_spawn(1) [of "''a''" id "[]"] run t by (simp add: spawn_success_def)
  have "reg_ok []" by (simp add: reg_ok_def)
  from spawn_registry [OF this run] s obtain resp vm where r: "r = Inr resp"
    "map_of reg' = (map_of [])(''a'' \<mapsto> vm)" "sr_IpAddress resp = vm_IPAddress vm" by auto
  then have "map_of reg' ''a'' = Some vm" by simp
  with r run s show ?thesis by blast
qed

text \<open>
  The name of a TAP interface always has 11 characters, \<open>tap\<close> and eight hexadecimal
  digits, within the 15 that Linux allows, but it does not identify the VM: the submission
  ids \<open>costarring\<close> and \<open>liquid\<close> share one.
\<close>

theorem tap_names:
  "length (tapNameForVM k) = 11 \<and> HasPrefix (tapNameForVM k) ''tap'' \<and>
   tapNameForVM ''costarring'' = tapNameForVM ''liquid''"
proof -
  have "fnv32a ''costarring'' = fnv32a ''liquid''" by (simp add: fnv32a_def)
  then show ?thesis by (simp add: tapNameForVM_def tap_hex HasPrefix_def)
qed


text \<open>
  On a host that lists its interfaces truthfully, a submission whose id has the same
  hash as that of a VM whose TAP interface exists cannot be spawned: the request fails and
  the registry is as before.
\<close>

theorem colliding_ids_block:
  assumes "reg_ok reg" "ip_world W E" "W h (tapNameForVM a)"
    "tapNameForVM (SubmissionId req) = tapNameForVM a"
    "run_state (SpawnVM E order req) (reg, h) = (r, (reg', h'))"
  shows "\<not> (\<exists>resp. r = Inr resp \<and> sr_Success resp) \<and> map_of reg' = map_of reg"
proof -
  let ?k = "SubmissionId req"
  obtain t h1 where t: "run_state (SetupTapInterface E (Timeout Request) (tap_config ?k)) h = (t, h1)" by fastforce
  then have "t \<noteq> None"
    using SetupTap_outcome [OF assms(2) t] assms(3,4) by (auto simp: tap_outcome_def tap_config_def Let_def)
  then obtain err where err: "t = Some err" by auto
  have "\<not> (\<exists>resp. r = Inr resp \<and> sr_Success resp)"
  proof (cases "validateSpawnRequest req")
    case (Some st)
    then show ?thesis using spawn_invalid assms(5) by fastforce
  next
    case None
    from assms(1) show ?thesis
    proof (cases rule: reserve_cases [where vmID = ?k])
      case (taken vm)
      then show ?thesis using spawn_refused [OF None, of reg _ E order h] assms(5)
        by (auto simp: spawn_failure_def)
    next
      case (full msg)
      then show ?thesis using spawn_refused [OF None, of reg _ E order h] assms(5) by auto
    next
      case (reserved i)
      then show ?thesis using assms(5) t err None by (auto simp: SpawnVM_def Let_def)
    qed
  qed
  then show ?thesis using spawn_run [OF assms(1,5)] by (auto simp: spawn_effect_def)
qed

text \<open>The interface of \<open>liquid\<close> has been added.\<close>

theorem colliding_ids_block_witness:
  "\<exists>r reg' h'. run_state (SpawnVM (ip_host (\<lambda>_. False) (\<lambda>_. True)) id (demo_spawn ''costarring''))
       ([], [(Command Background ''ip'' (add_args (tapNameForVM ''liquid'')), True)]) = (r, (reg', h')) \<and>
     map_of reg' = Map.empty \<and> \<not> (\<exists>resp. r = Inr resp \<and> sr_Success resp)"
proof -
  let ?h = "[(Command Background ''ip'' (add_args (tapNameForVM ''liquid'')), True)] :: sdk_call history"
  obtain r reg' h' where run:
    "run_state (SpawnVM (ip_host (\<lambda>_. False) (\<lambda>_. True)) id (demo_spawn ''costarring'')) ([], ?h) = (r, (reg', h'))"
    by (metis prod.collapse)
  have "fnv32a ''costarring'' = fnv32a ''liquid''" by (simp add: fnv32a_def)
  then have t: "tapNameForVM (SubmissionId (demo_spawn ''costarring'')) = tapNameForVM ''liquid''"
    by (simp add: tapNameForVM_def)
  have "reg_ok []" "iface (\<lambda>_. False) ?h (tapNameForVM ''liquid'')" by (simp_all add: reg_ok_def iface_def)
  from colliding_ids_block [OF this(1) ip_host_world this(2) t run] run show ?thesis by auto
qed

text \<open>
  A failed spawn leaves the image of the submission behind. For an id without
  slashes: once the image file has been allocated, it still exists at the end, although
  the registry no longer knows the VM, so that no teardown will remove it.
\<close>

theorem failed_spawn_leaks_image:
  assumes "reg_ok reg" "CHR ''/'' \<notin> set (SubmissionId req)"
    "\<forall>h. env_str E h (MkdirTemp ''fc-img-*'') \<noteq> Inr (image_path (SubmissionId req))"
    "run_state (SpawnVM E order req) (reg, h) = (r, (reg', h @ l))"
    "\<not> (\<exists>resp. r = Inr resp \<and> sr_Success resp)"
    "(alloc_call image_ctx (image_path (SubmissionId req)), True) \<in> set l"
  shows "file_after (image_path (SubmissionId req)) (h @ l) \<and> map_of reg' = map_of reg"
proof -
  from spawn_trace [OF assms(2,3,4)] have "keeps_image image_ctx (image_path (SubmissionId req)) l" by simp
  then have "file_after (image_path (SubmissionId req)) (h @ l)"
    using assms(6) by (simp add: keeps_image_def)
  moreover have "map_of reg' = map_of reg"
    using spawn_run [OF assms(1,4)] assms(5) by (auto simp: spawn_effect_def)
  ultimately show ?thesis ..
qed

lemma grows: "adds any_trace m \<Longrightarrow> x \<in> set h \<Longrightarrow> x \<in> set (snd (run_state m h))"
  unfolding adds_def by (metis Un_iff set_append)

lemma boot_any: "adds any_trace (CreateAndBootVM E (vm_config (demo_spawn ''a'') i ip d))"
proof -
  have "CHR ''/'' \<notin> set (SubmissionId (demo_spawn ''a''))" by simp
  from boot_calm [OF sockets_not_image [OF this]] show ?thesis by (rule adds_mono) (simp add: list_all_iff)
qed

theorem failed_spawn_leaks_image_witness:
  "\<exists>h'. snd (snd (run_state (SpawnVM (fleet_env False) id (demo_spawn ''a'')) ([], []))) = h' \<and>
     file_after (image_path ''a'') h'"
proof -
  let ?E = "fleet_env False" and ?req = "demo_spawn ''a''"
  have t: "TrimSpace ''a'' \<noteq> ''''" by (subst TrimSpace_visible) simp_all
  have st: "TrimSpace ''../../sandbox/strategy_bin'' = ''../../sandbox/strategy_bin''"
    by (rule TrimSpace_visible) simp_all
  have v: "validateSpawnRequest ?req = None" by (rule demo_spawn_valid) simp
  obtain r reg' l where run: "run_state (SpawnVM ?E id ?req) ([], []) = (r, (reg', [] @ l))"
    by (metis append_Nil prod.collapse)
  have fail: "\<not> (\<exists>resp. r = Inr resp \<and> sr_Success resp)"
    using fleet_spawn(2) [of "''a''" id "[]"] run t by (simp add: spawn_failure_def)
  let ?h1 = "snd (run_state (SetupTapInterface ?E (Timeout Request) (tap_config ''a'')) [])"
  let ?h2 = "snd (run_state (CreateSubmissionImage ?E (Timeout Request) id (disk_config ''a'')) ?h1)"
  let ?h3 = "snd (run_state (CreateAndBootVM ?E (vm_config ?req 2 (ip_of 2) (image_path ''a''))) ?h2)"
  have "(alloc_call image_ctx (image_path ''a''), True) \<in> set ?h2"
    using t st by (simp add: CreateSubmissionImage_def validateSubmissionImageConfig_def disk_config_def
        prepare_workspace_def make_image_def fill_image_def runDiskCommand_eq Itoa_64 Let_def)
  then have "(alloc_call image_ctx (image_path ''a''), True) \<in> set ?h3" by (rule grows [OF boot_any])
  then have "(alloc_call image_ctx (image_path ''a''), True)
      \<in> set (snd (run_state (CleanupTapInterface ?E Background (tapNameForVM ''a'')) ?h3))"
    by (rule grows [OF cleanup_any])
  moreover have "l = snd (run_state (CleanupTapInterface ?E Background (tapNameForVM ''a'')) ?h3)"
    using run by (simp add: SpawnVM_def Let_def v reserve_empty fleet_tap fleet_disk [OF t]
        fleet_boot [OF vm_config_valid [OF v]])
  ultimately have a: "(alloc_call image_ctx (image_path (SubmissionId ?req)), True) \<in> set l" by simp
  have "reg_ok []" by (simp add: reg_ok_def)
  moreover have "\<forall>h. env_str ?E h (MkdirTemp ''fc-img-*'') \<noteq> Inr (image_path (SubmissionId ?req))"
    using disk_paths(2) [of "''a''"] by simp
  ultimately have "file_after (image_path (SubmissionId ?req)) ([] @ l)"
    using failed_spawn_leaks_image [OF _ _ _ run fail a] by simp
  then show ?thesis using run by simp
qed

text \<open>
  \<open>shutdownAllVMs\<close>, in whatever order Go ranges over the registry, comes to its end
  exactly when every VM has a machine; then the registry is empty, every machine has been
  told to stop and every image has been removed, whatever failed on the way.
\<close>

lemma shutdown_run:
  assumes "set (visit reg) = set reg" "wf_alist reg"
    "run_state (shutdownAllVMs E visit) (reg, h) = (r, (reg', h'))"
  shows "(r \<longleftrightarrow> (\<forall>k vm. map_of reg k = Some vm \<longrightarrow> Machine vm \<noteq> None)) \<and>
    (r \<longrightarrow> map_of reg' = Map.empty \<and>
       (\<exists>l. h' = h @ l \<and> (\<forall>k vm. map_of reg k = Some vm \<longrightarrow> shut_down vm l)))"
proof -
  have m: "map_of reg k = Some vm \<longleftrightarrow> (k, vm) \<in> set (visit reg)" for k vm
    using assms(1,2) by simp
  obtain r0 reg0 l where l: "run_state (shutdown_loop E (visit reg)) (reg, h) = (r0, (reg0, h @ l))"
    "r0 \<longleftrightarrow> (\<forall>(k, vm) \<in> set (visit reg). Machine vm \<noteq> None)"
    "r0 \<longrightarrow> map_of reg0 = (map_of reg) |` (- fst ` set (visit reg)) \<and> (\<forall>(k, vm) \<in> set (visit reg). shut_down vm l)"
    using shutdown_loop_run by blast
  then have e: "r0 = r" "reg0 = reg'" "h' = h @ l" using assms(3) by (auto simp: shutdownAllVMs_def)
  have "(map_of reg) |` (- fst ` set (visit reg)) = Map.empty"
    unfolding assms(1) by (auto simp: restrict_map_def fun_eq_iff map_of_eq_None_iff)
  then have "r \<longrightarrow> map_of reg' = Map.empty" using l(3) unfolding e by simp
  moreover have "r \<longleftrightarrow> (\<forall>k vm. map_of reg k = Some vm \<longrightarrow> Machine vm \<noteq> None)"
    using l(2) unfolding e m by auto
  moreover have "r \<longrightarrow> (\<forall>k vm. map_of reg k = Some vm \<longrightarrow> shut_down vm l)"
    using l(3) unfolding e m by auto
  ultimately show ?thesis using e(3) by blast
qed

definition demo_active :: ActiveVM where
  "demo_active = active_vm (demo_spawn ''a'') ''172.16.0.2'' ''/tmp/submission-a.ext4'' (7, ''/tmp/vsock-a.sock'')"

lemma shutdown_demo:
  "\<exists>reg' h'. run_state (shutdownAllVMs (fleet_env True) id) ([(''a'', demo_active)], []) = (True, (reg', h')) \<and>
     map_of reg' = Map.empty \<and> Sdk (StopVMM 7) \<in> fst ` set h'"
proof -
  obtain r reg' h' where run: "run_state (shutdownAllVMs (fleet_env True) id) ([(''a'', demo_active)], []) = (r, (reg', h'))"
    by (metis prod.collapse)
  have m: "Machine demo_active = Some 7" by (simp add: demo_active_def)
  have "set (id [(''a'', demo_active)]) = set [(''a'', demo_active)]" "wf_alist [(''a'', demo_active)]" by simp_all
  from shutdown_run [OF this run] have r: "r" "map_of reg' = Map.empty"
    "\<exists>l. h' = [] @ l \<and> (\<forall>k vm. map_of [(''a'', demo_active)] k = Some vm \<longrightarrow> shut_down vm l)"
    using m by auto
  have "map_of [(''a'', demo_active)] ''a'' = Some demo_active" by simp
  with r(3) have "shut_down demo_active h'" by (metis append_Nil)
  then have "Sdk (StopVMM 7) \<in> fst ` set h'" using m unfolding shut_down_def by blast
  then show ?thesis using run r(1,2) by (intro exI [of _ reg'] exI [of _ h']) simp
qed

end
