(* ===== verification/Orchestrator_Steps.thy ===== *)
theory Orchestrator_Steps
  imports Orchestrator
begin

text \<open>
  The orchestrator under concurrent requests. \<open>SpawnVM\<close> and \<open>TeardownVM\<close> are cut at their
  critical sections and at the host operations between them; a request in progress is a
  task, and any task may take the next step. One uninterrupted request does exactly what
  the program of the previous theory does.
\<close>

section \<open>Tasks\<close>

datatype task = Idle
  | Reserving SpawnRequest
  | Wiring SpawnRequest int string
  | Imaging SpawnRequest int string
  | Booting SpawnRequest int string string
  | Unwiring SpawnRequest "SpawnResponse rpc"
  | Releasing SpawnRequest "SpawnResponse rpc"
  | Publishing SpawnRequest ActiveVM
  | Spawned "SpawnResponse rpc"
  | Finding string
  | Stopping string ActiveVM int
  | Forgetting string ActiveVM
  | Detaching ActiveVM
  | Unplugging ActiveVM
  | Erasing ActiveVM
  | TornDown teardown_outcome

type_synonym file_order = "(string \<times> string) list \<Rightarrow> (string \<times> string) list"

fun task_step :: "sdk_call env \<Rightarrow> file_order \<Rightarrow> task \<Rightarrow> task srv" where
  "task_step E order (Reserving req) =
     (case validateSpawnRequest req of
        Some st \<Rightarrow> ret (Spawned (Inl st))
      | None \<Rightarrow> State_Monad.bind (locked (reserve (SubmissionId req))) (\<lambda>reserved.
          case reserved of Inl reply \<Rightarrow> ret (Spawned reply) | Inr (i, ip) \<Rightarrow> ret (Wiring req i ip)))"
| "task_step E order (Wiring req i ip) =
     if_err (on_host (SetupTapInterface E (Timeout Request) (tap_config (SubmissionId req))))
       (\<lambda>err. ret (Releasing req (Inl (Internal (''host networking layer provisioning failed: '' @ err_msg err)))))
       (ret (Imaging req i ip))"
| "task_step E order (Imaging req i ip) =
     with_val (on_host (CreateSubmissionImage E (Timeout Request) order (disk_config (SubmissionId req))))
       (\<lambda>err. ret (Unwiring req (Inl (Internal (''submission disk provisioning failed: '' @ err_msg err)))))
       (\<lambda>disk. ret (Booting req i ip disk))"
| "task_step E order (Booting req i ip disk) =
     with_val (on_host (CreateAndBootVM E (vm_config req i ip disk)))
       (\<lambda>err. ret (Unwiring req (spawn_failure (err_msg err))))
       (\<lambda>booted. ret (Publishing req (active_vm req ip disk booted)))"
| "task_step E order (Unwiring req reply) =
     and_then (on_host (CleanupTapInterface E Background (tapNameForVM (SubmissionId req))))
       (ret (Releasing req reply))"
| "task_step E order (Releasing req reply) =
     and_then (locked (release (SubmissionId req))) (ret (Spawned reply))"
| "task_step E order (Publishing req vm) =
     and_then (locked (publish (SubmissionId req) vm)) (ret (Spawned (spawn_success req vm)))"
| "task_step E order (Finding vmID) =
     State_Monad.bind (locked (find_vm vmID)) (\<lambda>found. case found of
       None \<Rightarrow> ret (TornDown (Answered (Inr \<lparr>td_Success = False, td_ErrorMessage = ''vm not found''\<rparr>)))
     | Some vm \<Rightarrow> (case Machine vm of
         None \<Rightarrow> ret (TornDown NilMachine)
       | Some machine \<Rightarrow> ret (Stopping vmID vm machine)))"
| "task_step E order (Stopping vmID vm machine) =
     if_err (on_host (call_err E (Sdk (StopVMM machine))))
       (\<lambda>err. ret (TornDown (Answered (Inr \<lparr>td_Success = False, td_ErrorMessage = err_msg err\<rparr>))))
       (ret (Forgetting vmID vm))"
| "task_step E order (Forgetting vmID vm) = and_then (locked (release vmID)) (ret (Detaching vm))"
| "task_step E order (Detaching vm) =
     and_then (on_host (DetachProber E (vm_Prober vm))) (ret (Unplugging vm))"
| "task_step E order (Unplugging vm) =
     and_then (on_host (CleanupTapInterface E Background (vm_TapName vm))) (ret (Erasing vm))"
| "task_step E order (Erasing vm) =
     and_then (on_host (CleanupSubmissionImage E (vm_SubmissionDisk vm)))
       (ret (TornDown (Answered (Inr \<lparr>td_Success = True, td_ErrorMessage = ''''\<rparr>))))"
| "task_step E order t = ret t"

definition teardown_task :: "string \<Rightarrow> task" where
  "teardown_task vm_id =
     (if vm_id = '''' then TornDown (Answered (Inl (InvalidArgument ''vm_id is required'')))
      else Finding (TrimPrefix vm_id ''vm-''))"

fun drive :: "sdk_call env \<Rightarrow> file_order \<Rightarrow> nat \<Rightarrow> task \<Rightarrow> task srv" where
  "drive E order 0 t = ret t"
| "drive E order (Suc n) t = State_Monad.bind (task_step E order t) (drive E order n)"

section \<open>The server\<close>

record orch =
  orch_reg :: registry
  orch_hist :: "sdk_call history"
  orch_tasks :: "nat \<Rightarrow> task"

definition orch_init :: orch where
  "orch_init = \<lparr>orch_reg = newServer, orch_hist = [], orch_tasks = (\<lambda>_. Idle)\<rparr>"

datatype orch_event = SpawnCall nat SpawnRequest | TeardownCall nat string | Advance nat

definition advance :: "sdk_call env \<Rightarrow> file_order \<Rightarrow> nat \<Rightarrow> orch \<Rightarrow> orch" where
  "advance E order i s =
     (case run_state (task_step E order (orch_tasks s i)) (orch_reg s, orch_hist s) of
        (t, (reg, h)) \<Rightarrow> \<lparr>orch_reg = reg, orch_hist = h, orch_tasks = (orch_tasks s)(i := t)\<rparr>)"

fun orch_step :: "sdk_call env \<Rightarrow> file_order \<Rightarrow> orch_event \<Rightarrow> orch \<Rightarrow> orch option" where
  "orch_step E order (SpawnCall i req) s =
     (if orch_tasks s i = Idle then Some (s\<lparr>orch_tasks := (orch_tasks s)(i := Reserving req)\<rparr>) else None)"
| "orch_step E order (TeardownCall i vm_id) s =
     (if orch_tasks s i = Idle then Some (s\<lparr>orch_tasks := (orch_tasks s)(i := teardown_task vm_id)\<rparr>) else None)"
| "orch_step E order (Advance i) s = Some (advance E order i s)"

text \<open>
  Orderly clients: a teardown looks up a VM only when no other teardown of it is under way
  and its spawn has finished. (The submission API tears a VM down once, after its spawn.)
\<close>

fun tearing :: "task \<Rightarrow> string option" where
  "tearing (Stopping k vm m) = Some k"
| "tearing (Forgetting k vm) = Some k"
| "tearing t = None"

fun orderly :: "orch_event \<Rightarrow> orch \<Rightarrow> bool" where
  "orderly (Advance i) s \<longleftrightarrow>
     (\<forall>k. orch_tasks s i = Finding k \<longrightarrow>
        (\<forall>vm. map_of (orch_reg s) k = Some vm \<longrightarrow> Machine vm \<noteq> None) \<and> (\<forall>j. tearing (orch_tasks s j) \<noteq> Some k))"
| "orderly e s \<longleftrightarrow> True"

definition orch_rel :: "(orch_event \<Rightarrow> orch \<Rightarrow> bool) \<Rightarrow> orch \<Rightarrow> orch \<Rightarrow> bool" where
  "orch_rel ok s t \<longleftrightarrow> (\<exists>E order. event_rel (orch_step E order) ok s t)"

lemma orch_relI: "ok e s \<Longrightarrow> orch_step E order e s = Some t \<Longrightarrow> orch_rel ok s t"
  unfolding orch_rel_def event_rel_def by blast

section \<open>Requests without interference\<close>

lemma drive_spawn:
  "run_state (drive E order 7 (Reserving req)) (reg, h) =
     (Spawned (fst (run_state (SpawnVM E order req) (reg, h))), snd (run_state (SpawnVM E order req) (reg, h)))"
  by (simp add: SpawnVM_def eval_nat_numeral Let_def split: option.split sum.split prod.split)

lemma drive_teardown:
  "run_state (drive E order 6 (teardown_task vm_id)) (reg, h) =
     (TornDown (fst (run_state (TeardownVM E vm_id) (reg, h))), snd (run_state (TeardownVM E vm_id) (reg, h)))"
  by (simp add: TeardownVM_def teardown_task_def purge_def eval_nat_numeral Let_def split: option.split prod.split)

section \<open>What a step does to the registry\<close>

text \<open>The id that a task has reserved, and the address it will run under.\<close>

fun holding :: "task \<Rightarrow> string option" where
  "holding (Wiring req i ip) = Some (SubmissionId req)"
| "holding (Imaging req i ip) = Some (SubmissionId req)"
| "holding (Booting req i ip disk) = Some (SubmissionId req)"
| "holding (Unwiring req r) = Some (SubmissionId req)"
| "holding (Releasing req r) = Some (SubmissionId req)"
| "holding (Publishing req vm) = Some (SubmissionId req)"
| "holding t = None"

fun claiming :: "task \<Rightarrow> string option" where
  "claiming (Wiring req i ip) = Some ip"
| "claiming (Imaging req i ip) = Some ip"
| "claiming (Booting req i ip disk) = Some ip"
| "claiming (Publishing req vm) = Some (vm_IPAddress vm)"
| "claiming t = None"

fun well_formed :: "task \<Rightarrow> bool" where
  "well_formed (Publishing req vm) \<longleftrightarrow> vm_VMID vm = SubmissionId req \<and> Machine vm \<noteq> None"
| "well_formed (TornDown NilMachine) \<longleftrightarrow> False"
| "well_formed t \<longleftrightarrow> True"

inductive moves :: "task \<Rightarrow> registry \<Rightarrow> task \<Rightarrow> registry \<Rightarrow> bool" where
  quiet: "holding t' = holding t \<Longrightarrow> claiming t' = None \<or> claiming t' = claiming t \<Longrightarrow>
    tearing t' = None \<or> tearing t' = tearing t \<Longrightarrow> well_formed t \<longrightarrow> well_formed t' \<Longrightarrow> moves t reg t' reg"
| reserves: "map_of reg (SubmissionId req) = None \<Longrightarrow> free_index reg i \<Longrightarrow>
    moves (Reserving req) reg (Wiring req i (ip_of i))
      (AList.update (SubmissionId req) (tentative (SubmissionId req) (ip_of i)) reg)"
| releases: "moves (Releasing req r) reg (Spawned r) (AList.delete (SubmissionId req) reg)"
| publishes: "moves (Publishing req vm) reg (Spawned (spawn_success req vm)) (AList.update (SubmissionId req) vm reg)"
| finds: "map_of reg k = Some vm \<Longrightarrow> Machine vm = Some m \<Longrightarrow> moves (Finding k) reg (Stopping k vm m) reg"
| finds_nil: "map_of reg k = Some vm \<Longrightarrow> Machine vm = None \<Longrightarrow> moves (Finding k) reg (TornDown NilMachine) reg"
| forgets: "moves (Forgetting k vm) reg (Detaching vm) (AList.delete k reg)"

lemma task_step_moves:
  assumes "reg_ok reg" "run_state (task_step E order t) (reg, h) = (t', (reg', h'))"
  shows "moves t reg t' reg'"
proof (cases t)
  case (Reserving req)
  show ?thesis
  proof (cases "validateSpawnRequest req")
    case (Some st)
    with assms(2) Reserving show ?thesis by (auto intro: quiet)
  next
    case None
    from assms(1) show ?thesis
      by (cases rule: reserve_cases [where vmID = "SubmissionId req"])
        (use assms(2) Reserving None in \<open>auto intro: quiet reserves\<close>)
  qed
next
  case (Finding k)
  then show ?thesis using assms(2)
    by (auto intro: quiet finds finds_nil split: option.splits)
qed (use assms(2) in \<open>auto intro: quiet releases publishes forgets split: option.splits sum.splits prod.splits\<close>)


section \<open>The invariant of orderly runs\<close>

definition distinct_ips :: "registry \<Rightarrow> bool" where
  "distinct_ips reg \<longleftrightarrow> (\<forall>k k' vm vm'. map_of reg k = Some vm \<and> map_of reg k' = Some vm' \<and>
     vm_IPAddress vm = vm_IPAddress vm' \<longrightarrow> k = k')"

text \<open>A reservation is a tentative entry that exactly one spawn holds; a VM is torn down once.\<close>

definition reservations :: "registry \<Rightarrow> (nat \<Rightarrow> task) \<Rightarrow> bool" where
  "reservations reg T \<longleftrightarrow>
     (\<forall>i k. holding (T i) = Some k \<longrightarrow> (\<exists>vm. map_of reg k = Some vm \<and> Machine vm = None \<and>
        (\<forall>ip. claiming (T i) = Some ip \<longrightarrow> vm_IPAddress vm = ip))) \<and>
     (\<forall>i j k. holding (T i) = Some k \<and> holding (T j) = Some k \<longrightarrow> i = j)"

definition teardowns :: "registry \<Rightarrow> (nat \<Rightarrow> task) \<Rightarrow> bool" where
  "teardowns reg T \<longleftrightarrow>
     (\<forall>i k. tearing (T i) = Some k \<longrightarrow> (\<exists>vm. map_of reg k = Some vm \<and> Machine vm \<noteq> None)) \<and>
     (\<forall>i j k. tearing (T i) = Some k \<and> tearing (T j) = Some k \<longrightarrow> i = j)"

definition all_held :: "registry \<Rightarrow> (nat \<Rightarrow> task) \<Rightarrow> bool" where
  "all_held reg T \<longleftrightarrow>
     (\<forall>k vm. map_of reg k = Some vm \<and> Machine vm = None \<longrightarrow> (\<exists>i. holding (T i) = Some k))"

definition orch_inv :: "registry \<Rightarrow> (nat \<Rightarrow> task) \<Rightarrow> bool" where
  "orch_inv reg T \<longleftrightarrow> reg_ok reg \<and> distinct_ips reg \<and> reservations reg T \<and> teardowns reg T \<and>
     all_held reg T \<and> (\<forall>i. well_formed (T i))"

lemma inv_quiet:
  assumes "orch_inv reg T" "holding t' = holding (T i)" "claiming t' = None \<or> claiming t' = claiming (T i)"
    "tearing t' = None \<or> tearing t' = tearing (T i)" "well_formed t'"
  shows "orch_inv reg (T(i := t'))"
proof -
  have H: "holding ((T(i := t')) j) = holding (T j)" for j using assms(2) by simp
  have C: "claiming ((T(i := t')) j) = Some ip \<Longrightarrow> claiming (T j) = Some ip" for j ip
    using assms(3) by (auto split: if_splits)
  have D: "tearing ((T(i := t')) j) = Some k \<Longrightarrow> tearing (T j) = Some k" for j k
    using assms(4) by (auto split: if_splits)
  have "reservations reg (T(i := t'))"
    using assms(1) C unfolding orch_inv_def reservations_def H by meson
  moreover have "teardowns reg (T(i := t'))"
    using assms(1) D unfolding orch_inv_def teardowns_def by meson
  moreover have "all_held reg (T(i := t'))"
    using assms(1) unfolding orch_inv_def all_held_def H by meson
  ultimately show ?thesis using assms(1,5) unfolding orch_inv_def by simp
qed

text \<open>Free ids are in nobody's hands.\<close>

lemma inv_unregistered:
  assumes "orch_inv reg T" "map_of reg k = None"
  shows "holding (T i) \<noteq> Some k" "tearing (T i) \<noteq> Some k"
  using assms unfolding orch_inv_def reservations_def teardowns_def by (metis option.distinct(1))+

lemma distinct_ips_update:
  assumes "distinct_ips reg" "\<forall>k' vm'. k' \<noteq> k \<and> map_of reg k' = Some vm' \<longrightarrow> vm_IPAddress vm' \<noteq> vm_IPAddress vm"
  shows "distinct_ips (AList.update k vm reg)"
  using assms unfolding distinct_ips_def map_of_update fun_upd_apply by (metis option.inject)

lemma distinct_ips_delete: "distinct_ips reg \<Longrightarrow> distinct_ips (AList.delete k reg)"
  unfolding distinct_ips_def map_of_delete fun_upd_apply by (metis option.distinct(1))

lemma inv_reserves:
  assumes inv: "orch_inv reg T" and t: "T i = Reserving req" and free: "map_of reg (SubmissionId req) = None" "free_index reg n"
  shows "orch_inv (AList.update (SubmissionId req) (tentative (SubmissionId req) (ip_of n)) reg)
    (T(i := Wiring req n (ip_of n)))"
proof -
  let ?k = "SubmissionId req" and ?T = "T(i := Wiring req n (ip_of n))"
  let ?reg = "AList.update ?k (tentative ?k (ip_of n)) reg"
  note nobody = inv_unregistered [OF inv free(1)]
  have i: "reg_ok reg" "distinct_ips reg" "reservations reg T" "teardowns reg T" "all_held reg T"
    "\<forall>i. well_formed (T i)" using inv by (simp_all add: orch_inv_def)
  have "reg_ok ?reg" by (rule reg_ok_update [OF i(1)]) (use free(2) in \<open>simp_all add: free_index_def\<close>)
  moreover have "distinct_ips ?reg"
    by (rule distinct_ips_update [OF i(2)]) (use free(2) in \<open>auto simp: free_index_def\<close>)
  moreover have "reservations ?reg ?T"
    using i(3) nobody unfolding reservations_def map_of_update
    by (auto simp: fun_upd_apply split: if_splits)
  moreover have "teardowns ?reg ?T"
    using i(4) nobody unfolding teardowns_def map_of_update
    by (auto simp: fun_upd_apply split: if_splits)
  moreover have "all_held ?reg ?T"
    using i(5) t unfolding all_held_def map_of_update by (metis fun_upd_apply holding.simps(1) holding.simps(8) option.distinct(1))
  moreover have "\<forall>i. well_formed (?T i)" using i(6) by simp
  ultimately show ?thesis unfolding orch_inv_def by blast
qed


lemma inv_parts:
  assumes "orch_inv reg T"
  shows "reg_ok reg" "distinct_ips reg" "all_held reg T" "well_formed (T i)"
    and "holding (T i) = Some k \<Longrightarrow> \<exists>vm. map_of reg k = Some vm \<and> Machine vm = None \<and>
      (\<forall>ip. claiming (T i) = Some ip \<longrightarrow> vm_IPAddress vm = ip)"
    and "holding (T i) = Some k \<Longrightarrow> holding (T j) = Some k \<Longrightarrow> i = j"
    and "tearing (T i) = Some k \<Longrightarrow> \<exists>vm. map_of reg k = Some vm \<and> Machine vm \<noteq> None"
    and "tearing (T i) = Some k \<Longrightarrow> tearing (T j) = Some k \<Longrightarrow> i = j"
  using assms unfolding orch_inv_def reservations_def teardowns_def by blast+

lemma holding_not_tearing:
  assumes "orch_inv reg T" "holding (T i) = Some k"
  shows "tearing (T j) \<noteq> Some k"
  using inv_parts(5,7) [OF assms(1)] assms(2) by fastforce

text \<open>A change of one entry and of the task that has it in its hands leaves the others alone.\<close>

lemma others_kept:
  assumes inv: "orch_inv reg T" and reg: "\<And>k'. k' \<noteq> k \<Longrightarrow> map_of reg' k' = map_of reg k'"
    and h: "\<And>j k'. holding (T' j) = Some k' \<Longrightarrow> holding (T j) = Some k' \<and> k' \<noteq> k \<and> T' j = T j"
    and d: "\<And>j k'. tearing (T' j) = Some k' \<Longrightarrow> tearing (T j) = Some k' \<and> k' \<noteq> k"
  shows "reservations reg' T' \<and> teardowns reg' T'"
proof -
  note p = inv_parts [OF inv]
  have "\<exists>vm. map_of reg' k' = Some vm \<and> Machine vm = None \<and> (\<forall>ip. claiming (T' j) = Some ip \<longrightarrow> vm_IPAddress vm = ip)"
    if "holding (T' j) = Some k'" for j k'
    using h [OF that] p(5) [of j k'] reg [of k'] by auto
  moreover have "\<exists>vm. map_of reg' k' = Some vm \<and> Machine vm \<noteq> None" if "tearing (T' j) = Some k'" for j k'
    using d [OF that] p(7) [of j k'] reg [of k'] by auto
  moreover have "j = j'" if "holding (T' j) = Some k'" "holding (T' j') = Some k'" for j j' k'
    using h that p(6) by blast
  moreover have "j = j'" if "tearing (T' j) = Some k'" "tearing (T' j') = Some k'" for j j' k'
    using d that p(8) by blast
  ultimately show ?thesis unfolding reservations_def teardowns_def by blast
qed

text \<open>A task that drops an id, together with its entry.\<close>

lemma inv_drops:
  assumes inv: "orch_inv reg T" and id: "holding (T i) = Some k \<or> tearing (T i) = Some k"
    and t': "holding t' = None" "tearing t' = None" "well_formed t'"
  shows "orch_inv (AList.delete k reg) (T(i := t'))"
proof -
  let ?T = "T(i := t')" and ?reg = "AList.delete k reg"
  note p = inv_parts [OF inv]
  have h: "holding (?T j) = Some k' \<Longrightarrow> holding (T j) = Some k' \<and> k' \<noteq> k \<and> ?T j = T j" for j k'
    using id p(6) [of i k j] holding_not_tearing [OF inv, of j k i] t'(1) by (auto split: if_splits)
  have d: "tearing (?T j) = Some k' \<Longrightarrow> tearing (T j) = Some k' \<and> k' \<noteq> k" for j k'
    using id p(8) [of i k j] holding_not_tearing [OF inv, of i k j] t'(2) by (auto split: if_splits)
  have "reservations ?reg ?T \<and> teardowns ?reg ?T"
    by (rule others_kept [OF inv _ h d]) auto
  moreover have "all_held ?reg ?T" unfolding all_held_def
  proof (intro allI impI)
    fix k' vm assume a: "map_of ?reg k' = Some vm \<and> Machine vm = None"
    then have k': "k' \<noteq> k" "map_of reg k' = Some vm" by (auto split: if_splits)
    then obtain j where j: "holding (T j) = Some k'" using p(3) a unfolding all_held_def by blast
    have "j \<noteq> i"
    proof
      assume "j = i"
      then have "tearing (T i) = Some k" using j id k'(1) by auto
      then show False using j \<open>j = i\<close> by (cases "T i") auto
    qed
    then show "\<exists>i. holding (?T i) = Some k'" using j by (intro exI [of _ j]) simp
  qed
  ultimately show ?thesis
    using p(1,2,4) t'(3) reg_ok_delete distinct_ips_delete unfolding orch_inv_def by simp
qed

lemma inv_publishes:
  assumes inv: "orch_inv reg T" and t: "T i = Publishing req vm"
  shows "orch_inv (AList.update (SubmissionId req) vm reg) (T(i := Spawned r))"
proof -
  let ?k = "SubmissionId req" and ?T = "T(i := Spawned r)" and ?reg = "AList.update (SubmissionId req) vm reg"
  note p = inv_parts [OF inv]
  have held: "holding (T i) = Some ?k" and wf: "vm_VMID vm = ?k" "Machine vm \<noteq> None"
    using t p(4) [of i] by simp_all
  obtain old where old: "map_of reg ?k = Some old" "vm_IPAddress old = vm_IPAddress vm"
    using p(5) [OF held] t by auto
  then obtain n where n: "n \<in> {2..254}" "vm_IPAddress vm = ip_of n"
    using p(1) unfolding reg_ok_def by metis
  have "holding (?T j) = Some k' \<Longrightarrow> holding (T j) = Some k' \<and> k' \<noteq> ?k \<and> j \<noteq> i" for j k'
    using held p(6) [of i ?k j] by (auto split: if_splits)
  then have h: "holding (?T j) = Some k' \<Longrightarrow> holding (T j) = Some k' \<and> k' \<noteq> ?k \<and> ?T j = T j" for j k'
    by (metis fun_upd_other)
  have d: "tearing (?T j) = Some k' \<Longrightarrow> tearing (T j) = Some k' \<and> k' \<noteq> ?k" for j k'
    using holding_not_tearing [OF inv held, of j] by (auto split: if_splits)
  have "reservations ?reg ?T \<and> teardowns ?reg ?T"
    by (rule others_kept [OF inv _ h d]) auto
  moreover have "all_held ?reg ?T" unfolding all_held_def
  proof (intro allI impI)
    fix k' w assume a: "map_of ?reg k' = Some w \<and> Machine w = None"
    then have k': "k' \<noteq> ?k" "map_of reg k' = Some w" using wf(2) by (auto split: if_splits)
    then obtain j where j: "holding (T j) = Some k'" using p(3) a unfolding all_held_def by blast
    then have "j \<noteq> i" using held k'(1) by auto
    then show "\<exists>i. holding (?T i) = Some k'" using j by (intro exI [of _ j]) simp
  qed
  moreover have "distinct_ips ?reg"
    using p(2) old unfolding distinct_ips_def map_of_update fun_upd_apply by (metis option.inject)
  ultimately show ?thesis
    using p(4) reg_ok_update [OF p(1) wf(1) n] unfolding orch_inv_def by simp
qed

lemma inv_finds:
  assumes inv: "orch_inv reg T" and vm: "map_of reg k = Some vm" "Machine vm \<noteq> None"
    and t: "T i = Finding k" "\<forall>j. tearing (T j) \<noteq> Some k"
  shows "orch_inv reg (T(i := Stopping k vm m))"
proof -
  let ?T = "T(i := Stopping k vm m)"
  note p = inv_parts [OF inv]
  have H: "holding (?T j) = holding (T j)" "claiming (?T j) = claiming (T j)" for j using t(1) by simp_all
  have "reservations reg ?T" using inv unfolding orch_inv_def reservations_def H by meson
  moreover have "teardowns reg ?T" unfolding teardowns_def
  proof (intro conjI allI impI)
    fix j k' assume "tearing (?T j) = Some k'"
    then show "\<exists>vm. map_of reg k' = Some vm \<and> Machine vm \<noteq> None"
      using vm p(7) [of j k'] by (cases "j = i") auto
  next
    fix j j' k' assume "tearing (?T j) = Some k' \<and> tearing (?T j') = Some k'"
    with t(2) p(8) [of j k' j'] show "j = j'" by (cases "j = i"; cases "j' = i") auto
  qed
  moreover have "all_held reg ?T" using p(3) unfolding all_held_def H .
  ultimately show ?thesis using p(1,2,4) unfolding orch_inv_def by simp
qed


abbreviation orch_state_inv :: "orch \<Rightarrow> bool" where
  "orch_state_inv s \<equiv> orch_inv (orch_reg s) (orch_tasks s)"

lemma inv_moves:
  assumes inv: "orch_inv reg T" and t: "T i = t" and m: "moves t reg t' reg'"
    and ok: "\<And>k vm. t = Finding k \<Longrightarrow> map_of reg k = Some vm \<Longrightarrow> Machine vm \<noteq> None \<and> (\<forall>j. tearing (T j) \<noteq> Some k)"
  shows "orch_inv reg' (T(i := t'))"
  using m
proof cases
  case quiet
  then have "well_formed t'" using inv_parts(4) [OF inv, of i] t by blast
  with quiet show ?thesis using inv_quiet [OF inv, of t' i] t by blast
next
  case (reserves req n)
  then show ?thesis using inv_reserves [OF inv, of i req n] t by simp
next
  case (releases req r)
  then show ?thesis using inv_drops [OF inv, of i "SubmissionId req" "Spawned r"] t by simp
next
  case (publishes req vm)
  then show ?thesis using inv_publishes [OF inv, of i req vm] t by simp
next
  case (finds k vm m)
  then show ?thesis using inv_finds [OF inv, of k vm i m] ok [of k vm] t by simp
next
  case (finds_nil k vm)
  then show ?thesis using ok [of k vm] by simp
next
  case (forgets k vm)
  then show ?thesis using inv_drops [OF inv, of i k "Detaching vm"] t by simp
qed

lemma inv_advance:
  assumes inv: "orch_state_inv s" and ok: "orderly (Advance i) s"
  shows "orch_state_inv (advance E order i s)"
proof -
  let ?T = "orch_tasks s"
  obtain t' reg' h' where r: "run_state (task_step E order (?T i)) (orch_reg s, orch_hist s) = (t', (reg', h'))"
    by (metis prod.collapse)
  have "moves (?T i) (orch_reg s) t' reg'" by (rule task_step_moves [OF inv_parts(1) [OF inv] r])
  then have "orch_inv reg' (?T(i := t'))" by (rule inv_moves [OF inv refl]) (use ok in auto)
  then show ?thesis by (simp add: advance_def r)
qed

lemma inv_orch_step:
  assumes "orch_state_inv s" "orch_rel orderly s t"
  shows "orch_state_inv t"
proof -
  obtain E order e where e: "orderly e s" "orch_step E order e s = Some t"
    using assms(2) by (auto simp: orch_rel_def event_rel_def)
  show ?thesis
  proof (cases e)
    case (SpawnCall i req)
    then show ?thesis using e(2) inv_quiet [OF assms(1), of "Reserving req" i] by (auto split: if_splits)
  next
    case (TeardownCall i vm_id)
    have "orch_inv (orch_reg s) ((orch_tasks s)(i := teardown_task vm_id))" if "orch_tasks s i = Idle"
      by (rule inv_quiet [OF assms(1)]) (simp_all add: that teardown_task_def)
    then show ?thesis using e(2) TeardownCall by (auto split: if_splits)
  next
    case (Advance i)
    then show ?thesis using inv_advance [OF assms(1)] e by auto
  qed
qed

lemma inv_init: "orch_state_inv orch_init"
  by (simp add: orch_init_def newServer_def orch_inv_def reg_ok_def distinct_ips_def reservations_def
      teardowns_def all_held_def)

interpretation orderly_server: step_system "\<lambda>s. s = orch_init" "orch_rel orderly" orch_state_inv
  using inv_init inv_orch_step by unfold_locales auto

abbreviation orch_reaches :: "(orch_event \<Rightarrow> orch \<Rightarrow> bool) \<Rightarrow> orch \<Rightarrow> bool" where
  "orch_reaches ok s \<equiv> (orch_rel ok)\<^sup>*\<^sup>* orch_init s"

section \<open>Runs on a host that cooperates\<close>

text \<open>A registry and tasks that are reached with some history of the host.\<close>

definition some_host :: "registry \<Rightarrow> (nat \<Rightarrow> task) \<Rightarrow> bool" where
  "some_host reg T \<longleftrightarrow> (\<exists>h. orch_reaches (\<lambda>_ _. True) \<lparr>orch_reg = reg, orch_hist = h, orch_tasks = T\<rparr>)"

lemma some_host_event:
  assumes "some_host reg T"
    and "\<And>h. \<exists>h'. orch_step (fleet_env True) id e \<lparr>orch_reg = reg, orch_hist = h, orch_tasks = T\<rparr>
      = Some \<lparr>orch_reg = reg', orch_hist = h', orch_tasks = T'\<rparr>"
  shows "some_host reg' T'"
proof -
  obtain h where h: "orch_reaches (\<lambda>_ _. True) \<lparr>orch_reg = reg, orch_hist = h, orch_tasks = T\<rparr>"
    using assms(1) unfolding some_host_def by blast
  obtain h' where "orch_step (fleet_env True) id e \<lparr>orch_reg = reg, orch_hist = h, orch_tasks = T\<rparr>
      = Some \<lparr>orch_reg = reg', orch_hist = h', orch_tasks = T'\<rparr>" using assms(2) by blast
  from rtranclp.rtrancl_into_rtrancl [OF h orch_relI [OF _ this]] show ?thesis
    unfolding some_host_def by blast
qed

lemma host_calls:
  assumes "some_host reg T" "T i = Idle"
  shows "some_host reg (T(i := Reserving req))" "some_host reg (T(i := teardown_task vm_id))"
  by (rule some_host_event [OF assms(1), of "SpawnCall i req"]; simp add: assms(2))
    (rule some_host_event [OF assms(1), of "TeardownCall i vm_id"]; simp add: assms(2))

lemma host_advances:
  assumes "some_host reg T" "T i = t"
    and "\<And>h. fst (run_state (task_step (fleet_env True) id t) (reg, h)) = t'"
    and "\<And>h. fst (snd (run_state (task_step (fleet_env True) id t) (reg, h))) = reg'"
  shows "some_host reg' (T(i := t'))"
proof (rule some_host_event [OF assms(1), of "Advance i"])
  fix h
  obtain h' where "run_state (task_step (fleet_env True) id t) (reg, h) = (t', (reg', h'))"
    using assms(3,4) [of h] by (metis prod.collapse)
  then show "\<exists>h'. orch_step (fleet_env True) id (Advance i) \<lparr>orch_reg = reg, orch_hist = h, orch_tasks = T\<rparr>
      = Some \<lparr>orch_reg = reg', orch_hist = h', orch_tasks = T(i := t')\<rparr>"
    by (simp add: advance_def assms(2))
qed

lemma host_spawns:
  assumes "some_host reg T" "T i = Wiring (demo_spawn k) n ip" "k \<noteq> ''''" "TrimSpace k \<noteq> ''''"
  shows "\<exists>vm r. some_host (AList.update k vm reg) (T(i := Spawned r)) \<and> Machine vm \<noteq> None \<and> vm_IPAddress vm = ip"
proof -
  let ?req = "demo_spawn k"
  note boot = fleet_boot(1) [OF vm_config_valid [OF demo_spawn_valid [OF assms(3)]]]
  define vm where "vm = active_vm ?req ip (image_path k) (1, vsock_path (vm_config ?req n ip (image_path k)))"
  have "some_host reg (T(i := Imaging ?req n ip))"
    by (rule host_advances [OF assms(1,2)]) (simp_all add: fleet_tap)
  then have "some_host reg (T(i := Booting ?req n ip (image_path k)))"
    using host_advances [of reg "T(i := Imaging ?req n ip)" i] by (simp add: fleet_disk [OF assms(4)])
  then have "some_host reg (T(i := Publishing ?req vm))"
    using host_advances [of reg "T(i := Booting ?req n ip (image_path k))" i] by (simp add: boot vm_def)
  then have "some_host (AList.update k vm reg) (T(i := Spawned (spawn_success ?req vm)))"
    using host_advances [of reg "T(i := Publishing ?req vm)" i] by simp
  then show ?thesis by (intro exI conjI) (auto simp: vm_def)
qed

lemma host_reserves:
  assumes "some_host [] T" "T i = Reserving (demo_spawn k)" "k \<noteq> ''''"
  shows "some_host [(k, tentative k (ip_of 2))] (T(i := Wiring (demo_spawn k) 2 (ip_of 2)))"
  by (rule host_advances [OF assms(1,2)]) (simp_all add: demo_spawn_valid [OF assms(3)] reserve_empty)

lemma host_tears:
  assumes "some_host reg T" "T i = Finding k" "map_of reg k = Some vm"
  shows "Machine vm = Some m \<Longrightarrow> some_host reg (T(i := Stopping k vm m))"
    and "Machine vm = None \<Longrightarrow> some_host reg (T(i := TornDown NilMachine))"
  by (rule host_advances [OF assms(1,2)]; simp add: assms(3))+

lemma host_stops: "some_host reg T \<Longrightarrow> T i = Stopping k vm m \<Longrightarrow> some_host reg (T(i := Forgetting k vm))"
  by (rule host_advances, assumption, assumption) simp_all

lemma host_forgets:
  "some_host reg T \<Longrightarrow> T i = Forgetting k vm \<Longrightarrow> some_host (AList.delete k reg) (T(i := Detaching vm))"
  by (rule host_advances, assumption, assumption) simp_all

lemma some_host_start: "some_host [] (\<lambda>_. Idle)"
  unfolding some_host_def orch_init_def [symmetric, unfolded newServer_def] by (rule exI [of _ "[]"]) (simp add: orch_init_def newServer_def)


section \<open>Properties\<close>


text \<open>
  C4. However many spawns and teardowns interleave, as long as the clients are orderly:
  the VMs of the registry have pairwise different addresses, all of the subnet; no
  teardown meets a nil machine; and when no spawn is under way every VM has its machine,
  which is what the shutdown needs.
\<close>

theorem orderly_addresses:
  assumes "orch_reaches orderly s"
  shows "(\<forall>k k' vm vm'. map_of (orch_reg s) k = Some vm \<and> map_of (orch_reg s) k' = Some vm' \<and>
       vm_IPAddress vm = vm_IPAddress vm' \<longrightarrow> k = k') \<and>
     (\<forall>k vm. map_of (orch_reg s) k = Some vm \<longrightarrow> (\<exists>i \<in> {2..254}. vm_IPAddress vm = ip_of i)) \<and>
     (\<forall>i. orch_tasks s i \<noteq> TornDown NilMachine) \<and>
     ((\<forall>i. holding (orch_tasks s i) = None) \<longrightarrow>
       (\<forall>k vm. map_of (orch_reg s) k = Some vm \<longrightarrow> Machine vm \<noteq> None))"
proof -
  have inv: "orch_state_inv s" using orderly_server.inv_reachable assms by blast
  have "orch_tasks s i \<noteq> TornDown NilMachine" for i using inv_parts(4) [OF inv, of i] by auto
  moreover have "Machine vm \<noteq> None"
    if "\<forall>i. holding (orch_tasks s i) = None" "map_of (orch_reg s) k = Some vm" for k vm
    using that inv_parts(3) [OF inv] unfolding all_held_def by force
  ultimately show ?thesis
    using inv_parts(1,2) [OF inv] unfolding distinct_ips_def reg_ok_def by blast
qed

lemma orderly_wiring:
  obtains s where "orch_reaches orderly s" "map_of (orch_reg s) ''a'' = Some (tentative ''a'' (ip_of 2))"
    "holding (orch_tasks s 0) = Some ''a''"
proof -
  define s1 where "s1 = orch_init\<lparr>orch_tasks := (\<lambda>_. Idle)(0 := Reserving (demo_spawn ''a''))\<rparr>"
  define s2 where "s2 = advance (fleet_env True) id 0 s1"
  have "orch_step (fleet_env True) id (SpawnCall 0 (demo_spawn ''a'')) orch_init = Some s1"
    by (simp add: s1_def orch_init_def)
  then have "orch_rel orderly orch_init s1" by (rule orch_relI [rotated]) simp
  moreover have "orch_rel orderly s1 s2"
    by (rule orch_relI [of _ "Advance 0" _ "fleet_env True" id]) (simp_all add: s1_def s2_def orch_init_def)
  ultimately have "orch_reaches orderly s2" by (metis rtranclp.simps)
  moreover have "map_of (orch_reg s2) ''a'' = Some (tentative ''a'' (ip_of 2))"
    "holding (orch_tasks s2 0) = Some ''a''"
    by (simp_all add: s2_def s1_def advance_def orch_init_def newServer_def demo_spawn_valid reserve_empty)
  ultimately show thesis by (rule that)
qed

theorem orderly_addresses_witness:
  "\<exists>s. orch_reaches orderly s \<and> map_of (orch_reg s) ''a'' = Some (tentative ''a'' (ip_of 2)) \<and>
     (\<forall>i. orch_tasks s i \<noteq> TornDown NilMachine)"
  by (rule orderly_wiring) (use orderly_addresses in blast)

text \<open>The address of the first VM, and the task that provisions it.\<close>

abbreviation first_ip :: string where
  "first_ip \<equiv> ip_of 2"

lemma demo_names: "TrimSpace ''a'' \<noteq> ''''" "TrimSpace ''b'' \<noteq> ''''"
  by (subst TrimSpace_visible; simp)+

lemma teardown_a: "teardown_task ''vm-a'' = Finding ''a''"
  by (simp add: teardown_task_def TrimPrefix_def HasPrefix_def)

lemma reach_wiring:
  "some_host [(''a'', tentative ''a'' first_ip)] ((\<lambda>_. Idle)(0 := Wiring (demo_spawn ''a'') 2 first_ip))"
proof -
  have "some_host [] ((\<lambda>_. Idle)(0 := Reserving (demo_spawn ''a'')))"
    using host_calls(1) [OF some_host_start, of 0 "demo_spawn ''a''"] by simp
  from host_reserves [OF this, of 0] show ?thesis by simp
qed

lemma reach_nil: "\<exists>reg T. some_host reg T \<and> T 1 = TornDown NilMachine"
proof -
  let ?T = "(\<lambda>_. Idle)(0 := Wiring (demo_spawn ''a'') 2 first_ip)"
  have "some_host [(''a'', tentative ''a'' first_ip)] (?T(1 := Finding ''a''))"
    using host_calls(2) [OF reach_wiring, of 1 "''vm-a''"] by (simp add: teardown_a)
  from host_tears(2) [OF this, of 1 "''a''"]
  have "some_host [(''a'', tentative ''a'' first_ip)] (?T(1 := TornDown NilMachine))" by simp
  moreover have "(?T(1 := TornDown NilMachine)) 1 = TornDown NilMachine" by simp
  ultimately show ?thesis by blast
qed

text \<open>Two teardowns of the same VM have stopped its machine and are about to forget it.\<close>

lemma reach_forgetting:
  "\<exists>r vm. some_host [(''a'', vm)]
     ((\<lambda>_. Idle)(0 := Spawned r, 1 := Forgetting ''a'' vm, 2 := Forgetting ''a'' vm))"
proof -
  obtain vm r where vm: "some_host [(''a'', vm)] ((\<lambda>_. Idle)(0 := Spawned r))" "Machine vm \<noteq> None"
    using host_spawns [OF reach_wiring, of 0 "''a''" 2 first_ip] demo_names by auto
  obtain m where m: "Machine vm = Some m" using vm(2) by blast
  define T :: "nat \<Rightarrow> task" where "T = (\<lambda>_. Idle)(0 := Spawned r, 1 := Finding ''a'', 2 := Finding ''a'')"
  have "some_host [(''a'', vm)] ((\<lambda>_. Idle)(0 := Spawned r, 1 := Finding ''a''))"
    using host_calls(2) [OF vm(1), of 1 "''vm-a''"] by (simp add: teardown_a)
  from host_calls(2) [OF this, of 2 "''vm-a''"] have "some_host [(''a'', vm)] T"
    by (simp add: T_def teardown_a)
  from host_tears(1) [OF this, of 1 "''a''" vm m] have "some_host [(''a'', vm)] (T(1 := Stopping ''a'' vm m))"
    by (simp add: T_def m)
  from host_tears(1) [OF this, of 2 "''a''" vm m]
  have "some_host [(''a'', vm)] (T(1 := Stopping ''a'' vm m, 2 := Stopping ''a'' vm m))" by (simp add: T_def m)
  from host_stops [OF this, of 1] have "some_host [(''a'', vm)] (T(1 := Forgetting ''a'' vm, 2 := Stopping ''a'' vm m))"
    by (simp add: fun_upd_twist)
  from host_stops [OF this, of 2] have "some_host [(''a'', vm)] (T(1 := Forgetting ''a'' vm, 2 := Forgetting ''a'' vm))"
    by simp
  then show ?thesis by (auto simp: T_def fun_upd_twist)
qed

text \<open>The second of them forgets the reservation of a new spawn of the same id.\<close>

lemma reach_lost:
  "\<exists>T. some_host [] T \<and> T 3 = Wiring (demo_spawn ''a'') 2 first_ip \<and> T 4 = Idle"
proof -
  obtain r vm where "some_host [(''a'', vm)]
      ((\<lambda>_. Idle)(0 := Spawned r, 1 := Forgetting ''a'' vm, 2 := Forgetting ''a'' vm))" (is "some_host _ ?T")
    using reach_forgetting by blast
  from host_forgets [OF this, of 1] have s: "some_host [] (?T(1 := Detaching vm))" by simp
  have "some_host [] (?T(1 := Detaching vm, 3 := Reserving (demo_spawn ''a'')))"
    using host_calls(1) [OF s, of 3 "demo_spawn ''a''"] by simp
  from host_reserves [OF this, of 3 "''a''"]
  have "some_host [(''a'', tentative ''a'' first_ip)] (?T(1 := Detaching vm, 3 := Wiring (demo_spawn ''a'') 2 first_ip))"
    by simp
  from host_forgets [OF this, of 2]
  have "some_host [] (?T(1 := Detaching vm, 3 := Wiring (demo_spawn ''a'') 2 first_ip, 2 := Detaching vm))"
    (is "some_host _ ?T'") by simp
  moreover have "?T' 3 = Wiring (demo_spawn ''a'') 2 first_ip" "?T' 4 = Idle" by simp_all
  ultimately show ?thesis by blast
qed

text \<open>
  C36. Orderly clients are needed. A teardown that comes while its VM is still being
  provisioned calls a method on a nil machine. And a VM that is torn down twice at the
  same time and spawned again in between loses its new reservation to the second teardown:
  the next VM gets the same address, and both run.
\<close>

theorem disorderly_teardowns:
  "(\<exists>s. orch_reaches (\<lambda>_ _. True) s \<and> orch_tasks s 1 = TornDown NilMachine) \<and>
   (\<exists>s vm vm'. orch_reaches (\<lambda>_ _. True) s \<and>
     map_of (orch_reg s) ''a'' = Some vm \<and> map_of (orch_reg s) ''b'' = Some vm' \<and>
     Machine vm \<noteq> None \<and> Machine vm' \<noteq> None \<and> vm_IPAddress vm = vm_IPAddress vm')"
proof -
  obtain T where T: "some_host [] T" "T 3 = Wiring (demo_spawn ''a'') 2 first_ip" "T 4 = Idle"
    using reach_lost by blast
  have "some_host [] (T(4 := Reserving (demo_spawn ''b'')))" using host_calls(1) [OF T(1,3)] by simp
  from host_reserves [OF this, of 4 "''b''"]
  have "some_host [(''b'', tentative ''b'' first_ip)] (T(4 := Wiring (demo_spawn ''b'') 2 first_ip))" by simp
  from host_spawns [OF this, of 3 "''a''" 2 first_ip] T(2) demo_names obtain va r where
    a: "some_host [(''b'', tentative ''b'' first_ip), (''a'', va)]
          (T(4 := Wiring (demo_spawn ''b'') 2 first_ip, 3 := Spawned r))"
      "Machine va \<noteq> None" "vm_IPAddress va = first_ip"
    by auto
  from host_spawns [OF a(1), of 4 "''b''" 2 first_ip] demo_names obtain vb T' where
    "some_host [(''b'', vb), (''a'', va)] T'" "Machine vb \<noteq> None" "vm_IPAddress vb = first_ip"
    by auto
  then obtain h where "orch_reaches (\<lambda>_ _. True)
      \<lparr>orch_reg = [(''b'', vb), (''a'', va)], orch_hist = h, orch_tasks = T'\<rparr>"
    "Machine vb \<noteq> None" "vm_IPAddress vb = first_ip" unfolding some_host_def by blast
  moreover obtain reg Tn h' where "orch_reaches (\<lambda>_ _. True)
      \<lparr>orch_reg = reg, orch_hist = h', orch_tasks = Tn\<rparr>" "Tn 1 = TornDown NilMachine"
    using reach_nil unfolding some_host_def by blast
  ultimately show ?thesis using a(2,3) by fastforce
qed


text \<open>
  C24. The shutdown of the server, under whatever requests came before. When
  \<open>shutdownAllVMs\<close> runs after an orderly history, it comes to its end exactly if no
  spawn is still in progress with a reservation (\<open>GracefulStop\<close>, before it, waits for
  the requests in progress); otherwise it meets a nil machine. When it comes to its end the
  registry is empty, and every VM of it has been told to stop and its image removed,
  whatever failed on the way and in whatever order Go ranges over the map.
\<close>

theorem graceful_shutdown:
  assumes "orch_reaches orderly s" "\<forall>reg. set (visit reg) = set reg"
    "run_state (shutdownAllVMs E visit) (orch_reg s, orch_hist s) = (r, (reg', h'))"
  shows "(r \<longleftrightarrow> (\<forall>i. holding (orch_tasks s i) = None)) \<and>
    (r \<longrightarrow> map_of reg' = Map.empty \<and>
      (\<exists>l. h' = orch_hist s @ l \<and> (\<forall>k vm. map_of (orch_reg s) k = Some vm \<longrightarrow> shut_down vm l)))"
proof -
  have inv: "orch_state_inv s" using orderly_server.inv_reachable assms(1) by blast
  have "(\<forall>k vm. map_of (orch_reg s) k = Some vm \<longrightarrow> Machine vm \<noteq> None) \<longleftrightarrow>
      (\<forall>i. holding (orch_tasks s i) = None)"
    using inv unfolding orch_inv_def reservations_def all_held_def by (metis not_None_eq)
  moreover have "set (visit (orch_reg s)) = set (orch_reg s)" "wf_alist (orch_reg s)"
    using assms(2) inv by (simp_all add: orch_inv_def reg_ok_def)
  ultimately show ?thesis using shutdown_run [OF _ _ assms(3)] by blast
qed

theorem graceful_shutdown_witness:
  "(\<exists>reg' h'. run_state (shutdownAllVMs (fleet_env True) id) (orch_reg orch_init, orch_hist orch_init) =
     (True, (reg', h')) \<and> map_of reg' = Map.empty) \<and>
   (\<exists>s reg' h'. orch_reaches orderly s \<and>
     run_state (shutdownAllVMs (fleet_env True) id) (orch_reg s, orch_hist s) = (False, (reg', h')))"
proof
  have id: "\<forall>reg :: registry. set (id reg) = set reg" by simp
  obtain r reg' h' where run: "run_state (shutdownAllVMs (fleet_env True) id)
      (orch_reg orch_init, orch_hist orch_init) = (r, (reg', h'))" by (metis prod.collapse)
  have "orch_reaches orderly orch_init" "\<forall>i. holding (orch_tasks orch_init i) = None"
    by (simp_all add: orch_init_def)
  with graceful_shutdown [OF _ id run] run show "\<exists>reg' h'. run_state (shutdownAllVMs (fleet_env True) id)
      (orch_reg orch_init, orch_hist orch_init) = (True, (reg', h')) \<and> map_of reg' = Map.empty" by auto
  obtain s where s: "orch_reaches orderly s" "holding (orch_tasks s 0) = Some ''a''" by (rule orderly_wiring)
  obtain r reg' h' where run: "run_state (shutdownAllVMs (fleet_env True) id) (orch_reg s, orch_hist s) =
      (r, (reg', h'))" by (metis prod.collapse)
  have "\<not> r" using graceful_shutdown [OF s(1) id run] s(2) by auto
  with s(1) run show "\<exists>s reg' h'. orch_reaches orderly s \<and>
      run_state (shutdownAllVMs (fleet_env True) id) (orch_reg s, orch_hist s) = (False, (reg', h'))" by auto
qed

end
