(* ===== verification/Probe_Consumer.thy ===== *)
theory Probe_Consumer
  imports Go_Http "HOL-Library.Word"
begin

text \<open>
  \<open>services/sandbox-orchestrator/ebpf_consumer.go\<close>: the loop that drains the latency ring
  buffer of a VM and forwards the events in batches. The memory of a ring buffer record is
  reinterpreted as a struct, which on the little-endian machines that the eBPF objects are
  built for is the decoding below.
\<close>

section \<open>Records\<close>

type_synonym byte = "8 word"

record LatencyRecord =
  EgressTsNs :: "64 word"
  LatencyNs :: "64 word"
  SrcIP :: "32 word"
  DstIP :: "32 word"
  SrcPort :: "16 word"
  DstPort :: "16 word"
  Seq :: "32 word"

record KernelLatencyEvent =
  ke_VMID :: string
  ke_SubmissionID :: string
  ke_LatencyNs :: "64 word"
  ke_LatencyUs :: f64
  ke_EgressTsNs :: "64 word"
  ke_SrcPort :: "16 word"
  ke_DstPort :: "16 word"
  ke_Seq :: "32 word"
  ke_Timestamp :: int

text \<open>Little-endian numbers.\<close>

fun le_val :: "byte list \<Rightarrow> nat" where
  "le_val [] = 0"
| "le_val (b # bs) = unat b + 256 * le_val bs"

fun le_bytes :: "nat \<Rightarrow> nat \<Rightarrow> byte list" where
  "le_bytes 0 v = []"
| "le_bytes (Suc n) v = of_nat v # le_bytes n (v div 256)"

definition le_field :: "nat \<Rightarrow> nat \<Rightarrow> byte list \<Rightarrow> nat" where
  "le_field off n raw = le_val (take n (drop off raw))"

definition record_size :: nat where "record_size = 32"

definition decode_record :: "byte list \<Rightarrow> LatencyRecord" where
  "decode_record raw =
     \<lparr>EgressTsNs = of_nat (le_field 0 8 raw), LatencyNs = of_nat (le_field 8 8 raw),
      SrcIP = of_nat (le_field 16 4 raw), DstIP = of_nat (le_field 20 4 raw),
      SrcPort = of_nat (le_field 24 2 raw), DstPort = of_nat (le_field 26 2 raw),
      Seq = of_nat (le_field 28 4 raw)\<rparr>"

text \<open>The struct as the kernel program writes it.\<close>

definition encode_record :: "LatencyRecord \<Rightarrow> byte list" where
  "encode_record r =
     le_bytes 8 (unat (EgressTsNs r)) @ le_bytes 8 (unat (LatencyNs r)) @
     le_bytes 4 (unat (SrcIP r)) @ le_bytes 4 (unat (DstIP r)) @
     le_bytes 2 (unat (SrcPort r)) @ le_bytes 2 (unat (DstPort r)) @ le_bytes 4 (unat (Seq r))"

section \<open>The consumer\<close>

text \<open>
  What \<open>StartProbeConsumer\<close> is given. \<open>kafka\<close> tells whether a client is wired up; with
  none the events are only logged.
\<close>

record probe =
  pc_vmID :: string
  pc_submissionID :: string
  kafka :: bool
  topic :: string

text \<open>
  The state of the loop: the batch, whether the context is cancelled, whether the loop has
  returned, and the batches handed to \<open>flush\<close>, each with whether it was delivered.
\<close>

record consumer =
  batch :: "KernelLatencyEvent list"
  cancelled :: bool
  returned :: bool
  flushed :: "(KernelLatencyEvent list \<times> bool) list"

definition probeFlushSize :: nat where "probeFlushSize = 256"

definition event_of :: "probe \<Rightarrow> byte list \<Rightarrow> int \<Rightarrow> KernelLatencyEvent" where
  "event_of c raw now_ms =
     (let rec = decode_record raw in
      \<lparr>ke_VMID = pc_vmID c, ke_SubmissionID = pc_submissionID c, ke_LatencyNs = LatencyNs rec,
       ke_LatencyUs = f64_div (f64_of_int (uint (LatencyNs rec))) (Fin 1000),
       ke_EgressTsNs = EgressTsNs rec, ke_SrcPort = SrcPort rec, ke_DstPort = DstPort rec,
       ke_Seq = Seq rec, ke_Timestamp = now_ms\<rparr>)"

definition event_json :: "KernelLatencyEvent \<Rightarrow> json" where
  "event_json e = JObj
     [(''vm_id'', JStr (ke_VMID e)), (''submission_id'', JStr (ke_SubmissionID e)),
      (''latency_ns'', JInt (uint (ke_LatencyNs e))), (''latency_us'', JFloat (ke_LatencyUs e)),
      (''egress_ts_ns'', JInt (uint (ke_EgressTsNs e))), (''src_port'', JInt (uint (ke_SrcPort e))),
      (''dst_port'', JInt (uint (ke_DstPort e))), (''seq'', JInt (uint (ke_Seq e))),
      (''timestamp'', JInt (ke_Timestamp e))]"

text \<open>A Kafka record: topic, key, value. An event that does not marshal is skipped.\<close>

definition kafka_records :: "probe \<Rightarrow> KernelLatencyEvent list \<Rightarrow> (string \<times> string \<times> json) list" where
  "kafka_records c evs =
     map (\<lambda>j. (topic c, pc_vmID c, j)) (filter encodable (map event_json evs))"

text \<open>
  \<open>flush\<close>. The broker's answer is \<open>ack\<close>, a function of the records; \<open>ProduceSync\<close> under a
  cancelled context delivers nothing. An error is logged, nothing more.
\<close>

definition probe_flush ::
  "probe \<Rightarrow> ((string \<times> string \<times> json) list \<Rightarrow> bool) \<Rightarrow> KernelLatencyEvent list \<Rightarrow> consumer \<Rightarrow> consumer"
where
  "probe_flush c ack evs s =
     (if evs = [] then s
      else if \<not> kafka c then s\<lparr>flushed := flushed s @ [(evs, True)]\<rparr>
      else s\<lparr>flushed := flushed s @ [(evs, \<not> cancelled s \<and> ack (kafka_records c evs))]\<rparr>)"

text \<open>
  A turn of the loop: the case that \<open>select\<close> takes, then a read of the ring buffer, which
  times out, fails, or brings a record at a time of the clock.
\<close>

datatype sel = StopCase | TickCase | DefaultCase

datatype ring_read = NoRecord | RingRecord "byte list" int

definition select_part ::
  "probe \<Rightarrow> ((string \<times> string \<times> json) list \<Rightarrow> bool) \<Rightarrow> sel \<Rightarrow> consumer \<Rightarrow> consumer option"
where
  "select_part c ack choice s =
     (case choice of
        StopCase \<Rightarrow>
          if cancelled s then
            Some ((if batch s \<noteq> [] then probe_flush c ack (batch s) s else s)\<lparr>returned := True\<rparr>)
          else None
      | TickCase \<Rightarrow>
          Some (if batch s \<noteq> [] then (probe_flush c ack (batch s) s)\<lparr>batch := []\<rparr> else s)
      | DefaultCase \<Rightarrow> if cancelled s then None else Some s)"

definition read_part ::
  "probe \<Rightarrow> ((string \<times> string \<times> json) list \<Rightarrow> bool) \<Rightarrow> ring_read \<Rightarrow> consumer \<Rightarrow> consumer"
where
  "read_part c ack r s =
     (case r of
        NoRecord \<Rightarrow> s
      | RingRecord raw now_ms \<Rightarrow>
          if length raw < record_size then s
          else let s' = s\<lparr>batch := batch s @ [event_of c raw now_ms]\<rparr>
            in if probeFlushSize \<le> length (batch s') then (probe_flush c ack (batch s') s')\<lparr>batch := []\<rparr>
               else s')"

datatype probe_event = Cancel | Turn sel ring_read "(string \<times> string \<times> json) list \<Rightarrow> bool"

fun probe_step :: "probe \<Rightarrow> probe_event \<Rightarrow> consumer \<Rightarrow> consumer option" where
  "probe_step c Cancel s = Some (s\<lparr>cancelled := True\<rparr>)"
| "probe_step c (Turn choice r ack) s =
     (if returned s then None
      else case select_part c ack choice s of
        None \<Rightarrow> None
      | Some s' \<Rightarrow> if returned s' then Some s' else Some (read_part c ack r s'))"

fun probe_run :: "probe \<Rightarrow> probe_event list \<Rightarrow> consumer \<Rightarrow> consumer option" where
  "probe_run c [] s = Some s"
| "probe_run c (e # es) s = (case probe_step c e s of None \<Rightarrow> None | Some s' \<Rightarrow> probe_run c es s')"

text \<open>\<open>StartProbeConsumer\<close> starts the loop, which returns at once without a ring buffer reader.\<close>

definition StartProbeConsumer :: "bool \<Rightarrow> consumer" where
  "StartProbeConsumer reader_ok = \<lparr>batch = [], cancelled = False, returned = \<not> reader_ok, flushed = []\<rparr>"

text \<open>\<open>StopProbeConsumer\<close> cancels and waits until the loop has returned.\<close>

definition StopProbeConsumer :: "probe \<Rightarrow> probe_event list \<Rightarrow> consumer \<Rightarrow> consumer option" where
  "StopProbeConsumer c turns s =
     (case probe_run c (Cancel # turns) s of
        None \<Rightarrow> None
      | Some t \<Rightarrow> if returned t then Some t else None)"

section \<open>The wire format\<close>

lemma length_le_bytes [simp]: "length (le_bytes n v) = n"
  by (induction n arbitrary: v) simp_all

lemma le_val_bytes: "le_val (le_bytes n v) = v mod 256 ^ n"
proof (induction n arbitrary: v)
  case 0
  then show ?case by simp
next
  case (Suc n)
  have "unat (of_nat v :: byte) = v mod 256" by (simp add: unat_of_nat take_bit_eq_mod)
  then show ?case using Suc by (simp add: mod_mult2_eq add.commute)
qed

lemma le_val_field: "v < 256 ^ n \<Longrightarrow> le_val (le_bytes n v) = v"
  by (simp add: le_val_bytes)

lemma le_field_skip: "length xs \<le> off \<Longrightarrow> le_field off n (xs @ ys) = le_field (off - length xs) n ys"
  by (simp add: le_field_def)

lemma le_field_here: "v < 256 ^ n \<Longrightarrow> le_field 0 n (le_bytes n v @ ys) = v"
  by (simp add: le_field_def le_val_field)

lemma unat_bounds:
  "unat (a :: 64 word) < 256 ^ 8" "unat (b :: 32 word) < 256 ^ 4" "unat (c :: 16 word) < 256 ^ 2"
  using unsigned_less [of a] unsigned_less [of b] unsigned_less [of c] by simp_all

lemma event_encodable: "encodable (event_json (event_of c raw t))"
proof -
  define n where "n = uint (LatencyNs (decode_record raw))"
  have "0 \<le> n" "n \<le> 2 ^ 64"
    using unsigned_less [of "LatencyNs (decode_record raw)", where 'a = int] by (simp_all add: n_def)
  then have "\<bar>of_int n :: rat\<bar> \<le> of_int (2 ^ 64)" unfolding of_int_le_iff of_int_abs [symmetric] by simp
  then have "fbound 64 (f64_of_int n)" unfolding f64_of_int_def by (intro fbound_round) simp_all
  then have "is_finite (f64_div (f64_of_int n) (Fin 1000))"
    using fbound_div [of 64 "f64_of_int n" 1000] fbound_finite by simp
  then show ?thesis by (simp add: event_json_def event_of_def Let_def n_def)
qed

section \<open>Events on their way\<close>

text \<open>The events that the turns of a run take from the ring buffer.\<close>

fun taken_by :: "probe \<Rightarrow> probe_event \<Rightarrow> KernelLatencyEvent list" where
  "taken_by c Cancel = []"
| "taken_by c (Turn StopCase r ack) = []"
| "taken_by c (Turn choice NoRecord ack) = []"
| "taken_by c (Turn choice (RingRecord raw t) ack) = (if length raw < record_size then [] else [event_of c raw t])"

definition taken :: "probe \<Rightarrow> probe_event list \<Rightarrow> KernelLatencyEvent list" where
  "taken c es = concat (map (taken_by c) es)"

text \<open>What has been handed to \<open>flush\<close>, followed by what waits in the batch.\<close>

definition handled :: "consumer \<Rightarrow> KernelLatencyEvent list" where
  "handled s = concat (map fst (flushed s)) @ (if returned s then [] else batch s)"

definition flushes_ok :: "consumer \<Rightarrow> bool" where
  "flushes_ok s \<longleftrightarrow> length (batch s) < 256 \<and> (\<forall>f \<in> set (flushed s). fst f \<noteq> [] \<and> length (fst f) \<le> 256)"

text \<open>A step appends to the flushed batches; under a cancelled context nothing is delivered.\<close>

definition appends :: "probe \<Rightarrow> consumer \<Rightarrow> consumer \<Rightarrow> bool" where
  "appends c s t \<longleftrightarrow> (\<exists>tail. flushed t = flushed s @ tail \<and>
     (kafka c \<and> cancelled s \<longrightarrow> (\<forall>f \<in> set tail. \<not> snd f)))"

lemma select_step:
  assumes "select_part c ack choice s = Some t" "\<not> returned s"
  shows "handled t = handled s \<and> (flushes_ok s \<longrightarrow> flushes_ok t) \<and> appends c s t \<and>
    cancelled t = cancelled s \<and> (returned t \<longleftrightarrow> choice = StopCase)"
  using assms
  by (auto simp: select_part_def probe_flush_def handled_def flushes_ok_def appends_def
      split: sel.splits if_splits)

lemma read_step:
  assumes "\<not> returned s"
  shows "handled (read_part c ack r s) = handled s @ (case r of NoRecord \<Rightarrow> []
      | RingRecord raw t \<Rightarrow> if length raw < record_size then [] else [event_of c raw t]) \<and>
    (flushes_ok s \<longrightarrow> flushes_ok (read_part c ack r s)) \<and> appends c s (read_part c ack r s) \<and>
    cancelled (read_part c ack r s) = cancelled s \<and> \<not> returned (read_part c ack r s)"
  using assms
  by (auto simp: read_part_def probe_flush_def handled_def flushes_ok_def appends_def Let_def
      probeFlushSize_def split: ring_read.splits)

lemma appends_refl: "flushed t = flushed s \<Longrightarrow> appends c s t"
  by (simp add: appends_def)

lemma appends_trans:
  "appends c s t \<Longrightarrow> appends c t u \<Longrightarrow> (cancelled s \<Longrightarrow> cancelled t) \<Longrightarrow> appends c s u"
  unfolding appends_def by fastforce

lemma probe_step_effect:
  assumes "probe_step c e s = Some t"
  shows "handled t = handled s @ taken_by c e \<and> (flushes_ok s \<longrightarrow> flushes_ok t) \<and> appends c s t \<and>
    (cancelled s \<longrightarrow> cancelled t)"
proof (cases e)
  case Cancel
  with assms show ?thesis by (auto simp: handled_def flushes_ok_def appends_refl)
next
  case (Turn choice r ack)
  with assms obtain s' where s': "\<not> returned s" "select_part c ack choice s = Some s'"
    "t = (if returned s' then s' else read_part c ack r s')"
    by (auto split: if_splits option.splits)
  note sel = select_step [OF s'(2,1)]
  show ?thesis
  proof (cases "returned s'")
    case True
    then show ?thesis using sel s'(3) Turn by auto
  next
    case False
    then have "taken_by c e = (case r of NoRecord \<Rightarrow> []
        | RingRecord raw t \<Rightarrow> if length raw < record_size then [] else [event_of c raw t])"
      using sel Turn by (cases choice; cases r) auto
    then show ?thesis
      using sel False s'(3) read_step [OF False, of c ack r] appends_trans [of c s s' t] by auto
  qed
qed

lemma probe_run_effect:
  assumes "probe_run c es s = Some t"
  shows "handled t = handled s @ taken c es \<and> (flushes_ok s \<longrightarrow> flushes_ok t) \<and> appends c s t \<and>
    (cancelled s \<longrightarrow> cancelled t)"
  using assms
proof (induction es arbitrary: s)
  case Nil
  then show ?case by (simp add: taken_def appends_refl)
next
  case (Cons e es)
  then obtain u where u: "probe_step c e s = Some u" "probe_run c es u = Some t"
    by (auto split: option.splits)
  show ?case using probe_step_effect [OF u(1)] Cons.IH [OF u(2)] appends_trans [of c s u t]
    by (auto simp: taken_def)
qed


section \<open>Properties\<close>

text \<open>
  The struct that the kernel program writes is read back unchanged from the 32 bytes
  of a ring buffer record, whatever follows them.
\<close>

theorem latency_record_roundtrip:
  "decode_record (encode_record r @ rest) = r \<and> length (encode_record r) = record_size"
  by (simp add: decode_record_def encode_record_def record_size_def le_field_skip le_field_here
      unat_bounds [simplified])

text \<open>
  C30. No event is lost, duplicated or reordered inside the consumer: after any turns, the
  batches handed to \<open>flush\<close>, followed by what still waits in the batch, are exactly the
  events of the full-size records read, in order. A batch never grows beyond 256 events,
  and fewer than 256 wait between two turns.
\<close>

theorem probe_events_accounted:
  assumes "probe_run c es (StartProbeConsumer ok) = Some s"
  shows "handled s = taken c es \<and> length (batch s) < 256 \<and>
    (\<forall>f \<in> set (flushed s). fst f \<noteq> [] \<and> length (fst f) \<le> 256)"
  using probe_run_effect [OF assms] by (simp add: StartProbeConsumer_def handled_def flushes_ok_def)

definition demo_probe :: probe where
  "demo_probe = \<lparr>pc_vmID = ''vm1'', pc_submissionID = ''a'', kafka = True, topic = ''latency''\<rparr>"

definition demo_record :: "byte list" where
  "demo_record = replicate 32 1"

definition demo_turns :: "probe_event list" where
  "demo_turns =
     [Turn DefaultCase (RingRecord demo_record 5) (\<lambda>_. True), Turn DefaultCase (RingRecord [1] 6) (\<lambda>_. True),
      Turn TickCase NoRecord (\<lambda>_. True), Turn DefaultCase (RingRecord demo_record 7) (\<lambda>_. True)]"

lemma probe_demo_run:
  "\<exists>s. probe_run demo_probe demo_turns (StartProbeConsumer True) = Some s \<and> \<not> returned s \<and>
     flushed s = [([event_of demo_probe demo_record 5], True)] \<and>
     batch s = [event_of demo_probe demo_record 7]"
  by (simp add: demo_turns_def demo_record_def StartProbeConsumer_def select_part_def read_part_def
      probe_flush_def record_size_def probeFlushSize_def Let_def)

theorem probe_events_accounted_witness:
  "\<exists>s. probe_run demo_probe demo_turns (StartProbeConsumer True) = Some s \<and>
     handled s = [event_of demo_probe demo_record 5, event_of demo_probe demo_record 7]"
proof -
  obtain s where s: "probe_run demo_probe demo_turns (StartProbeConsumer True) = Some s"
    using probe_demo_run by blast
  from probe_events_accounted [OF s] s show ?thesis
    by (simp add: taken_def demo_turns_def demo_record_def record_size_def)
qed

text \<open>
  Stopping a consumer that forwards to Kafka loses its tail: everything that waits in
  the batch, or is read after the cancellation, is handed over under the cancelled context
  and not delivered.
\<close>

theorem probe_stop_loses_tail:
  assumes "kafka c" "\<not> returned s" "StopProbeConsumer c turns s = Some t"
  shows "\<exists>tail. flushed t = flushed s @ tail \<and> concat (map fst tail) = batch s @ taken c turns \<and>
    (\<forall>f \<in> set tail. \<not> snd f)"
proof -
  have run: "probe_run c turns (s\<lparr>cancelled := True\<rparr>) = Some t" and ret: "returned t"
    using assms(3) by (auto simp: StopProbeConsumer_def split: option.splits if_splits)
  from probe_run_effect [OF run] obtain tail where tail: "flushed t = flushed s @ tail"
    "\<forall>f \<in> set tail. \<not> snd f" "handled t = handled s @ taken c turns"
    using assms(1) by (auto simp: appends_def handled_def)
  then have "concat (map fst tail) = batch s @ taken c turns"
    using ret assms(2) by (simp add: handled_def)
  with tail show ?thesis by blast
qed

theorem probe_stop_loses_tail_witness:
  "\<exists>s t. probe_run demo_probe demo_turns (StartProbeConsumer True) = Some s \<and>
     StopProbeConsumer demo_probe [Turn StopCase NoRecord (\<lambda>_. True)] s = Some t \<and>
     \<not> (\<forall>f \<in> set (flushed t). snd f)"
proof -
  obtain s where s: "probe_run demo_probe demo_turns (StartProbeConsumer True) = Some s" "\<not> returned s"
    "batch s = [event_of demo_probe demo_record 7]"
    using probe_demo_run by blast
  obtain t where t: "StopProbeConsumer demo_probe [Turn StopCase NoRecord (\<lambda>_. True)] s = Some t"
    using s by (simp add: StopProbeConsumer_def select_part_def)
  have "kafka demo_probe" by (simp add: demo_probe_def)
  from probe_stop_loses_tail [OF this s(2) t] s(3) obtain tail where
    "flushed t = flushed s @ tail" "concat (map fst tail) \<noteq> []" "\<forall>f \<in> set tail. \<not> snd f"
    by (metis append_Cons list.distinct(1))
  then have "\<not> (\<forall>f \<in> set (flushed t). snd f)" by (cases tail) auto
  with s t show ?thesis by blast
qed

end
