(* ===== verification/Submission_Workers.thy ===== *)
theory Submission_Workers
  imports Submission
begin

text \<open>
  The pool of workers of the submission API (\<open>startWorkerPool\<close>), running beside the HTTP
  handlers. A turn of a worker is cut at its statements and RPCs, and every worker and every
  request may come next. The row that a transaction has selected \<open>FOR UPDATE\<close> is locked
  until the transaction ends: other workers skip it, an upsert of it waits. The first
  lemma is that an undisturbed turn is \<open>processNextJob\<close>.
\<close>

section \<open>Workers\<close>

datatype worker = Asleep | Awake
  | Marking string
  | Spawning string
  | Measuring string SpawnResponse
  | Finishing string "SpawnResponse option" stmt
  | Tearing "SpawnResponse option"

fun worker_step :: "sub_env \<Rightarrow> string list \<Rightarrow> worker \<Rightarrow> worker sub" where
  "worker_step E held Asleep = ret Asleep"
| "worker_step E held Awake =
     if_err (on_host (call_err (host E) (Sdk BeginTx))) (\<lambda>_. ret Asleep)
       (with_val (select_pending E held)
         (\<lambda>_. and_then (on_host (call_err (host E) (Sdk Rollback))) (ret Asleep))
         (\<lambda>sid. ret (Marking sid)))"
| "worker_step E held (Marking sid) =
     if_err (on_host (call_err (host E) (Sdk (TxExec (SetRunning sid)))))
       (\<lambda>_. and_then (on_host (call_err (host E) (Sdk Rollback))) (ret Asleep))
       (and_then (tx_commit E (SetRunning sid)) (ret (Spawning sid)))"
| "worker_step E held (Spawning sid) =
     State_Monad.bind (on_host (spawn_vm E sid)) (\<lambda>r. ret (case r of
       None \<Rightarrow> Finishing sid None (SetFailed sid)
     | Some vm \<Rightarrow> Measuring sid vm))"
| "worker_step E held (Measuring sid vm) =
     State_Monad.bind (measure_job E sid vm) (\<lambda>st. ret (Finishing sid (Some vm) st))"
| "worker_step E held (Finishing sid vm st) = and_then (exec E st) (ret (Tearing vm))"
| "worker_step E held (Tearing vm) =
     and_then (case vm of None \<Rightarrow> ret None
         | Some v \<Rightarrow> on_host (call_err (host E) (Sdk (TeardownRPC (sr_VmId v)))))
       (and_then (on_host (call_err (host E) (Sdk Rollback))) (ret Asleep))"

fun turn_steps :: "sub_env \<Rightarrow> nat \<Rightarrow> worker \<Rightarrow> worker sub" where
  "turn_steps E 0 w = ret w"
| "turn_steps E (Suc n) w = State_Monad.bind (worker_step E [] w) (turn_steps E n)"

section \<open>The pool\<close>

record pool =
  pool_jobs :: jobs
  pool_hist :: "sub_call history"
  pool_tasks :: "nat \<Rightarrow> worker"

definition pool_init :: "jobs \<Rightarrow> pool" where
  "pool_init jobs = \<lparr>pool_jobs = jobs, pool_hist = [], pool_tasks = (\<lambda>_. Asleep)\<rparr>"

fun locked_row :: "worker \<Rightarrow> string list" where
  "locked_row (Marking sid) = [sid]"
| "locked_row _ = []"

text \<open>The rows locked by the \<open>n\<close> workers.\<close>

definition held_rows :: "nat \<Rightarrow> (nat \<Rightarrow> worker) \<Rightarrow> string list" where
  "held_rows n T = concat (map (\<lambda>i. locked_row (T i)) [0..<n])"

text \<open>
  A worker wakes up after its second of sleep, or takes a step; a request to \<open>/submit\<close> is
  served; the service dies and starts again, with what the table holds.
\<close>

datatype pool_event = Wake nat | Step nat | SubmitCall sub_request | Crash

definition work :: "sub_env \<Rightarrow> nat \<Rightarrow> nat \<Rightarrow> pool \<Rightarrow> pool" where
  "work E n i s =
     (case run_state (worker_step E (held_rows n (pool_tasks s)) (pool_tasks s i)) (pool_jobs s, pool_hist s) of
        (w, (jobs, h)) \<Rightarrow> \<lparr>pool_jobs = jobs, pool_hist = h, pool_tasks = (pool_tasks s)(i := w)\<rparr>)"

definition pool_step :: "sub_env \<Rightarrow> nat \<Rightarrow> pool_event \<Rightarrow> pool \<Rightarrow> pool option" where
  "pool_step E n e s =
     (case e of
        Wake i \<Rightarrow> if i < n \<and> pool_tasks s i = Asleep
          then Some (s\<lparr>pool_tasks := (pool_tasks s)(i := Awake)\<rparr>) else None
      | Step i \<Rightarrow> if i < n then Some (work E n i s) else None
      | SubmitCall req \<Rightarrow>
          if TrimSpace (form_id req) \<in> set (held_rows n (pool_tasks s)) then None
          else (case handleSubmit E req (pool_jobs s, pool_hist s) fresh_rw of
            ((jobs, h), _) \<Rightarrow> Some (s\<lparr>pool_jobs := jobs, pool_hist := h\<rparr>))
      | Crash \<Rightarrow> Some (s\<lparr>pool_tasks := (\<lambda>_. Asleep)\<rparr>))"

section \<open>A turn, step by step\<close>

lemma turn_steps_asleep [simp]: "turn_steps E n Asleep = ret Asleep"
  by (induction n) (simp_all add: State_Monad.bind_def State_Monad.return_def)

lemma turn_spawned:
  "run_state (turn_steps E 4 (Spawning sid)) (jobs, h) =
     (Asleep, snd (run_state (deferring (on_host (call_err (host E) (Sdk Rollback)))
       (runBenchmarkSync E sid)) (jobs, h)))"
proof -
  have n: "(4::nat) = Suc 3" "(3::nat) = Suc 2" "(2::nat) = Suc 1" by simp_all
  obtain r h1 where r: "run_state (spawn_vm E sid) h = (r, h1)" by fastforce
  show ?thesis
  proof (cases r)
    case None
    with r show ?thesis by (simp add: n runBenchmarkSync_def)
  next
    case (Some vm)
    obtain st l where "run_state (measure_job E sid vm) (jobs, h1) = (st, (jobs, h1 @ l))"
      by (rule measure_run)
    with r Some show ?thesis by (simp add: n runBenchmarkSync_def)
  qed
qed

lemma two_steps:
  "turn_steps E 6 w = State_Monad.bind (worker_step E [] w) (\<lambda>w'.
     State_Monad.bind (worker_step E [] w') (turn_steps E 4))"
proof -
  have "turn_steps E (Suc n) = (\<lambda>w. State_Monad.bind (worker_step E [] w) (turn_steps E n))" for n
    by (rule ext) simp
  moreover have "(6::nat) = Suc (Suc 4)" by simp
  ultimately show ?thesis by (simp only:)
qed

lemma turn_spawned_any:
  "run_state (turn_steps E 4 (Spawning sid)) s =
     (Asleep, snd (run_state (deferring (on_host (call_err (host E) (Sdk Rollback)))
       (runBenchmarkSync E sid)) s))"
  by (cases s) (simp only: turn_spawned)

text \<open>
  An undisturbed turn is \<open>processNextJob\<close>.
\<close>

lemma turn_is_process:
  "run_state (turn_steps E 6 Awake) (jobs, h) = (Asleep, snd (run_state (processNextJob E) (jobs, h)))"
proof (cases "env_err (host E) h (Sdk BeginTx)")
  case (Some err)
  then show ?thesis by (simp add: processNextJob_def two_steps)
next
  case begun: None
  let ?h1 = "h @ [(Sdk BeginTx, True)]"
  show ?thesis
  proof (rule select_cases [of E "[]" jobs ?h1])
    fix err
    assume "run_state (select_pending E []) (jobs, ?h1) = (Inl err, (jobs, ?h1 @ [(Sdk SelectPending, False)]))"
    with begun show ?thesis by (simp add: processNextJob_def two_steps)
  next
    fix sid
    assume "run_state (select_pending E []) (jobs, ?h1) = (Inr sid, (jobs, ?h1 @ [(Sdk SelectPending, True)]))"
    with begun show ?thesis
      by (cases "env_err (host E) (?h1 @ [(Sdk SelectPending, True)]) (Sdk (TxExec (SetRunning sid)))")
        (simp_all add: two_steps processNextJob_def turn_spawned_any del: run_tx_commit split: prod.splits)
  qed
qed

section \<open>Exclusion\<close>

text \<open>The job that a worker has selected, and the one that it has marked as RUNNING.\<close>

fun active :: "worker \<Rightarrow> string option" where
  "active (Marking sid) = Some sid"
| "active (Spawning sid) = Some sid"
| "active (Measuring sid _) = Some sid"
| "active (Finishing sid _ _) = Some sid"
| "active _ = None"

fun serving :: "worker \<Rightarrow> string option" where
  "serving (Marking sid) = None"
| "serving w = active w"

fun decided :: "worker \<Rightarrow> bool" where
  "decided (Finishing sid _ st) \<longleftrightarrow> decides sid st"
| "decided _ \<longleftrightarrow> True"

definition status_of :: "jobs \<Rightarrow> string \<Rightarrow> string option" where
  "status_of jobs sid = map_option job_status (map_of jobs sid)"

text \<open>
  Orderly clients submit an id again only when no worker is busy with it. The step
  relation of the pool under a condition on the events.
\<close>

fun orderly_submit :: "pool_event \<Rightarrow> pool \<Rightarrow> bool" where
  "orderly_submit (SubmitCall req) s \<longleftrightarrow> (\<forall>i. active (pool_tasks s i) \<noteq> Some (TrimSpace (form_id req)))"
| "orderly_submit _ s \<longleftrightarrow> True"

abbreviation pool_rel :: "sub_env \<Rightarrow> nat \<Rightarrow> (pool_event \<Rightarrow> pool \<Rightarrow> bool) \<Rightarrow> pool \<Rightarrow> pool \<Rightarrow> bool" where
  "pool_rel E n ok \<equiv> event_rel (pool_step E n) ok"

definition commits_ok :: "sub_env \<Rightarrow> bool" where
  "commits_ok E \<longleftrightarrow> (\<forall>h. env_err (host E) h (Sdk Commit) = None)"

text \<open>
  What a step of one worker can do to the worker and to the table, when commits never
  fail or when they may.
\<close>

inductive worker_moves :: "bool \<Rightarrow> string list \<Rightarrow> worker \<Rightarrow> jobs \<Rightarrow> worker \<Rightarrow> jobs \<Rightarrow> bool"
  for safe held
where
  rests: "active w' = None \<Longrightarrow> worker_moves safe held w jobs w' jobs"
| selects: "sid \<in> set (pending_jobs jobs) \<Longrightarrow> sid \<notin> set held \<Longrightarrow>
    worker_moves safe held Awake jobs (Marking sid) jobs"
| marks: "worker_moves safe held (Marking sid) jobs (Spawning sid) (apply_stmt (SetRunning sid) jobs)"
| slips: "\<not> safe \<Longrightarrow> worker_moves safe held (Marking sid) jobs (Spawning sid) jobs"
| goes_on: "serving w = Some sid \<Longrightarrow> serving w' = Some sid \<Longrightarrow> decided w' \<Longrightarrow>
    worker_moves safe held w jobs w' jobs"
| finishes: "decides sid st \<Longrightarrow>
    worker_moves safe held (Finishing sid vm st) jobs (Tearing vm) (apply_stmt st jobs)"

lemma worker_step_moves:
  assumes "decided w" "run_state (worker_step E held w) (jobs, h) = (w', (jobs', h'))"
  shows "worker_moves (commits_ok E) held w jobs w' jobs'"
proof (cases w)
  case Asleep
  with assms(2) show ?thesis by (auto intro: rests)
next
  case Awake
  show ?thesis
  proof (rule select_cases [of E held jobs "h @ [(Sdk BeginTx, True)]"])
    fix err
    assume "run_state (select_pending E held) (jobs, h @ [(Sdk BeginTx, True)]) =
      (Inl err, (jobs, (h @ [(Sdk BeginTx, True)]) @ [(Sdk SelectPending, False)]))"
    with Awake assms(2) show ?thesis by (auto intro: rests split: option.splits)
  next
    fix sid
    assume "run_state (select_pending E held) (jobs, h @ [(Sdk BeginTx, True)]) =
      (Inr sid, (jobs, (h @ [(Sdk BeginTx, True)]) @ [(Sdk SelectPending, True)]))"
      "sid \<in> set (pending_jobs jobs)" "sid \<notin> set held"
    with Awake assms(2) show ?thesis by (auto intro: rests selects split: option.splits)
  qed
next
  case (Marking sid)
  with assms(2) show ?thesis
    by (auto simp: commits_ok_def intro: rests marks slips split: option.splits if_splits)
next
  case (Spawning sid)
  with assms(2) show ?thesis
    by (auto intro!: goes_on split: option.splits prod.splits)
next
  case (Measuring sid vm)
  obtain st l where "run_state (measure_job E sid vm) (jobs, h) = (st, (jobs, h @ l))" "decides sid st"
    by (rule measure_run)
  with Measuring assms(2) show ?thesis by (auto intro!: goes_on)
next
  case (Finishing sid vm st)
  with assms show ?thesis by (auto intro: rests finishes split: if_splits)
next
  case (Tearing vm)
  with assms(2) show ?thesis by (cases vm) (auto intro: rests)
qed

definition pool_inv :: "nat \<Rightarrow> jobs \<Rightarrow> (nat \<Rightarrow> worker) \<Rightarrow> bool" where
  "pool_inv n jobs T \<longleftrightarrow> wf_alist jobs \<and> (\<forall>i. n \<le> i \<longrightarrow> T i = Asleep) \<and> (\<forall>i. decided (T i)) \<and>
     (\<forall>i j sid. active (T i) = Some sid \<and> active (T j) = Some sid \<longrightarrow> i = j) \<and>
     (\<forall>i sid. T i = Marking sid \<longrightarrow> status_of jobs sid = Some ''PENDING'') \<and>
     (\<forall>i sid. serving (T i) = Some sid \<longrightarrow> status_of jobs sid = Some ''RUNNING'')"

lemma serving_active: "serving w = Some sid \<Longrightarrow> active w = Some sid"
  by (cases w) simp_all

lemma active_cases: "active w = Some sid \<Longrightarrow> w = Marking sid \<or> serving w = Some sid"
  by (cases w) simp_all

lemma active_none: "active w = None \<Longrightarrow> decided w \<and> serving w = None \<and> (\<forall>sid. w \<noteq> Marking sid)"
  by (cases w) simp_all

lemma active_not_asleep: "active w = Some sid \<Longrightarrow> w \<noteq> Asleep"
  by auto

lemma in_held_rows: "sid \<in> set (held_rows n T) \<longleftrightarrow> (\<exists>i < n. T i = Marking sid)"
proof -
  have "sid \<in> set (locked_row w) \<longleftrightarrow> w = Marking sid" for w by (cases w) auto
  then show ?thesis by (auto simp: held_rows_def)
qed

lemma status_of_pending:
  "wf_alist jobs \<Longrightarrow> sid \<in> set (pending_jobs jobs) \<longleftrightarrow> status_of jobs sid = Some ''PENDING''"
  by (auto simp: in_pending_jobs status_of_def)

lemma status_of_other:
  "k \<noteq> sid \<Longrightarrow> decides sid st \<Longrightarrow> status_of (apply_stmt st jobs) k = status_of jobs k"
  "k \<noteq> sid \<Longrightarrow> status_of (apply_stmt (SetRunning sid) jobs) k = status_of jobs k"
  "k \<noteq> sid \<Longrightarrow> status_of (apply_stmt (InsertJob sid) jobs) k = status_of jobs k"
  by (simp_all add: status_of_def map_of_decided map_of_apply_stmt)

lemma status_of_marked:
  "status_of jobs sid = Some s \<Longrightarrow> status_of (apply_stmt (SetRunning sid) jobs) sid = Some ''RUNNING''"
  by (auto simp: status_of_def map_of_apply_stmt)

text \<open>What has to be checked when one worker moves.\<close>

lemma pool_inv_update:
  assumes "pool_inv n jobs T" "i < n" "wf_alist jobs'" "decided w'"
    and "\<And>j sid. j \<noteq> i \<Longrightarrow> active (T j) = Some sid \<Longrightarrow>
      status_of jobs' sid = status_of jobs sid \<and> active w' \<noteq> Some sid"
    and "\<And>sid. w' = Marking sid \<Longrightarrow> status_of jobs' sid = Some ''PENDING''"
    and "\<And>sid. serving w' = Some sid \<Longrightarrow> status_of jobs' sid = Some ''RUNNING''"
  shows "pool_inv n jobs' (T(i := w'))"
proof -
  have "status_of jobs' sid = Some ''PENDING''" if "(T(i := w')) j = Marking sid" for j sid
    using that assms(1, 6) assms(5) [of j sid] by (cases "j = i") (auto simp: pool_inv_def)
  moreover have "status_of jobs' sid = Some ''RUNNING''" if "serving ((T(i := w')) j) = Some sid" for j sid
    using that assms(1, 7) assms(5) [of j sid] serving_active [of "T j" sid]
    by (cases "j = i") (auto simp: pool_inv_def)
  moreover have "j = k"
    if "active ((T(i := w')) j) = Some sid" "active ((T(i := w')) k) = Some sid" for j k sid
    using that assms(1) assms(5) [of j sid] assms(5) [of k sid]
    by (cases "j = i"; cases "k = i") (auto simp: pool_inv_def)
  moreover have "(T(i := w')) j = Asleep" if "n \<le> j" for j
    using that assms(1, 2) by (auto simp: pool_inv_def)
  moreover have "decided ((T(i := w')) j)" for j
    using assms(1, 4) by (auto simp: pool_inv_def)
  ultimately show ?thesis using assms(3) unfolding pool_inv_def by blast
qed

lemma pool_inv_own:
  assumes inv: "pool_inv n jobs T" and "i < n" "wf_alist jobs'" "decided w'"
    and own: "active (T i) = Some sid"
    and next_own: "active w' = None \<or> active w' = Some sid" "\<And>k. w' \<noteq> Marking k"
    and "\<And>k. k \<noteq> sid \<Longrightarrow> status_of jobs' k = status_of jobs k"
    and "serving w' = Some sid \<Longrightarrow> status_of jobs' sid = Some ''RUNNING''"
  shows "pool_inv n jobs' (T(i := w'))"
proof (rule pool_inv_update [OF inv assms(2-4)])
  fix j k
  assume "j \<noteq> i" "active (T j) = Some k"
  then have "k \<noteq> sid" using inv own by (auto simp: pool_inv_def)
  then show "status_of jobs' k = status_of jobs k \<and> active w' \<noteq> Some k"
    using assms(8) next_own(1) by auto
next
  fix k
  show "w' = Marking k \<Longrightarrow> status_of jobs' k = Some ''PENDING''" using next_own(2) by simp
  assume "serving w' = Some k"
  moreover from serving_active [OF this] next_own(1) have "k = sid" by auto
  ultimately show "status_of jobs' k = Some ''RUNNING''" using assms(9) by simp
qed

lemma pool_inv_moves:
  assumes inv: "pool_inv n jobs T" and "i < n"
    and "worker_moves True (held_rows n T) (T i) jobs w' jobs'"
  shows "pool_inv n jobs' (T(i := w'))"
proof -
  note facts = inv [unfolded pool_inv_def]
  from assms(3) show ?thesis
  proof cases
    case rests
    from active_none [OF rests(2)] facts show ?thesis
      by (intro pool_inv_update [OF inv assms(2)]) (auto simp: rests)
  next
    case (selects sid)
    have "active (T j) \<noteq> Some sid" for j
    proof
      assume a: "active (T j) = Some sid"
      have "status_of jobs sid = Some ''PENDING''" using selects facts status_of_pending by blast
      then have "T j = Marking sid" using active_cases [OF a] facts by fastforce
      moreover have "j < n" using active_not_asleep [OF a] facts by (meson not_le_imp_less)
      ultimately show False using selects by (auto simp: in_held_rows)
    qed
    with selects show ?thesis
      using facts status_of_pending by (intro pool_inv_update [OF inv assms(2)]) auto
  next
    case (marks sid)
    then have "status_of jobs sid = Some ''PENDING''" using facts by metis
    with marks show ?thesis
      using facts by (intro pool_inv_own [OF inv assms(2), of _ _ sid])
        (simp_all add: wf_apply_stmt status_of_marked status_of_other)
  next
    case slips
    then show ?thesis by simp
  next
    case (goes_on sid)
    moreover have "w' \<noteq> Marking k" for k using goes_on(3) by auto
    moreover have "status_of jobs sid = Some ''RUNNING''" using goes_on(2) facts by blast
    ultimately show ?thesis
      using facts serving_active by (intro pool_inv_own [OF inv assms(2), of _ _ sid]) simp_all
  next
    case (finishes sid st vm)
    then show ?thesis
      using facts by (intro pool_inv_own [OF inv assms(2), of _ _ sid])
        (simp_all add: wf_apply_stmt status_of_other)
  qed
qed

lemma submit_jobs:
  assumes "handleSubmit E req (jobs, h) fresh_rw = ((jobs', h'), r)"
  shows "jobs' = jobs \<or> jobs' = apply_stmt (InsertJob (TrimSpace (form_id req))) jobs"
  using assms by (auto simp: handleSubmit_def handler_of_def submit_body_def Let_def run_save
      split: if_splits option.splits)

lemma pool_inv_submit:
  assumes "pool_inv n jobs T" "\<forall>i. active (T i) \<noteq> Some sid"
  shows "pool_inv n (apply_stmt (InsertJob sid) jobs) T"
proof -
  let ?jobs = "apply_stmt (InsertJob sid) jobs"
  have same: "status_of ?jobs k = status_of jobs k" if "active (T i) = Some k" for i k
    using that assms(2) by (intro status_of_other(3)) auto
  have "status_of ?jobs k = Some ''PENDING''" if "T i = Marking k" for i k
    using that assms(1) same [of i k] by (auto simp: pool_inv_def)
  moreover have "status_of ?jobs k = Some ''RUNNING''" if "serving (T i) = Some k" for i k
    using that assms(1) same [OF serving_active [OF that]] by (auto simp: pool_inv_def)
  moreover have "wf_alist ?jobs" using assms(1) by (simp add: pool_inv_def wf_apply_stmt)
  ultimately show ?thesis using assms(1) by (simp add: pool_inv_def)
qed

definition orderly_step :: "sub_env \<Rightarrow> pool_event \<Rightarrow> pool \<Rightarrow> bool" where
  "orderly_step E e s \<longleftrightarrow> commits_ok E \<and> orderly_submit e s"

abbreviation pool_state_inv :: "nat \<Rightarrow> pool \<Rightarrow> bool" where
  "pool_state_inv n s \<equiv> pool_inv n (pool_jobs s) (pool_tasks s)"

lemma pool_inv_work:
  assumes "commits_ok E" "pool_state_inv n s" "i < n"
  shows "pool_state_inv n (work E n i s)"
proof -
  let ?T = "pool_tasks s"
  obtain w jobs h where r: "run_state (worker_step E (held_rows n ?T) (?T i)) (pool_jobs s, pool_hist s) = (w, (jobs, h))"
    by (metis prod.exhaust)
  have "decided (?T i)" using assms(2) by (simp add: pool_inv_def)
  from worker_step_moves [OF this r] pool_inv_moves [OF assms(2, 3)] r assms(1) show ?thesis
    by (simp add: work_def)
qed

lemma pool_inv_step:
  assumes "orderly_step E e s" "pool_state_inv n s" "pool_step E n e s = Some t"
  shows "pool_state_inv n t"
proof (cases e)
  case (Wake i)
  with assms show ?thesis
    by (auto simp: pool_step_def split: if_splits intro!: pool_inv_update [of n "pool_jobs s" "pool_tasks s"])
      (auto simp: pool_inv_def)
next
  case (Step i)
  with assms pool_inv_work show ?thesis by (auto simp: pool_step_def orderly_step_def split: if_splits)
next
  case (SubmitCall req)
  obtain jobs h r where h: "handleSubmit E req (pool_jobs s, pool_hist s) fresh_rw = ((jobs, h), r)"
    by (metis prod.exhaust)
  from submit_jobs [OF h] have "pool_inv n jobs (pool_tasks s)"
    using assms(1, 2) SubmitCall pool_inv_submit by (auto simp: orderly_step_def)
  with h assms(3) SubmitCall show ?thesis by (auto simp: pool_step_def split: if_splits)
next
  case Crash
  with assms show ?thesis by (auto simp: pool_step_def pool_inv_def)
qed

interpretation orderly_pool: step_system
  "\<lambda>s. \<exists>jobs. wf_alist jobs \<and> s = pool_init jobs" "pool_rel E n (orderly_step E)" "pool_state_inv n" for E n
proof
  fix s t n E
  show "\<exists>jobs. wf_alist jobs \<and> s = pool_init jobs \<Longrightarrow> pool_state_inv n s"
    by (auto simp: pool_init_def pool_inv_def)
  show "pool_state_inv n s \<Longrightarrow> pool_rel E n (orderly_step E) s t \<Longrightarrow> pool_state_inv n t"
    unfolding event_rel_def using pool_inv_step by blast
qed

text \<open>Two workers beside an API on which everything succeeds, commits possibly excepted.\<close>

definition flaky_env :: "bool \<Rightarrow> sub_env" where
  "flaky_env safe = calm_env\<lparr>host := quiet_env\<lparr>env_err := \<lambda>_ c.
     if c = Sdk Commit \<and> \<not> safe then Some (errors_New ''commit failed'') else None\<rparr>\<rparr>"

lemma flaky_answers:
  "env_err (host (flaky_env safe)) h c =
     (if c = Sdk Commit \<and> \<not> safe then Some (errors_New ''commit failed'') else None)"
  "fst (run_state (spawn_vm (flaky_env safe) sid) h) = Some (calm_vm sid)"
  by (simp_all add: flaky_env_def spawn_vm_def calm_answers)

definition gets_to ::
  "bool \<Rightarrow> (pool_event \<Rightarrow> pool \<Rightarrow> bool) \<Rightarrow> jobs \<Rightarrow> jobs \<Rightarrow> (nat \<Rightarrow> worker) \<Rightarrow> bool"
where
  "gets_to safe ok start jobs T \<longleftrightarrow> (\<exists>h. (pool_rel (flaky_env safe) 2 ok)\<^sup>*\<^sup>* (pool_init start)
     \<lparr>pool_jobs = jobs, pool_hist = h, pool_tasks = T\<rparr>)"

lemma gets_on:
  assumes "gets_to safe ok start jobs T" "\<And>h. ok e \<lparr>pool_jobs = jobs, pool_hist = h, pool_tasks = T\<rparr>"
    and "\<And>h. \<exists>h'. pool_step (flaky_env safe) 2 e \<lparr>pool_jobs = jobs, pool_hist = h, pool_tasks = T\<rparr> =
      Some \<lparr>pool_jobs = jobs', pool_hist = h', pool_tasks = T'\<rparr>"
  shows "gets_to safe ok start jobs' T'"
proof -
  obtain h where h: "(pool_rel (flaky_env safe) 2 ok)\<^sup>*\<^sup>* (pool_init start)
      \<lparr>pool_jobs = jobs, pool_hist = h, pool_tasks = T\<rparr>"
    using assms(1) by (auto simp: gets_to_def)
  obtain h' where "pool_rel (flaky_env safe) 2 ok \<lparr>pool_jobs = jobs, pool_hist = h, pool_tasks = T\<rparr>
      \<lparr>pool_jobs = jobs', pool_hist = h', pool_tasks = T'\<rparr>"
    using assms(2) [of h] assms(3) [of h] unfolding event_rel_def by blast
  with h show ?thesis unfolding gets_to_def by (meson rtranclp.rtrancl_into_rtrancl)
qed

lemma gets_submitted:
  assumes "gets_to safe ok start jobs T" "held_rows 2 T = []"
    and "\<And>h. ok (SubmitCall demo_submit) \<lparr>pool_jobs = jobs, pool_hist = h, pool_tasks = T\<rparr>"
  shows "gets_to safe ok start (apply_stmt (InsertJob ''a'') jobs) T"
proof (rule gets_on [OF assms(1, 3)])
  fix h
  have "\<exists>h' r. handleSubmit (flaky_env safe) demo_submit (jobs, h) fresh_rw =
      ((apply_stmt (InsertJob ''a'') jobs, h'), r)"
    by (auto simp: handleSubmit_def handler_of_def submit_body_def run_save flaky_answers demo_submit_def Let_def)
  with assms(2) show "\<exists>h'. pool_step (flaky_env safe) 2 (SubmitCall demo_submit)
      \<lparr>pool_jobs = jobs, pool_hist = h, pool_tasks = T\<rparr> =
      Some \<lparr>pool_jobs = apply_stmt (InsertJob ''a'') jobs, pool_hist = h', pool_tasks = T\<rparr>"
    by (auto simp: pool_step_def)
qed

text \<open>From its sleep to the spawn of the only job that waits.\<close>

lemma gets_spawning:
  assumes "gets_to safe ok start jobs T" "i < 2" "T i = Asleep" "held_rows 2 T = []"
    and "pending_jobs jobs = [sid]"
    and "\<And>h T'. ok (Wake i) \<lparr>pool_jobs = jobs, pool_hist = h, pool_tasks = T'\<rparr>"
    and "\<And>h T'. ok (Step i) \<lparr>pool_jobs = jobs, pool_hist = h, pool_tasks = T'\<rparr>"
  shows "gets_to safe ok start (if safe then apply_stmt (SetRunning sid) jobs else jobs) (T(i := Spawning sid))"
proof -
  have "locked_row (T 0) = []" "locked_row (T 1) = []"
    using assms(4) by (simp_all add: held_rows_def eval_nat_numeral)
  then have held: "held_rows 2 (T(i := Awake)) = []"
    using assms(2) by (simp add: held_rows_def eval_nat_numeral)
  have "gets_to safe ok start jobs (T(i := Awake))"
    using assms(2, 3) by (intro gets_on [OF assms(1, 6)]) (simp add: pool_step_def)
  then have "gets_to safe ok start jobs ((T(i := Awake))(i := Marking sid))"
    by (rule gets_on [where e = "Step i"])
      (use assms(2, 5, 7) held in \<open>simp_all add: pool_step_def work_def run_select Let_def flaky_answers\<close>)
  then have "gets_to safe ok start (if safe then apply_stmt (SetRunning sid) jobs else jobs)
      ((T(i := Marking sid))(i := Spawning sid))"
    by (rule gets_on [where e = "Step i"])
      (use assms(2, 7) in \<open>simp_all add: pool_step_def work_def flaky_answers\<close>)
  then show ?thesis by simp
qed


lemma held_none: "locked_row (T 0) = [] \<Longrightarrow> locked_row (T (Suc 0)) = [] \<Longrightarrow> held_rows 2 T = []"
  by (simp add: held_rows_def eval_nat_numeral)

lemma gets_started: "gets_to safe ok start start (\<lambda>_. Asleep)"
  unfolding gets_to_def pool_init_def by blast

text \<open>One upload, taken up by the first worker.\<close>

lemma gets_first:
  assumes "\<And>e s. e = SubmitCall demo_submit \<Longrightarrow> (\<forall>i. pool_tasks s i = Asleep) \<Longrightarrow> ok e s"
    and "\<And>s. ok (Wake 0) s" "\<And>s. ok (Step 0) s"
  shows "gets_to safe ok []
    (if safe then apply_stmt (SetRunning ''a'') (apply_stmt (InsertJob ''a'') [])
     else apply_stmt (InsertJob ''a'') []) ((\<lambda>_. Asleep)(0 := Spawning ''a''))"
proof (rule gets_spawning [OF gets_submitted [OF gets_started]])
  show "pending_jobs (apply_stmt (InsertJob ''a'') []) = [''a'']"
    by (rule pending_insert) (simp add: pending_jobs_def)
qed (simp_all add: assms held_none)

lemma commits_ok_flaky: "commits_ok (flaky_env True)"
  by (simp add: commits_ok_def flaky_answers)


text \<open>
  C34. Both conditions are needed. When the same id is submitted again while its benchmark
  runs, the second worker takes the job up beside the first; and when a commit fails, which
  the code does not notice, even a single submission is taken up by both.
\<close>

theorem shared_jobs:
  "(\<exists>E s. commits_ok E \<and> (pool_rel E 2 (\<lambda>_ _. True))\<^sup>*\<^sup>* (pool_init []) s \<and>
      serving (pool_tasks s 0) = Some ''a'' \<and> serving (pool_tasks s 1) = Some ''a'') \<and>
   (\<exists>E s. (pool_rel E 2 (\<lambda>e _. \<forall>req. e \<noteq> SubmitCall req))\<^sup>*\<^sup>*
        (pool_init (apply_stmt (InsertJob ''a'') [])) s \<and>
      serving (pool_tasks s 0) = Some ''a'' \<and> serving (pool_tasks s 1) = Some ''a'')"
proof (intro conjI)
  let ?a = "apply_stmt (InsertJob ''a'') []" and ?T = "(\<lambda>_. Asleep)(0 := Spawning ''a'')"
  have a: "pending_jobs ?a = [''a'']" by (rule pending_insert) (simp add: pending_jobs_def)
  have again: "pending_jobs (apply_stmt (InsertJob ''a'') (apply_stmt (SetRunning ''a'') ?a)) = [''a'']"
    by (rule pending_insert) (simp add: pending_jobs_def apply_stmt.simps)
  have "gets_to True (\<lambda>_ _. True) [] (apply_stmt (SetRunning ''a'') ?a) ?T"
    using gets_first [of "\<lambda>_ _. True" True] by simp
  then have "gets_to True (\<lambda>_ _. True) []
      (apply_stmt (InsertJob ''a'') (apply_stmt (SetRunning ''a'') ?a)) ?T"
    by (rule gets_submitted) (simp_all add: held_none)
  from gets_spawning [OF this, of 1 "''a''"] again obtain jobs where
    "gets_to True (\<lambda>_ _. True) [] jobs (?T(1 := Spawning ''a''))" by (auto simp: held_none)
  then show "\<exists>E s. commits_ok E \<and> (pool_rel E 2 (\<lambda>_ _. True))\<^sup>*\<^sup>* (pool_init []) s \<and>
      serving (pool_tasks s 0) = Some ''a'' \<and> serving (pool_tasks s 1) = Some ''a''"
    unfolding gets_to_def using commits_ok_flaky by force
  let ?ok = "\<lambda>e _. \<forall>req. e \<noteq> SubmitCall req"
  from gets_spawning [OF gets_started [of False ?ok ?a], of 0 "''a''"] a
  have "gets_to False ?ok ?a ?a ?T" by (auto simp: held_none)
  from gets_spawning [OF this, of 1 "''a''"] a have
    "gets_to False ?ok ?a ?a (?T(1 := Spawning ''a''))" by (auto simp: held_none)
  then show "\<exists>E s. (pool_rel E 2 ?ok)\<^sup>*\<^sup>* (pool_init ?a) s \<and>
      serving (pool_tasks s 0) = Some ''a'' \<and> serving (pool_tasks s 1) = Some ''a''"
    unfolding gets_to_def by force
qed

section \<open>Abandoned jobs\<close>

fun submits_other :: "string \<Rightarrow> pool_event \<Rightarrow> pool \<Rightarrow> bool" where
  "submits_other sid (SubmitCall req) s \<longleftrightarrow> TrimSpace (form_id req) \<noteq> sid"
| "submits_other sid _ s \<longleftrightarrow> True"

definition abandoned :: "string \<Rightarrow> job \<Rightarrow> pool \<Rightarrow> bool" where
  "abandoned sid j s \<longleftrightarrow> wf_alist (pool_jobs s) \<and> (\<forall>i. decided (pool_tasks s i)) \<and>
     map_of (pool_jobs s) sid = Some j \<and> (\<forall>i. active (pool_tasks s i) \<noteq> Some sid)"

lemma abandoned_moves:
  assumes "worker_moves safe held w jobs w' jobs'" "job_status j \<noteq> ''PENDING''"
    and "wf_alist jobs" "map_of jobs sid = Some j" "active w \<noteq> Some sid"
  shows "wf_alist jobs' \<and> decided w' \<and> map_of jobs' sid = Some j \<and> active w' \<noteq> Some sid"
  using assms(1)
proof cases
  case rests
  with assms active_none [of w'] show ?thesis by simp
next
  case (selects k)
  have "k \<noteq> sid"
    using selects(4) assms(2-4) unfolding in_pending_jobs [OF assms(3)] by (metis option.inject)
  with selects assms(3, 4) show ?thesis by simp
next
  case (marks k)
  with assms show ?thesis by (auto simp: wf_apply_stmt map_of_apply_stmt)
next
  case (goes_on k)
  with assms serving_active [of w k] serving_active [of w' k] show ?thesis by simp
next
  case (finishes k st vm)
  with assms map_of_decided(1) [of k st sid jobs] show ?thesis by (simp add: wf_apply_stmt)
qed (use assms in auto)

lemma abandoned_step:
  assumes "submits_other sid e s" "job_status j \<noteq> ''PENDING''" "abandoned sid j s" "pool_step E n e s = Some t"
  shows "abandoned sid j t"
proof (cases e)
  case (Step i)
  let ?T = "pool_tasks s"
  obtain w jobs h where r: "run_state (worker_step E (held_rows n ?T) (?T i)) (pool_jobs s, pool_hist s) = (w, (jobs, h))"
    by (metis prod.exhaust)
  have "decided (?T i)" using assms(3) by (simp add: abandoned_def)
  note here = assms(3) [unfolded abandoned_def]
  have "wf_alist jobs \<and> decided w \<and> map_of jobs sid = Some j \<and> active w \<noteq> Some sid"
    by (rule abandoned_moves [OF worker_step_moves [OF \<open>decided (?T i)\<close> r] assms(2)]) (use here in blast)+
  with r Step assms(3, 4) show ?thesis
    by (auto simp: abandoned_def pool_step_def work_def split: if_splits)
next
  case (SubmitCall req)
  obtain jobs h r where h: "handleSubmit E req (pool_jobs s, pool_hist s) fresh_rw = ((jobs, h), r)"
    by (metis prod.exhaust)
  from submit_jobs [OF h] SubmitCall assms(1, 3) have "wf_alist jobs \<and> map_of jobs sid = Some j"
    by (auto simp: abandoned_def wf_apply_stmt map_of_apply_stmt)
  with h assms(3, 4) SubmitCall show ?thesis by (auto simp: abandoned_def pool_step_def split: if_splits)
qed (use assms in \<open>auto simp: abandoned_def pool_step_def split: if_splits\<close>)

text \<open>
  C35. A job that is not PENDING and that no worker is busy with is left alone for good:
  whatever the workers do, and however often the service starts again, its row does not
  change until its id is submitted again. In particular a job whose worker died, or whose
  last update failed, is RUNNING for ever.
\<close>

theorem abandoned_jobs:
  assumes "abandoned sid j s" "job_status j \<noteq> ''PENDING''"
    and "(pool_rel E n (submits_other sid))\<^sup>*\<^sup>* s t"
  shows "map_of (pool_jobs t) sid = Some j \<and> (\<forall>i. active (pool_tasks t i) \<noteq> Some sid)"
proof -
  from assms(3) have "abandoned sid j t"
  proof (induction rule: rtranclp_induct)
    case (step y z)
    then obtain e where "submits_other sid e y" "pool_step E n e y = Some z" by (auto simp: event_rel_def)
    from abandoned_step [OF this(1) assms(2) step.IH this(2)] show ?case .
  qed (rule assms(1))
  then show ?thesis by (simp add: abandoned_def)
qed

text \<open>A job whose worker died: a worker wakes up and finds nothing.\<close>

definition dead_job :: job where
  "dead_job = \<lparr>job_status = ''RUNNING'', job_score = Fin 0, job_p99 = 0, job_rate = Fin 0\<rparr>"

theorem abandoned_jobs_witness:
  "\<exists>t. (pool_rel calm_env 2 (submits_other ''a''))\<^sup>*\<^sup>* (pool_init [(''a'', dead_job)]) t \<and>
     pool_hist t \<noteq> [] \<and> map_of (pool_jobs t) ''a'' = Some dead_job"
proof -
  let ?s = "pool_init [(''a'', dead_job)]" and ?rel = "pool_rel calm_env 2 (submits_other ''a'')"
  let ?s1 = "?s\<lparr>pool_tasks := (\<lambda>_. Asleep)(0 := Awake)\<rparr>"
  have "?rel ?s ?s1"
    unfolding event_rel_def by (rule exI [of _ "Wake 0"]) (simp add: pool_step_def pool_init_def)
  moreover have "?rel ?s1 (work calm_env 2 0 ?s1)"
    unfolding event_rel_def by (rule exI [of _ "Step 0"]) (simp add: pool_step_def)
  ultimately have r: "?rel\<^sup>*\<^sup>* ?s (work calm_env 2 0 ?s1)" by (meson r_into_rtranclp rtranclp_trans)
  moreover have "pool_hist (work calm_env 2 0 ?s1) \<noteq> []"
    by (simp add: work_def pool_init_def calm_answers run_select Let_def pending_jobs_def dead_job_def)
  moreover have "abandoned ''a'' dead_job ?s" "job_status dead_job \<noteq> ''PENDING''"
    by (simp_all add: abandoned_def pool_init_def dead_job_def)
  from abandoned_jobs [OF this r] have "map_of (pool_jobs (work calm_env 2 0 ?s1)) ''a'' = Some dead_job"
    by blast
  ultimately show ?thesis by blast
qed

end
