(* ===== verification/Submission_Vms.thy ===== *)
theory Submission_Vms
  imports Submission Orchestrator
begin

text \<open>
  The workers of the submission API against the orchestrator: the contract of a VM service
  as a locale, what a worker does with any service that keeps it, and the orchestrator as
  such a service. The history of calls of the submission API determines the RPCs that the
  service has answered, and so the state that it is in.
\<close>

section \<open>A VM service behind the API\<close>

text \<open>The state of a service after the RPCs of a history.\<close>

fun replay ::
  "(SpawnRequest \<Rightarrow> 's \<Rightarrow> SpawnResponse result \<times> 's) \<Rightarrow> (string \<Rightarrow> 's \<Rightarrow> bool \<times> 's) \<Rightarrow>
   sub_call history \<Rightarrow> 's \<Rightarrow> 's"
where
  "replay sp td [] s = s"
| "replay sp td ((Sdk (SpawnRPC req), _) # l) s = replay sp td l (snd (sp req s))"
| "replay sp td ((Sdk (TeardownRPC vm_id), _) # l) s = replay sp td l (snd (td vm_id s))"
| "replay sp td (_ # l) s = replay sp td l s"

text \<open>The API's spawn RPCs are answered by the service, which starts in \<open>s0\<close>.\<close>

definition backed_by ::
  "(SpawnRequest \<Rightarrow> 's \<Rightarrow> SpawnResponse result \<times> 's) \<Rightarrow> (string \<Rightarrow> 's \<Rightarrow> bool \<times> 's) \<Rightarrow> 's \<Rightarrow> sub_env \<Rightarrow> bool"
where
  "backed_by sp td s0 E \<longleftrightarrow> (\<forall>h req. spawn_rpc E h req = fst (sp req (replay sp td h s0)))"

lemma replay_append: "replay sp td (k @ l) s = replay sp td l (replay sp td k s)"
  by (induction sp td k s rule: replay.induct) simp_all

lemma replay_measuring: "list_all measuring l \<Longrightarrow> replay sp td l s = s"
proof (induction l)
  case (Cons e l)
  obtain c b where e: "e = (c, b)" by fastforce
  from Cons.prems have "replay sp td [e] s = s" unfolding e
    by (cases c; cases "case c of Sdk x \<Rightarrow> x | _ \<Rightarrow> BeginTx") simp_all
  with Cons replay_append [of sp td "[e]" l s] show ?case by simp
qed simp

lemma replay_no_rpc:
  "\<not> list_ex vm_rpc l \<Longrightarrow> replay sp td l s = s"
proof (induction l)
  case (Cons e l)
  obtain c b where e: "e = (c, b)" by fastforce
  from Cons.prems have "replay sp td [e] s = s" unfolding e
    by (cases c; cases "case c of Sdk x \<Rightarrow> x | _ \<Rightarrow> BeginTx") auto
  with Cons replay_append [of sp td "[e]" l s] show ?case by simp
qed simp

text \<open>
  The contract: a spawn that succeeds adds the VM of the request, which was not there, and
  answers with its name; one that fails adds nothing; a teardown that reports success
  removes the named VM, one that does not removes nothing.
\<close>

locale vm_service =
  fixes spawn :: "SpawnRequest \<Rightarrow> 's \<Rightarrow> SpawnResponse result \<times> 's"
    and teardown :: "string \<Rightarrow> 's \<Rightarrow> bool \<times> 's"
    and vms :: "'s \<Rightarrow> string set"
    and good :: "'s \<Rightarrow> bool"
    and vm_name :: "string \<Rightarrow> string"
  assumes spawn_good: "good s \<Longrightarrow> spawn req s = (r, s') \<Longrightarrow> good s'"
    and spawn_ok: "good s \<Longrightarrow> spawn req s = (Inr vm, s') \<Longrightarrow> sr_Success vm \<Longrightarrow>
      SubmissionId req \<notin> vms s \<and> vms s' = insert (SubmissionId req) (vms s) \<and>
      sr_VmId vm = vm_name (SubmissionId req)"
    and spawn_fails: "good s \<Longrightarrow> spawn req s = (r, s') \<Longrightarrow> (\<And>vm. r = Inr vm \<Longrightarrow> \<not> sr_Success vm) \<Longrightarrow> vms s' = vms s"
    and teardown_good: "good s \<Longrightarrow> teardown (vm_name k) s = (ok, s') \<Longrightarrow> good s'"
    and teardown_effect: "good s \<Longrightarrow> teardown (vm_name k) s = (ok, s') \<Longrightarrow>
      vms s' = (if ok then vms s - {k} else vms s)"
begin

abbreviation state_after :: "sub_call history \<Rightarrow> 's \<Rightarrow> 's" where
  "state_after \<equiv> replay spawn teardown"

lemma refused_spawn:
  assumes "good s" "fst (spawn req s) = r" "\<forall>vm. r = Inr vm \<longrightarrow> \<not> sr_Success vm"
  shows "good (snd (spawn req s)) \<and> vms (snd (spawn req s)) = vms s"
  using assms spawn_good [of s req] spawn_fails [of s req] by (metis prod.collapse)

text \<open>
  Turns of a worker, for a property \<open>stuck\<close> of a VM that a failed teardown of it brings
  about and that lasts as long as the VM: if all VMs of the service are stuck before a turn,
  they are after it. So a worker leaves only VMs behind whose teardown has failed.
\<close>

lemma turn_leaves:
  assumes "good (state_after h s0)" "backed_by spawn teardown s0 E"
    and "\<forall>k \<in> vms (state_after h s0). stuck k (state_after h s0)"
    and run: "run_state (processNextJob E) (jobs, h) = (u, (jobs', h'))"
    and spawn_lasts: "\<forall>k req s r s'. good s \<longrightarrow> k \<in> vms s \<longrightarrow> stuck k s \<longrightarrow> spawn req s = (r, s') \<longrightarrow> stuck k s'"
    and lasts: "\<forall>k j s ok s'. good s \<longrightarrow> k \<in> vms s' \<longrightarrow> stuck k s \<longrightarrow> teardown (vm_name j) s = (ok, s') \<longrightarrow> stuck k s'"
    and fails: "\<forall>k s s'. good s \<longrightarrow> k \<in> vms s \<longrightarrow> teardown (vm_name k) s = (False, s') \<longrightarrow> stuck k s'"
  shows "good (state_after h' s0) \<and> (\<forall>k \<in> vms (state_after h' s0). stuck k (state_after h' s0))"
proof -
  let ?s = "state_after h s0"
  note after = replay_append [where sp = spawn and td = teardown]
  show ?thesis
  proof (rule process_run [of E jobs h])
    fix l
    assume "run_state (processNextJob E) (jobs, h) = ((), (jobs, h @ l))" "\<not> list_ex vm_rpc l"
    with assms(1,3) run show ?thesis by (auto simp: after replay_no_rpc)
  next
    fix sid committed st finished l c
    let ?req = "spawn_request sid"
    assume r: "run_state (processNextJob E) (jobs, h) = ((), (if finished then apply_stmt st
          (if committed then apply_stmt (SetRunning sid) jobs else jobs)
          else if committed then apply_stmt (SetRunning sid) jobs else jobs,
        h @ taking sid committed @ l @ [(Sdk Rollback, c)]))"
      and l: "case fst (run_state (spawn_vm E sid) (h @ taking sid committed)) of
          None \<Rightarrow> st = SetFailed sid \<and>
            l = [(Sdk (SpawnRPC (spawn_request sid)), False), (Sdk (Exec st), finished)]
        | Some vm \<Rightarrow> \<exists>mid b. list_all measuring mid \<and> l = (Sdk (SpawnRPC (spawn_request sid)), True) # mid @
            [(Sdk (Exec st), finished), (Sdk (TeardownRPC (sr_VmId vm)), b)]"
    have h': "state_after h' s0 = state_after l ?s"
      using r run by (auto simp: after)
    have rpc: "fst (run_state (spawn_vm E sid) (h @ taking sid committed)) =
        (case fst (spawn ?req ?s) of Inr resp \<Rightarrow> if sr_Success resp then Some resp else None | Inl _ \<Rightarrow> None)"
      using assms(2) by (simp add: spawn_vm_def backed_by_def after)
    obtain s1 where s1: "spawn ?req ?s = (fst (spawn ?req ?s), s1)" by (metis prod.collapse)
    then have snd1: "snd (spawn ?req ?s) = s1" by (metis snd_conv)
    have stuck1: "stuck k s1" if "k \<in> vms ?s" for k
      using spawn_lasts [rule_format, OF assms(1) that bspec [OF assms(3) that] s1] .
    show ?thesis
    proof (cases "fst (run_state (spawn_vm E sid) (h @ taking sid committed))")
      case None
      with l have "state_after h' s0 = s1" by (simp add: h' snd1)
      moreover have "\<forall>vm. fst (spawn ?req ?s) = Inr vm \<longrightarrow> \<not> sr_Success vm"
        using None rpc by auto
      ultimately show ?thesis using refused_spawn [OF assms(1) refl, of ?req] stuck1 by (simp add: snd1)
    next
      case (Some vm)
      then have vm: "fst (spawn ?req ?s) = Inr vm" "sr_Success vm"
        using rpc by (auto split: sum.splits if_splits)
      with s1 have "spawn ?req ?s = (Inr vm, s1)" by simp
      from spawn_ok [OF assms(1) this vm(2)] spawn_good [OF assms(1) this]
      have s: "good s1" "sid \<notin> vms ?s" "vms s1 = insert sid (vms ?s)" "sr_VmId vm = vm_name sid"
        by (simp_all add: spawn_request_def)
      obtain ok s2 where t: "teardown (vm_name sid) s1 = (ok, s2)" by fastforce
      have s2: "state_after h' s0 = s2"
        using l Some t s(4) by (auto simp: h' after replay_measuring snd1)
      have "stuck k s2" if k: "k \<in> vms s2" for k
      proof (cases "k = sid")
        case True
        then have "\<not> ok" using k teardown_effect [OF s(1) t] by auto
        then have "teardown (vm_name k) s1 = (False, s2)" using t True by simp
        then show ?thesis using fails [rule_format, of s1 k s2] s(1,3) True by simp
      next
        case False
        then have "k \<in> vms ?s" using k teardown_effect [OF s(1) t] s(3) by (auto split: if_splits)
        then show ?thesis using lasts [rule_format, OF s(1) k stuck1 t] by simp
      qed
      with teardown_good [OF s(1) t] show ?thesis by (simp add: s2)
    qed
  qed
qed

lemma turns_leave:
  assumes "good (state_after h s0)" "backed_by spawn teardown s0 E"
    and "\<forall>k \<in> vms (state_after h s0). stuck k (state_after h s0)"
    and "run_state (worker_turns E n) (jobs, h) = (u, (jobs', h'))"
    and spawn_lasts: "\<forall>k req s r s'. good s \<longrightarrow> k \<in> vms s \<longrightarrow> stuck k s \<longrightarrow> spawn req s = (r, s') \<longrightarrow> stuck k s'"
    and lasts: "\<forall>k j s ok s'. good s \<longrightarrow> k \<in> vms s' \<longrightarrow> stuck k s \<longrightarrow> teardown (vm_name j) s = (ok, s') \<longrightarrow> stuck k s'"
    and fails: "\<forall>k s s'. good s \<longrightarrow> k \<in> vms s \<longrightarrow> teardown (vm_name k) s = (False, s') \<longrightarrow> stuck k s'"
  shows "good (state_after h' s0) \<and> (\<forall>k \<in> vms (state_after h' s0). stuck k (state_after h' s0))"
  using assms(1, 3, 4)
proof (induction n arbitrary: jobs h)
  case (Suc n)
  obtain w jobs1 h1 where t: "run_state (processNextJob E) (jobs, h) = (w, (jobs1, h1))"
    by (metis prod.exhaust)
  note turn_leaves [where stuck = stuck, OF Suc.prems(1) assms(2) Suc.prems(2) t spawn_lasts lasts fails]
  then have "good (state_after h1 s0)" "\<forall>k \<in> vms (state_after h1 s0). stuck k (state_after h1 s0)" by blast+
  with Suc.IH [of h1 jobs1] Suc.prems(3) t show ?case by simp
qed simp

end


section \<open>The orchestrator as the service\<close>

text \<open>
  The RPCs as the client sees them: a status error is an error; a teardown counts as done
  when the answer says so.
\<close>

fun grpc_error :: "grpc_status \<Rightarrow> gerr" where
  "grpc_error (InvalidArgument m) = errors_New (''rpc error: code = InvalidArgument desc = '' @ m)"
| "grpc_error (Internal m) = errors_New (''rpc error: code = Internal desc = '' @ m)"

definition orch_spawn ::
  "sdk_call env \<Rightarrow> ((string \<times> string) list \<Rightarrow> (string \<times> string) list) \<Rightarrow> SpawnRequest \<Rightarrow>
   registry \<times> sdk_call history \<Rightarrow> SpawnResponse result \<times> registry \<times> sdk_call history"
where
  "orch_spawn E order req s =
     (case run_state (SpawnVM E order req) s of (r, s') \<Rightarrow>
        (case r of Inl st \<Rightarrow> Inl (grpc_error st) | Inr resp \<Rightarrow> Inr resp, s'))"

definition orch_teardown ::
  "sdk_call env \<Rightarrow> string \<Rightarrow> registry \<times> sdk_call history \<Rightarrow> bool \<times> registry \<times> sdk_call history"
where
  "orch_teardown E vm_id s =
     (case run_state (TeardownVM E vm_id) s of (r, s') \<Rightarrow>
        (case r of Answered (Inr resp) \<Rightarrow> td_Success resp | _ \<Rightarrow> False, s'))"

definition orch_good :: "registry \<times> sdk_call history \<Rightarrow> bool" where
  "orch_good s \<longleftrightarrow> reg_ok (fst s) \<and> (\<forall>k vm. map_of (fst s) k = Some vm \<longrightarrow> Machine vm \<noteq> None)"

abbreviation orch_vms :: "registry \<times> sdk_call history \<Rightarrow> string set" where
  "orch_vms s \<equiv> dom (map_of (fst s))"

lemma run_purge: "\<exists>h'. run_state (purge E vm) (reg, h) = ((), (reg, h'))"
  by (simp add: purge_def)

lemma orch_teardown_run:
  "orch_teardown E (''vm-'' @ k) (reg, h) =
     (case map_of reg k of
        Some vm \<Rightarrow> (case Machine vm of
          Some m \<Rightarrow> if env_err E h (Sdk (StopVMM m)) = None
            then (True, (AList.delete k reg, snd (snd (run_state (purge E vm)
              (AList.delete k reg, h @ [(Sdk (StopVMM m), True)])))))
            else (False, (reg, h @ [(Sdk (StopVMM m), False)]))
        | None \<Rightarrow> (False, (reg, h)))
      | None \<Rightarrow> (False, (reg, h)))"
proof -
  have "TrimPrefix (''vm-'' @ k) ''vm-'' = k" by (rule TrimPrefix_append)
  moreover have "''vm-'' @ k \<noteq> ''''" by simp
  ultimately show ?thesis
    unfolding orch_teardown_def TeardownVM_def Let_def
    by (auto simp: find_vm_def release_def purge_def split: option.splits)
qed

lemma orch_spawn_effect:
  assumes "orch_good s" "orch_spawn E order req s = (r, s')"
  shows "orch_good s' \<and>
    ((\<exists>vm. r = Inr vm \<and> sr_Success vm \<and> SubmissionId req \<notin> orch_vms s \<and>
        orch_vms s' = insert (SubmissionId req) (orch_vms s) \<and> sr_VmId vm = ''vm-'' @ SubmissionId req) \<or>
     (\<forall>vm. r = Inr vm \<longrightarrow> \<not> sr_Success vm) \<and> orch_vms s' = orch_vms s)"
proof -
  obtain reg h where s: "s = (reg, h)" by fastforce
  obtain q reg' h' where q: "run_state (SpawnVM E order req) (reg, h) = (q, (reg', h'))"
    by (metis prod.exhaust)
  have r: "r = (case q of Inl st \<Rightarrow> Inl (grpc_error st) | Inr resp \<Rightarrow> Inr resp)" "s' = (reg', h')"
    using assms(2) q by (simp_all add: orch_spawn_def s)
  have "reg_ok reg" using assms(1) by (simp add: orch_good_def s)
  from spawn_run [OF this q] have ok: "reg_ok reg'" and eff: "spawn_effect req reg q reg'" by simp_all
  from eff show ?thesis
    unfolding spawn_effect_def
  proof
    assume "map_of reg' = map_of reg \<and> (\<forall>resp. q = Inr resp \<longrightarrow> \<not> sr_Success resp)"
    with ok assms(1) show ?thesis by (auto simp: r s orch_good_def split: sum.splits)
  next
    assume "\<exists>resp vm i. q = Inr resp \<and> sr_Success resp \<and> map_of reg (SubmissionId req) = None \<and>
        map_of reg' = (map_of reg)(SubmissionId req \<mapsto> vm) \<and> Machine vm \<noteq> None \<and>
        free_index reg i \<and> (\<forall>j. free_index reg j \<longrightarrow> i \<le> j) \<and> vm_IPAddress vm = ip_of i \<and>
        sr_VmId resp = ''vm-'' @ SubmissionId req \<and> sr_IpAddress resp = vm_IPAddress vm \<and>
        sr_VsockPath resp = vm_VsockPath vm"
    then obtain resp vm where v: "q = Inr resp" "sr_Success resp" "map_of reg (SubmissionId req) = None"
      "map_of reg' = (map_of reg)(SubmissionId req \<mapsto> vm)" "Machine vm \<noteq> None"
      "sr_VmId resp = ''vm-'' @ SubmissionId req" by blast
    then have "orch_good s'" using ok assms(1) by (auto simp: r s orch_good_def split: if_splits)
    moreover have "orch_vms s' = insert (SubmissionId req) (orch_vms s)" using v(4) by (simp add: r s)
    moreover have "SubmissionId req \<notin> orch_vms s" using v(3) by (simp add: s domIff)
    ultimately show ?thesis using v(1, 2, 6) by (simp add: r)
  qed
qed

lemma orch_teardown_effect:
  assumes "orch_good s" "orch_teardown E (''vm-'' @ k) s = (ok, s')"
  shows "orch_good s' \<and> orch_vms s' = (if ok then orch_vms s - {k} else orch_vms s)"
proof -
  obtain reg h where s: "s = (reg, h)" by fastforce
  have "orch_good (AList.delete k reg, x)" for x
    using assms(1) reg_ok_delete [of reg k] by (auto simp: orch_good_def s)
  moreover have "orch_good (reg, x)" for x using assms(1) by (simp add: orch_good_def s)
  ultimately show ?thesis
    using assms(2) unfolding s orch_teardown_run by (auto split: option.splits if_splits)
qed

interpretation orch_service: vm_service "orch_spawn E order" "orch_teardown E" orch_vms orch_good
  "\<lambda>k. ''vm-'' @ k" for E order
proof
  fix E :: "sdk_call env" and order :: "(string \<times> string) list \<Rightarrow> (string \<times> string) list"
  fix s req r s' vm k ok
  assume g: "orch_good s"
  show "orch_spawn E order req s = (r, s') \<Longrightarrow> orch_good s'" using orch_spawn_effect [OF g] by blast
  show "orch_spawn E order req s = (Inr vm, s') \<Longrightarrow> sr_Success vm \<Longrightarrow>
      SubmissionId req \<notin> orch_vms s \<and> orch_vms s' = insert (SubmissionId req) (orch_vms s) \<and>
      sr_VmId vm = ''vm-'' @ SubmissionId req"
    using orch_spawn_effect [OF g] by blast
  show "orch_spawn E order req s = (r, s') \<Longrightarrow> (\<And>vm. r = Inr vm \<Longrightarrow> \<not> sr_Success vm) \<Longrightarrow>
      orch_vms s' = orch_vms s"
    using orch_spawn_effect [OF g] by blast
  show "orch_teardown E (''vm-'' @ k) s = (ok, s') \<Longrightarrow> orch_good s'"
    "orch_teardown E (''vm-'' @ k) s = (ok, s') \<Longrightarrow> orch_vms s' = (if ok then orch_vms s - {k} else orch_vms s)"
    using orch_teardown_effect [OF g] by blast+
qed

text \<open>The history of the orchestrator only grows.\<close>

lemma host_grows:
  "set h \<subseteq> set (snd (run_state (SetupTapInterface E c tapcfg) h))"
  "set h \<subseteq> set (snd (run_state (CreateSubmissionImage E c order disk) h))"
  "set h \<subseteq> set (snd (run_state (CreateAndBootVM E cfg) h))"
  "set h \<subseteq> set (snd (run_state (CleanupTapInterface E c tap) h))"
proof -
  show "set h \<subseteq> set (snd (run_state (SetupTapInterface E c tapcfg) h))"
    by (rule addsE [OF setup_calm [where img = "''''"], of E c tapcfg h]) simp
  show "set h \<subseteq> set (snd (run_state (CreateSubmissionImage E c order disk) h))"
    by (rule addsE [OF create_unmounts, of E c order disk h]) simp
  show "set h \<subseteq> set (snd (run_state (CreateAndBootVM E cfg) h))"
    using boot_run [of E cfg h] by auto
  show "set h \<subseteq> set (snd (run_state (CleanupTapInterface E c tap) h))"
    by (rule addsE [OF cleanup_any, of E c tap h]) simp
qed

lemma spawn_grows:
  "orch_spawn E order req (reg, h) = (r, (reg', h')) \<Longrightarrow> set h \<subseteq> set h'"
proof -
  assume r: "orch_spawn E order req (reg, h) = (r, (reg', h'))"
  define wired where "wired = snd (run_state (SetupTapInterface E (Timeout Request) (tap_config (SubmissionId req))) h)"
  define imaged where
    "imaged = snd (run_state (CreateSubmissionImage E (Timeout Request) order (disk_config (SubmissionId req))) wired)"
  define booted where "booted = (\<lambda>i ip d. snd (run_state (CreateAndBootVM E (vm_config req i ip d)) imaged))"
  define cleaned where "cleaned = (\<lambda>g. snd (run_state (CleanupTapInterface E Background (tapNameForVM (SubmissionId req))) g))"
  have w: "set h \<subseteq> set wired" unfolding wired_def by (rule host_grows)
  have i: "set h \<subseteq> set imaged" unfolding imaged_def by (rule subset_trans [OF w host_grows(2)])
  have b: "set h \<subseteq> set (booted j ip d)" for j ip d unfolding booted_def by (rule subset_trans [OF i host_grows(3)])
  have c: "set h \<subseteq> set g \<Longrightarrow> set h \<subseteq> set (cleaned g)" for g
    unfolding cleaned_def by (rule subset_trans [OF _ host_grows(4)])
  have "h' \<in> {h, wired, cleaned imaged} \<union> {g. \<exists>i ip d. g = booted i ip d \<or> g = cleaned (booted i ip d)}"
    using spawn_hosts [of E order req reg h] r
    unfolding orch_spawn_def wired_def imaged_def booted_def cleaned_def by (simp split: prod.splits)
  then show ?thesis using w i b c [OF i] c [OF b] by (elim UnE insertE emptyE CollectE exE disjE) simp_all
qed


lemma teardown_grows:
  "orch_teardown E (''vm-'' @ k) (reg, h) = (ok, (reg', h')) \<Longrightarrow> set h \<subseteq> set h'"
proof -
  have "set g \<subseteq> set (snd (snd (run_state (purge E vm) (reg, g))))" for vm reg g
  proof -
    have d: "set g \<subseteq> set (snd (run_state (DetachProber E p) g))" for p g using grows [OF detach_adds] by blast
    have c: "set g \<subseteq> set (snd (run_state (CleanupTapInterface E Background tap) g))" for tap g
      using grows [OF cleanup_any] by blast
    have i: "set g \<subseteq> set (snd (run_state (CleanupSubmissionImage E p) g))" for p g
      using cleanup_image_run [of E p g] by auto
    show ?thesis using d c i unfolding purge_def by (simp, meson subset_trans)
  qed
  moreover assume "orch_teardown E (''vm-'' @ k) (reg, h) = (ok, (reg', h'))"
  ultimately show ?thesis unfolding orch_teardown_run
    by (fastforce split: option.splits if_splits)
qed

text \<open>A VM whose machine did not stop when it was told to.\<close>

definition unstopped :: "sdk_call env \<Rightarrow> string \<Rightarrow> registry \<times> sdk_call history \<Rightarrow> bool" where
  "unstopped E k s \<longleftrightarrow> (\<exists>vm m. map_of (fst s) k = Some vm \<and> Machine vm = Some m \<and>
     (\<exists>g. env_err E g (Sdk (StopVMM m)) \<noteq> None) \<and> (Sdk (StopVMM m), False) \<in> set (snd s))"

lemma unstopped_spawn:
  assumes "orch_good s" "k \<in> orch_vms s" "unstopped E k s" "orch_spawn E order req s = (r, s')"
  shows "unstopped E k s'"
proof -
  obtain reg h reg' h' where s: "s = (reg, h)" "s' = (reg', h')" by fastforce
  obtain q where q: "run_state (SpawnVM E order req) (reg, h) = (q, (reg', h'))"
    using assms(4) by (auto simp: orch_spawn_def s split: prod.splits)
  have "reg_ok reg" using assms(1) by (simp add: orch_good_def s)
  from spawn_run [OF this q] have "map_of reg' k = map_of reg k"
    using assms(2) by (auto simp: spawn_effect_def s)
  with spawn_grows assms(3,4) show ?thesis unfolding unstopped_def s by (metis fst_conv snd_conv subsetD)
qed

lemma unstopped_teardown:
  assumes "orch_good s" "k \<in> orch_vms s'" "unstopped E k s" "orch_teardown E (''vm-'' @ j) s = (ok, s')"
  shows "unstopped E k s'"
proof -
  obtain reg h reg' h' where s: "s = (reg, h)" "s' = (reg', h')" by fastforce
  have "map_of reg' k = map_of reg k"
    using assms(2,4) unfolding s orch_teardown_run by (auto split: option.splits if_splits)
  with teardown_grows assms(3,4) show ?thesis unfolding unstopped_def s by (metis fst_conv snd_conv subsetD)
qed

lemma unstopped_failed:
  assumes "orch_good s" "k \<in> orch_vms s" "orch_teardown E (''vm-'' @ k) s = (False, s')"
  shows "unstopped E k s'"
proof -
  obtain reg h where s: "s = (reg, h)" by fastforce
  from assms(2) obtain vm where vm: "map_of reg k = Some vm" by (auto simp: s)
  moreover from this assms(1) obtain m where m: "Machine vm = Some m" by (auto simp: orch_good_def s)
  ultimately have "env_err E h (Sdk (StopVMM m)) \<noteq> None" "s' = (reg, h @ [(Sdk (StopVMM m), False)])"
    using assms(3) unfolding s orch_teardown_run by (auto split: if_splits)
  with vm m show ?thesis unfolding unstopped_def by fastforce
qed



text \<open>The API of a calm environment in front of the orchestrator.\<close>

definition fleet_spawns :: "sub_env" where
  "fleet_spawns = calm_env\<lparr>spawn_rpc := \<lambda>h req. fst (orch_spawn (fleet_env True) id req
     (replay (orch_spawn (fleet_env True) id) (orch_teardown (fleet_env True)) h ([], [])))\<rparr>"



section \<open>Ids that leave the temporary directory\<close>

lemma boot_grows: "x \<in> set h \<Longrightarrow> x \<in> set (snd (run_state (CreateAndBootVM E cfg) h))"
  using boot_run [of E cfg h] by auto

text \<open>A host on which the TAP of an id can be set up and the strategy binary is there.\<close>

definition provisions :: "sdk_call env \<Rightarrow> string \<Rightarrow> bool" where
  "provisions F sid \<longleftrightarrow>
     (\<forall>h. fst (run_state (SetupTapInterface F (Timeout Request) (tap_config sid)) h) = None \<and>
       fst (run_state (validateSubmissionImageConfig F (disk_config sid)) h) = None)"

lemma spawn_clears:
  assumes "sid = ''x/../../'' @ join_with ''/'' es" "es \<noteq> []" "\<forall>e \<in> set es. plain e"
    and "provisions F sid" "reserve sid reg = (Inr (i, ip), reg1)"
  shows "\<exists>ok. (RemoveAll (abs_path es), ok) \<in> set (snd (snd (run_state (SpawnVM F order (spawn_request sid)) (reg, h))))"
proof -
  have v: "validateSpawnRequest (spawn_request sid) = None"
    using assms(1) by (simp add: validateSpawnRequest_def spawn_request_def)
  obtain h1 where h1: "run_state (SetupTapInterface F (Timeout Request) (tap_config sid)) h = (None, h1)"
    using assms(4) by (metis prod.collapse provisions_def)
  obtain d h2 where h2: "run_state (CreateSubmissionImage F (Timeout Request) order (disk_config sid)) h1 = (d, h2)"
    by fastforce
  have "fst (run_state (validateSubmissionImageConfig F (disk_config sid)) h1) = None"
    using assms(4) by (simp add: provisions_def)
  moreover have "SubmissionImageConfig.SubmissionID (disk_config sid) = ''x/../../'' @ join_with ''/'' es"
    using assms(1) by (simp add: disk_config_def)
  ultimately obtain ok where "(RemoveAll (abs_path es), ok) \<in> set h2"
    using submission_id_escapes [OF assms(2,3), of "disk_config sid" F h1 "Timeout Request" order] h2 by auto
  then have "(RemoveAll (abs_path es), ok) \<in> set (snd (run_state (CreateAndBootVM F cfg) h2))"
    "(RemoveAll (abs_path es), ok) \<in> set (snd (run_state (CleanupTapInterface F Background tap) h2))"
    "(RemoveAll (abs_path es), ok) \<in> set (snd (run_state (CleanupTapInterface F Background tap)
      (snd (run_state (CreateAndBootVM F cfg) h2))))" for cfg tap
    using boot_grows grows [OF cleanup_any] by blast+
  then show ?thesis using v h1 h2 assms(5)
    by (intro exI [of _ ok]) (auto simp: SpawnVM_def spawn_request_def Let_def split: sum.split prod.split)
qed

text \<open>
  C37. Ids are not sanitised, by either service. For the id \<open>x/../../d1/.../dn\<close>, accepted
  with 202: the submission API has written the uploaded bytes to \<open>/d1/.../dn.bin\<close> of its
  host and has then removed that file, and the job is queued; and when the orchestrator
  gets the request of the worker for it, on a host where networking works, it removes the
  directory \<open>/d1/.../dn\<close> with everything in it. (The kernel of the VMs is such a
  \<open>.bin\<close> file.)
\<close>

theorem id_leaves_tmp:
  assumes "sid = ''x/../../'' @ join_with ''/'' (es @ [name])" "\<forall>e \<in> set (es @ [name]). plain e"
    and "TrimSpace (form_id req) = sid" "temp_dir E = ''/tmp''"
    and "handleSubmit E req (jobs, h) fresh_rw = ((jobs', h'), w, p)" "resp_status w = 202"
    and "provisions F sid" "reserve sid reg = (Inr (i, ip), reg1)"
  shows "(\<exists>data l b. form_binary req = Some data \<and> h' = h @ l \<and>
      (WriteFile (abs_path (es @ [name @ ''.bin''])) data, True) \<in> set l \<and>
      last l = (Remove (abs_path (es @ [name @ ''.bin''])), b)) \<and>
    sid \<in> set (pending_jobs jobs') \<and>
    (\<exists>ok. (RemoveAll (abs_path (es @ [name])), ok)
      \<in> set (snd (snd (run_state (SpawnVM F order (spawn_request sid)) (reg, g)))))"
proof -
  have n: "plain (name @ ''.bin'')" using assms(2) by (auto simp: plain_def)
  have "sid @ ''.bin'' = ''x/../../'' @ join_with ''/'' (es @ [name @ ''.bin''])"
    using join_with_suffix [of es name "''.bin''"] by (simp add: assms(1))
  moreover have "temp_dir E = abs_path [''tmp'']" using assms(4) by (simp add: abs_path_def)
  ultimately have path: "upload_path E sid = abs_path (es @ [name @ ''.bin''])"
    using Join_escapes [of "''tmp''" "''submission-''" "es @ [name @ ''.bin'']"] assms(2) n
    by (simp add: upload_path_def plain_def)
  from submit_run [OF assms(5)] assms(3,6) obtain l data b where
    l: "h' = h @ l" "jobs' = apply_stmt (InsertJob sid) jobs" "form_binary req = Some data"
      "l = [(OpenFile (upload_path E sid), True), (WriteFile (upload_path E sid) data, True),
        (Sdk (Exec (InsertJob sid)), True), (Remove (upload_path E sid), b)]"
    by (auto simp: Let_def)
  have "sid \<in> set (pending_jobs jobs')"
    using map_of_SomeD [OF map_of_apply_stmt(1) [of sid jobs sid, simplified]]
    by (force simp: l(2) pending_jobs_def)
  moreover have "es @ [name] \<noteq> []" by simp
  from spawn_clears [OF assms(1) this assms(2,7,8)] have "\<exists>ok. (RemoveAll (abs_path (es @ [name])), ok)
      \<in> set (snd (snd (run_state (SpawnVM F order (spawn_request sid)) (reg, g))))" .
  ultimately show ?thesis using l(1,3,4) by (simp add: path)
qed

definition kernel_id :: string where
  "kernel_id = ''x/../../'' @ join_with ''/'' [''srv'', ''vmlinux'']"

lemma kernel_id_trim: "TrimSpace kernel_id = kernel_id"
  by (rule TrimSpace_visible) (simp_all add: kernel_id_def)

lemma kernel_provisions: "provisions (fleet_env True) kernel_id"
proof -
  have s: "TrimSpace ''../../sandbox/strategy_bin'' = ''../../sandbox/strategy_bin''"
    by (rule TrimSpace_visible) simp_all
  have "kernel_id \<noteq> ''''" by (simp add: kernel_id_def)
  then show ?thesis
    by (simp add: provisions_def fleet_tap validateSubmissionImageConfig_def disk_config_def kernel_id_trim s)
qed

theorem id_leaves_tmp_witness:
  "\<exists>h' w b. handleSubmit calm_env (demo_submit\<lparr>form_id := kernel_id\<rparr>) ([], []) fresh_rw =
      ((apply_stmt (InsertJob kernel_id) [], h'), w, False) \<and>
    last h' = (Remove ''/srv/vmlinux.bin'', b) \<and>
    (\<exists>ok. (RemoveAll ''/srv/vmlinux'', ok)
      \<in> set (snd (snd (run_state (SpawnVM (fleet_env True) id (spawn_request kernel_id)) ([], [])))))"
proof -
  let ?req = "demo_submit\<lparr>form_id := kernel_id\<rparr>"
  have k: "kernel_id \<noteq> ''''" by (simp add: kernel_id_def)
  obtain h' w where r: "handleSubmit calm_env ?req ([], []) fresh_rw =
      ((apply_stmt (InsertJob kernel_id) [], h'), w, False)" "resp_status w = 202"
    using k by (simp add: handleSubmit_def handler_of_def submit_body_def run_save calm_env_def demo_submit_def
        quiet_env_def kernel_id_trim Let_def)
  have req: "TrimSpace (form_id ?req) = kernel_id" "temp_dir calm_env = ''/tmp''"
    by (simp_all add: kernel_id_trim calm_env_def)
  have id: "kernel_id = ''x/../../'' @ join_with ''/'' ([''srv''] @ [''vmlinux''])"
    "\<forall>e \<in> set ([''srv''] @ [''vmlinux'']). plain e"
    by (simp_all add: kernel_id_def plain_def)
  have p: "abs_path ([''srv''] @ [''vmlinux''] ) = ''/srv/vmlinux''"
    "abs_path ([''srv''] @ [''vmlinux'' @ ''.bin'']) = ''/srv/vmlinux.bin''" by (simp_all add: abs_path_def)
  from id_leaves_tmp [OF id req r kernel_provisions reserve_empty, of id "[]", unfolded p] r(1)
  show ?thesis by auto
qed

end
