(* ===== verification/Spec2Isabelle.thy ===== *)
theory Spec2Isabelle
  imports Platform Lifecycle Quota Orchestrator_Steps Probe_Consumer Submission_Workers Submission_Vms
begin

text \<open>
  Verification of the Go services of hft-bench, a benchmark platform for trading
  strategies.

  \<^bold>\<open>The program.\<close> A submission is uploaded to the submission API
  (\<open>services/submission-api\<close>), which queues it as a row of the table
  \<open>benchmark_jobs\<close>. Two workers take jobs from that table. For each job a worker asks the
  sandbox orchestrator (\<open>services/sandbox-orchestrator\<close>) over gRPC for a microVM, has the
  bot fleet load it with orders, waits for the measured numbers, writes a score into the
  job and tears the VM down. The bot fleet also sends its results to a Kafka topic; the
  telemetry ingester (\<open>services/telemetry-ingester\<close>) stores them in the table
  \<open>benchmark_metrics\<close>, which the workers poll and which the leaderboard
  (\<open>services/leaderboard\<close>) ranks. Inside the orchestrator every VM has a TAP interface, an
  ext4 image with the submission, a Firecracker process, and optionally a pair of eBPF
  probes whose events go to another topic. \<open>sandbox/quota.go\<close> sets cgroup limits.

  \<^bold>\<open>The libraries of the language.\<close> They are modelled once and used by the components:
  \<^item> \<open>Prelude\<close>: Go errors as values, reachable states with the invariant rule (locale
    \<open>step_system\<close>), association lists for Go maps that are ranged over.
  \<^item> \<open>Float64\<close>: binary64 with its rounding, on rationals; \<open>Go_Strings\<close>, \<open>Go_Path\<close>,
    \<open>Go_Sort\<close>: the functions of \<open>strings\<close>, \<open>strconv\<close>, \<open>filepath\<close> and \<open>sort\<close> in use. What
    \<open>sort.Slice\<close> guarantees follows from a locale for weak orders.
  \<^item> \<open>Go_Json\<close>: a decoder for JSON documents into structs; \<open>Go_Http\<close>: response writers,
    JSON answers, the middlewares that recover from panics and add headers.
  \<^item> \<open>Go_OS\<close> and \<open>Sdk_Calls\<close>: programs over calls of the host, of the Firecracker SDK, of
    netlink and of the eBPF loader. A program is a state monad over the history of its
    calls; the answers are an environment, an arbitrary function of the history and the
    call, so that a theorem about all environments holds whatever the outside does,
    failures included. Three rule systems push a property through a program: of its trace
    (\<open>adds\<close>, with the locale \<open>trace_law\<close>), of its result (\<open>yields\<close>), of both (\<open>does\<close>).

  \<^bold>\<open>The components.\<close>
  \<^item> \<open>Scoring\<close>: \<open>calculateScore\<close> of both services, in binary64. The two agree on every
    input, the score is a percentage, and it is monotone.
  \<^item> \<open>Submission\<close>: the handlers \<open>handleSubmit\<close>, \<open>handleStatus\<close>, \<open>healthHandler\<close>, the
    polling of the metrics, \<open>processNextJob\<close> and \<open>runBenchmarkSync\<close>. The table of jobs is
    the state, each SQL statement an operation on it. \<open>Submission_Workers\<close> cuts a turn of a
    worker at its statements and lets workers, requests and crashes interleave; an
    undisturbed turn is the program of \<open>Submission\<close>. \<open>Submission_Vms\<close> states what a worker
    needs from a VM service as a locale, shows that the orchestrator is one, and follows an
    id with slashes through both services.
  \<^item> \<open>Orchestrator\<close>: the registry, \<open>SpawnVM\<close>, \<open>TeardownVM\<close> and \<open>shutdownAllVMs\<close> as programs
    over a registry and the host; \<open>Orchestrator_Steps\<close>: the same requests cut at their
    critical sections, interleaved. Their parts are \<open>Network\<close> (network.go), \<open>Disk\<close>
    (disk.go), \<open>Firecracker\<close> (firecracker.go), \<open>Ebpf_Prober\<close> and \<open>Probe_Consumer\<close>
    (ebpf_prober.go, ebpf_consumer.go). \<open>Vm_Api\<close> holds the messages.
  \<^item> \<open>Ingester\<close>: topic, offsets, table, the consumer goroutine, the channel and the storage
    worker as one state machine whose events include every answer of the broker and of the
    database, the signal, and a crash with restart at any point.
  \<^item> \<open>Leaderboard\<close>: the queries as functions of the table (\<open>Metrics_Table\<close>), the loops that
    keep, sort and rank the rows, the JSON bodies, the routes and the middlewares.
  \<^item> \<open>Pipeline\<close>: ingester and leaderboard together, from a record of the topic to a line of
    the board; \<open>Platform\<close> adds the worker that scores its job by the same row.
  \<^item> \<open>Lifecycle\<close>: the four \<open>main\<close> functions with the opening of databases and connections,
    and \<open>App.run\<close> with its signal, as a state machine.
  \<^item> \<open>Quota\<close>: the cgroup limits, with the \<open>int64\<close> arithmetic of the memory limit.

  \<^bold>\<open>What the lemmas show.\<close> Of every component: the functional result of its operations
  on every branch; what a failure leaves behind (TAPs, images, probes, offsets, jobs, VMs);
  for the state machines an invariant, preserved by every step, and what follows from it in
  all reachable states (delivery at least once, disjoint workers, distinct addresses,
  typed rows, bounded buffers, clean exits); refinements between the programs and the
  interleaved steps, and from the topic to the board. Where the code falls short of its
  purpose a theorem exhibits it: a poisonous success rate that takes the board down, a
  record that blocks its partition, records lost beside a fetch error, two workers on one
  job, abandoned jobs, one address for two VMs, a path that leaves \<open>/tmp\<close>, a leaked image.

  \<^bold>\<open>Bounds and fuel.\<close> The JSON parser recurses with fuel, twice the length of its input;
  every second call consumes a byte, and it is proved that this never runs out. Its depth
  limit of 10000 is Go's. The polling loop of the submission API takes the list of the
  cases its \<open>select\<close> picks before the timeout, of any finite length. A spawn takes seven
  steps, a teardown six, a turn of a worker six, and the refinements say so. Integers are
  \<open>int\<close> where the code compares them only and the range is stated; the products of
  \<open>Quota\<close>, the counters of the probe and the hashes of the TAP names wrap as in Go.

  \<^bold>\<open>Not modelled.\<close> The generated protobuf and eBPF bindings, of which the components use
  the messages only; the kernel program in C, the bot fleet and the shadow engine in Rust,
  the sample strategy, the user interface, the scripts: they are not Go services, and
  appear as answers of the environment. The SQL engine, the Kafka client, the gRPC and HTTP
  servers and the file server of the static pages are the environment as well. Log lines
  are left out, but for those of the middleware \<open>withLogging\<close>. Durations
  are not measured: a timeout is a choice of the environment. Goroutines interleave at the
  statements that communicate (channel, mutex, database, remote calls), not at single
  memory accesses; the code shares no other memory between them. \<open>RingBufMap\<close> only returns
  a field to the reader of the eBPF library.
\<close>

end
